(* ===== verification/Kernel_Prelude.thy ===== *)
theory Kernel_Prelude
  imports Main "HOL-Library.Word"
begin

unbundle bit_operations_syntax

text \<open>
  Shared vocabulary of the development: the machine integer types, the outcome
  type of kernel code that may panic, fault or never return, the alignment
  helpers of \<^verbatim>\<open>src/src/include/util/align.hpp\<close>, and the generic facts on
  outcomes and words that the component theories use.
\<close>

section \<open>Machine integers and pointers\<close>

type_synonym u8 = "8 word"
type_synonym u16 = "16 word"
type_synonym u32 = "32 word"
type_synonym u64 = "64 word"

text \<open>Kernel pointers are 64-bit virtual addresses; the null pointer is \<open>0\<close>.\<close>

type_synonym ptr = u64

abbreviation (input) null :: ptr where "null \<equiv> 0"

named_theorems exec_simps \<open>rewriting of outcomes\<close>
named_theorems kdefs \<open>definitions of straight-line kernel operations\<close>

section \<open>Outcomes of kernel code\<close>

text \<open>
  \<open>klog_panic\<close> masks interrupts and halts for ever; a call through a null
  function pointer or an access through a null object pointer ends the run with
  a fault; the \<open>cli; hlt\<close> loops of the exception path park the processor.
  An outcome is \<open>None\<close> when the code loops for ever, \<open>Some (Inl e)\<close> when it
  stopped for the reason \<open>e\<close>, and \<open>Some (Inr x)\<close> when it returned \<open>x\<close>.
\<close>

datatype stop = Panic string | NullDeref | NullCall | Halted string

type_synonym 'a exec = "(stop + 'a) option"

abbreviation ret :: "'a \<Rightarrow> 'a exec" where "ret x \<equiv> Some (Inr x)"

abbreviation halt :: "stop \<Rightarrow> 'a exec" where "halt e \<equiv> Some (Inl e)"

abbreviation diverges :: "'a exec" where "diverges \<equiv> None"

definition ebind :: "'a exec \<Rightarrow> ('a \<Rightarrow> 'b exec) \<Rightarrow> 'b exec" where
  "ebind m f = (case m of None \<Rightarrow> None | Some (Inl e) \<Rightarrow> Some (Inl e) | Some (Inr x) \<Rightarrow> f x)"

lemma ebind_simps [simp]:
  "ebind (ret x) f = f x" "ebind (halt e) f = halt e" "ebind diverges f = diverges"
  by (simp_all add: ebind_def)

lemma ebind_eq_ret [exec_simps]:
  "ebind m f = ret y \<longleftrightarrow> (\<exists>x. m = ret x \<and> f x = ret y)"
  by (auto simp: ebind_def split: option.splits sum.splits)

lemma ebind_eq_halt [exec_simps]:
  "ebind m f = halt e \<longleftrightarrow> m = halt e \<or> (\<exists>x. m = ret x \<and> f x = halt e)"
  by (auto simp: ebind_def split: option.splits sum.splits)

lemma ebind_assoc: "ebind (ebind m f) g = ebind m (\<lambda>x. ebind (f x) g)"
  by (auto simp: ebind_def split: option.splits sum.splits)

text \<open>A loop over a list of indices or requests, in order, until one of them stops.\<close>

primrec for_each :: "('r \<Rightarrow> 's \<Rightarrow> 's exec) \<Rightarrow> 'r list \<Rightarrow> 's \<Rightarrow> 's exec" where
  "for_each f [] s = ret s"
| "for_each f (r # rs) s = ebind (f r s) (for_each f rs)"

lemma for_each_append: "for_each f (xs @ ys) s = ebind (for_each f xs s) (for_each f ys)"
proof (induction xs arbitrary: s)
  case (Cons x xs)
  then have "for_each f (xs @ ys) = (\<lambda>s. ebind (for_each f xs s) (for_each f ys))" by blast
  then show ?case by (simp add: ebind_assoc)
qed simp

lemma ebind_mono [partial_function_mono]:
  assumes "mono_option B" and "\<And>y. mono_option (\<lambda>f. C y f)"
  shows "mono_option (\<lambda>f. ebind (B f) (\<lambda>y. C y f))"
proof (rule monotoneI)
  fix f g :: "'a \<Rightarrow> 'b option"
  assume fg: "fun_ord option_ord f g"
  have B: "option_ord (B f) (B g)" and C: "\<And>y. option_ord (C y f) (C y g)"
    using assms fg by (auto dest: monotoneD)
  show "option_ord (ebind (B f) (\<lambda>y. C y f)) (ebind (B g) (\<lambda>y. C y g))"
  proof (cases "B f = None")
    case True
    then show ?thesis by (simp add: flat_ord_def)
  next
    case False
    with B have "B g = B f" by (auto simp: flat_ord_def)
    with C show ?thesis
      by (auto simp: ebind_def flat_ord_def split: option.splits sum.splits)
  qed
qed

section \<open>Word facts\<close>

text \<open>
  Every size and address below is read back as a natural number. The rules
  collected here move sums, differences and products of words to \<^typ>\<open>nat\<close>
  once the absence of wrap-around is known.
\<close>

lemma unat_add_nowrap:
  fixes a b :: "'a::len word"
  shows "unat a + unat b < 2 ^ LENGTH('a) \<Longrightarrow> unat (a + b) = unat a + unat b"
  by (simp add: unat_word_ariths)

lemma unat_mult_nowrap:
  fixes a b :: "'a::len word"
  shows "unat a * unat b < 2 ^ LENGTH('a) \<Longrightarrow> unat (a * b) = unat a * unat b"
  by (simp add: unat_word_ariths)

lemma unat_sub_le:
  fixes a b :: "'a::len word"
  shows "b \<le> a \<Longrightarrow> unat (a - b) = unat a - unat b"
  by (simp add: unat_sub)

lemma unat_of_nat_small:
  "n < 2 ^ LENGTH('a) \<Longrightarrow> unat (of_nat n :: 'a::len word) = n"
  by (simp add: unat_of_nat take_bit_nat_eq_self)

lemma u64_less_2p64: "unat (x :: u64) < 18446744073709551616"
  using unsigned_less [of x] by simp

section \<open>Alignment (util/align.hpp)\<close>

definition align_up :: "u64 \<Rightarrow> u64 \<Rightarrow> u64" where
  "align_up val page_size = (val + (page_size - 1)) AND NOT (page_size - 1)"

definition align_down :: "u64 \<Rightarrow> u64 \<Rightarrow> u64" where
  "align_down val page_size = val AND NOT (page_size - 1)"

definition PAGE_SIZE :: u64 where "PAGE_SIZE = 0x1000"

lemma and_not_mask_unat:
  fixes x :: "'a::len word"
  shows "unat (x AND NOT (mask k)) = unat x div 2 ^ k * 2 ^ k"
proof -
  have "x AND NOT (mask k) = push_bit k (drop_bit k x)"
    by (rule bit_word_eqI) (auto simp: bit_simps)
  moreover have "unat (push_bit k (drop_bit k x))
      = take_bit LENGTH('a) (push_bit k (drop_bit k (unat x)))"
    by (simp only: unsigned_push_bit_eq unsigned_drop_bit_eq take_bit_nat_eq_self [OF unsigned_less])
  moreover have "push_bit k (drop_bit k (unat x)) < 2 ^ LENGTH('a)"
  proof -
    have "push_bit k (drop_bit k (unat x)) \<le> unat x"
      by (simp add: push_bit_eq_mult drop_bit_eq_div)
    also have "\<dots> < 2 ^ LENGTH('a)" by simp
    finally show ?thesis .
  qed
  moreover have "push_bit k (drop_bit k (unat x)) = unat x div 2 ^ k * 2 ^ k"
    by (simp add: push_bit_eq_mult drop_bit_eq_div)
  ultimately show ?thesis by (simp only: take_bit_nat_eq_self)
qed

lemma page_mask: "PAGE_SIZE - 1 = mask 12"
  by (simp add: PAGE_SIZE_def mask_eq_exp_minus_1)

lemma unat_PAGE_SIZE [simp]: "unat PAGE_SIZE = 4096"
  by (simp add: PAGE_SIZE_def)

lemma unat_align_down_page: "unat (align_down x PAGE_SIZE) = unat x div 4096 * 4096"
  using and_not_mask_unat [of x 12] by (simp add: align_down_def page_mask)

lemma unat_align_up_page:
  assumes "unat x + 4095 < 2 ^ 64"
  shows "unat (align_up x PAGE_SIZE) = (unat x + 4095) div 4096 * 4096"
proof -
  have "unat (x + mask 12) = unat x + 4095"
    using assms unat_add_nowrap [of x "mask 12"] by (simp add: mask_eq_exp_minus_1)
  then show ?thesis
    using and_not_mask_unat [of "x + mask 12" 12] by (simp add: align_up_def page_mask)
qed

end
