(* ===== verification/Fifo_Interface.thy ===== *)
theory Fifo_Interface
  imports Kernel_Prelude
begin

text \<open>
  The first-in first-out contract that the ring buffer of the keyboard driver
  promises to its clients, stated once as a locale. A client sees a queue through
  three operations that may stop the kernel: put, drop the front, look at the front.
\<close>

datatype 'a fifo_op = Put 'a | Get

text \<open>Runs a sequence of operations; every \<open>Get\<close> reports the front and drops it.\<close>

fun run_fifo ::
  "('q \<Rightarrow> 'a \<Rightarrow> 'q exec) \<Rightarrow> ('q \<Rightarrow> 'q exec) \<Rightarrow> ('q \<Rightarrow> 'a) \<Rightarrow> 'q \<Rightarrow> 'a fifo_op list
    \<Rightarrow> ('a list \<times> 'q) exec" where
  "run_fifo put drop_front front q [] = ret ([], q)"
| "run_fifo put drop_front front q (Put x # ops) =
     ebind (put q x) (\<lambda>q'. run_fifo put drop_front front q' ops)"
| "run_fifo put drop_front front q (Get # ops) =
     ebind (drop_front q) (\<lambda>q'.
     ebind (run_fifo put drop_front front q' ops) (\<lambda>(out, q''). ret (front q # out, q'')))"

text \<open>The same sequence on a plain list of at most \<open>k\<close> elements.\<close>

fun spec_fifo :: "nat \<Rightarrow> stop \<Rightarrow> stop \<Rightarrow> 'a list \<Rightarrow> 'a fifo_op list \<Rightarrow> ('a list \<times> 'a list) exec" where
  "spec_fifo k full void xs [] = ret ([], xs)"
| "spec_fifo k full void xs (Put x # ops) =
     (if length xs < k then spec_fifo k full void (xs @ [x]) ops else halt full)"
| "spec_fifo k full void xs (Get # ops) =
     (case xs of [] \<Rightarrow> halt void
      | y # ys \<Rightarrow> ebind (spec_fifo k full void ys ops) (\<lambda>(out, zs). ret (y # out, zs)))"

locale bounded_fifo =
  fixes invar :: "'q \<Rightarrow> bool"
    and contents :: "'q \<Rightarrow> 'a list"
    and capacity :: "'q \<Rightarrow> nat"
    and put :: "'q \<Rightarrow> 'a \<Rightarrow> 'q exec"
    and drop_front :: "'q \<Rightarrow> 'q exec"
    and front :: "'q \<Rightarrow> 'a"
    and full :: stop
    and void :: stop
  assumes put_room: "invar q \<Longrightarrow> length (contents q) < capacity q \<Longrightarrow>
      \<exists>q'. put q x = ret q' \<and> invar q' \<and> contents q' = contents q @ [x] \<and> capacity q' = capacity q"
    and put_full: "invar q \<Longrightarrow> \<not> length (contents q) < capacity q \<Longrightarrow> put q x = halt full"
    and drop_nonempty: "invar q \<Longrightarrow> contents q = y # ys \<Longrightarrow>
      front q = y \<and> (\<exists>q'. drop_front q = ret q' \<and> invar q' \<and> contents q' = ys \<and> capacity q' = capacity q)"
    and drop_empty: "invar q \<Longrightarrow> contents q = [] \<Longrightarrow> drop_front q = halt void"
begin

text \<open>Every run of operations is the run of the list specification, stops included.\<close>

lemma run_refines_spec:
  assumes "invar q"
  shows "(\<exists>out q'. run_fifo put drop_front front q ops = ret (out, q') \<and> invar q' \<and>
            spec_fifo (capacity q) full void (contents q) ops = ret (out, contents q'))
       \<or> (\<exists>e. run_fifo put drop_front front q ops = halt e \<and>
            spec_fifo (capacity q) full void (contents q) ops = halt e)"
  using assms
proof (induction ops arbitrary: q)
  case Nil
  then show ?case by simp
next
  case (Cons op ops)
  show ?case
  proof (cases op)
    case (Put x)
    show ?thesis
    proof (cases "length (contents q) < capacity q")
      case True
      with put_room [OF Cons.prems, of x] obtain q' where q': "put q x = ret q'" "invar q'"
        "contents q' = contents q @ [x]" "capacity q' = capacity q" by blast
      with Cons.IH [OF q'(2)] Put True show ?thesis by simp
    next
      case False
      with put_full [OF Cons.prems, of x] Put show ?thesis by simp
    qed
  next
    case Get
    show ?thesis
    proof (cases "contents q")
      case Nil
      with drop_empty [OF Cons.prems] Get show ?thesis by simp
    next
      case (Cons y ys)
      with drop_nonempty [OF Cons.prems(1)] obtain q' where q': "front q = y"
        "drop_front q = ret q'" "invar q'" "contents q' = ys" "capacity q' = capacity q" by blast
      with Cons.IH [OF q'(3)] Get Cons show ?thesis by (auto simp: ebind_def)
    qed
  qed
qed

lemma run_puts:
  assumes "invar q" and "length (contents q) + length xs \<le> capacity q"
  shows "\<exists>q'. run_fifo put drop_front front q (map Put xs) = ret ([], q') \<and> invar q'
    \<and> contents q' = contents q @ xs \<and> capacity q' = capacity q"
  using assms
proof (induction xs arbitrary: q)
  case Nil
  then show ?case by simp
next
  case (Cons x xs)
  then obtain q' where "put q x = ret q'" "invar q'"
    "contents q' = contents q @ [x]" "capacity q' = capacity q"
    using put_room [of q x] by auto
  with Cons.IH [of q'] Cons.prems show ?case by simp
qed

end

end
