(* ===== verification/Ring_Buffer.thy ===== *)
theory Ring_Buffer
  imports Fifo_Interface
begin

text \<open>
  \<^verbatim>\<open>kstd::RingBuffer<T, N>\<close> of \<^verbatim>\<open>src/src/include/std/ring_buffer.hpp\<close>. The array
  \<open>cap\<close> has \<open>N\<close> elements; one slot stays free, so \<open>N - 1\<close> elements fit.
\<close>

section \<open>The data structure\<close>

record 'a RingBuffer =
  rb_cap :: "'a list"
  rb_read :: u64
  rb_write :: u64
  rb_size :: u64

definition cap_size :: "'a RingBuffer \<Rightarrow> u64" where
  "cap_size b = of_nat (length (rb_cap b))"

definition is_full :: "'a RingBuffer \<Rightarrow> bool" where
  "is_full b \<longleftrightarrow> (rb_write b + 1) mod cap_size b = rb_read b"

definition is_empty :: "'a RingBuffer \<Rightarrow> bool" where
  "is_empty b \<longleftrightarrow> rb_write b = rb_read b"

definition empty_panic :: stop where
  "empty_panic = Panic ''buffer is empty can't read data''"

definition full_panic :: stop where
  "full_panic = Panic ''buffer is full and can't add data''"

definition buf_read :: "'a RingBuffer \<Rightarrow> 'a RingBuffer exec" where
  "buf_read b =
     (if is_empty b then halt empty_panic
      else ret (b\<lparr>rb_read := (rb_read b + 1) mod cap_size b, rb_size := rb_size b - 1\<rparr>))"

definition buf_write :: "'a RingBuffer \<Rightarrow> 'a \<Rightarrow> 'a RingBuffer exec" where
  "buf_write b data =
     (if is_full b then halt full_panic
      else ret (b\<lparr>rb_cap := (rb_cap b)[unat (rb_write b) := data],
                  rb_write := (rb_write b + 1) mod cap_size b, rb_size := rb_size b + 1\<rparr>))"

definition get_read :: "'a RingBuffer \<Rightarrow> 'a" where
  "get_read b = rb_cap b ! unat (rb_read b)"

definition get_write :: "'a RingBuffer \<Rightarrow> 'a" where
  "get_write b = rb_cap b ! unat (rb_write b)"

definition get_size :: "'a RingBuffer \<Rightarrow> u64" where
  "get_size b = rb_size b"

text \<open>A buffer as the member initialisers leave it, over an array of given contents.\<close>

definition fresh_buffer :: "'a list \<Rightarrow> 'a RingBuffer" where
  "fresh_buffer xs = \<lparr>rb_cap = xs, rb_read = 0, rb_write = 0, rb_size = 0\<rparr>"

text \<open>\<^verbatim>\<open>KeyboardBuffer\<close> is the instance for bytes with 255 slots.\<close>

type_synonym KeyboardBuffer = "u8 RingBuffer"

definition KEYBOARD_SLOTS :: nat where "KEYBOARD_SLOTS = 255"

section \<open>Invariant and abstraction\<close>

definition ring_inv :: "'a RingBuffer \<Rightarrow> bool" where
  "ring_inv b \<longleftrightarrow> 0 < length (rb_cap b) \<and> length (rb_cap b) < 2 ^ 64
     \<and> unat (rb_read b) < length (rb_cap b) \<and> unat (rb_size b) < length (rb_cap b)
     \<and> unat (rb_write b) = (unat (rb_read b) + unat (rb_size b)) mod length (rb_cap b)"

definition ring_contents :: "'a RingBuffer \<Rightarrow> 'a list" where
  "ring_contents b =
     map (\<lambda>i. rb_cap b ! ((unat (rb_read b) + i) mod length (rb_cap b))) [0..<unat (rb_size b)]"

definition ring_capacity :: "'a RingBuffer \<Rightarrow> nat" where
  "ring_capacity b = length (rb_cap b) - 1"

lemma length_ring_contents [simp]: "length (ring_contents b) = unat (rb_size b)"
  by (simp add: ring_contents_def)

lemma ring_contents_Nil: "ring_contents b = [] \<longleftrightarrow> rb_size b = 0"
  by (simp add: ring_contents_def unat_eq_0)

text \<open>Stepping an index: the word computation is the natural-number one.\<close>

lemma unat_step_index:
  fixes i :: u64
  assumes "unat i < n" and "n < 2 ^ 64"
  shows "unat ((i + 1) mod of_nat n) = (unat i + 1) mod n"
proof -
  have "unat (i + 1) = unat i + 1"
    using assms unat_add_nowrap [of i 1] by simp
  moreover have "unat (of_nat n :: u64) = n"
    using assms by (intro unat_of_nat_small) simp
  ultimately show ?thesis by (simp add: unat_mod_distrib)
qed

lemma mod_shift_eq_iff:
  fixes r k n :: nat
  assumes "r < n" and "k < n"
  shows "(r + k) mod n = r \<longleftrightarrow> k = 0"
proof (cases "r + k < n")
  case True
  then show ?thesis by simp
next
  case False
  then have "(r + k) mod n = r + k - n"
    using assms by (simp add: mod_if)
  then show ?thesis using assms False by auto
qed

lemma is_empty_iff: "ring_inv b \<Longrightarrow> is_empty b \<longleftrightarrow> rb_size b = 0"
  by (auto simp: ring_inv_def is_empty_def word_unat_eq_iff mod_shift_eq_iff)

lemma is_full_iff:
  assumes "ring_inv b"
  shows "is_full b \<longleftrightarrow> unat (rb_size b) = ring_capacity b"
proof -
  let ?n = "length (rb_cap b)"
  have w: "unat (rb_write b) < ?n" using assms by (simp add: ring_inv_def)
  have "is_full b \<longleftrightarrow> (unat (rb_write b) + 1) mod ?n = unat (rb_read b)"
    using assms w by (simp add: is_full_def cap_size_def ring_inv_def word_unat_eq_iff unat_step_index)
  also have "(unat (rb_write b) + 1) mod ?n = (unat (rb_read b) + (unat (rb_size b) + 1)) mod ?n"
    using assms by (simp add: ring_inv_def mod_Suc_eq)
  also have "\<dots> = unat (rb_read b) \<longleftrightarrow> unat (rb_size b) + 1 = ?n"
  proof (cases "unat (rb_size b) + 1 < ?n")
    case True
    then show ?thesis
      using assms mod_shift_eq_iff [of "unat (rb_read b)" ?n "unat (rb_size b) + 1"]
      by (simp add: ring_inv_def)
  next
    case False
    with assms have "unat (rb_size b) + 1 = ?n" by (simp add: ring_inv_def)
    then show ?thesis using assms by (simp add: ring_inv_def)
  qed
  finally show ?thesis
    using assms by (auto simp: ring_capacity_def ring_inv_def)
qed

section \<open>Operations against the list of pending elements\<close>

lemma ring_inv_fresh: "0 < length xs \<Longrightarrow> length xs < 2 ^ 64 \<Longrightarrow> ring_inv (fresh_buffer xs)"
  by (simp add: ring_inv_def fresh_buffer_def)

lemma ring_contents_fresh [simp]: "ring_contents (fresh_buffer xs) = []"
  by (simp add: ring_contents_def fresh_buffer_def)

lemma ring_capacity_fresh [simp]: "ring_capacity (fresh_buffer xs) = length xs - 1"
  by (simp add: ring_capacity_def fresh_buffer_def)

lemma buf_write_room:
  assumes inv: "ring_inv b" and room: "unat (rb_size b) < ring_capacity b"
  shows "\<exists>b'. buf_write b x = ret b' \<and> ring_inv b' \<and> ring_contents b' = ring_contents b @ [x]
    \<and> ring_capacity b' = ring_capacity b"
proof -
  let ?n = "length (rb_cap b)" and ?r = "unat (rb_read b)" and ?k = "unat (rb_size b)"
  let ?w = "unat (rb_write b)"
  have n: "0 < ?n" "?n < 2 ^ 64" and r: "?r < ?n" and k: "?k + 1 < ?n" and w: "?w = (?r + ?k) mod ?n"
    using assms by (auto simp: ring_inv_def ring_capacity_def)
  have wn: "?w < ?n" using n w by simp
  define b' where "b' = b\<lparr>rb_cap := (rb_cap b)[?w := x],
      rb_write := (rb_write b + 1) mod cap_size b, rb_size := rb_size b + 1\<rparr>"
  have size': "unat (rb_size b + 1) = ?k + 1"
    using n k unat_add_nowrap [of "rb_size b" 1] by simp
  have write': "unat ((rb_write b + 1) mod cap_size b) = (?r + (?k + 1)) mod ?n"
    using unat_step_index [OF wn n(2)] w by (simp add: cap_size_def mod_Suc_eq)
  have inv': "ring_inv b'"
    using n r k size' write' by (simp add: ring_inv_def b'_def)
  have others: "(rb_cap b)[?w := x] ! ((?r + i) mod ?n) = rb_cap b ! ((?r + i) mod ?n)" if "i < ?k" for i
  proof -
    have "(?r + i) mod ?n \<noteq> ?w"
    proof
      assume "(?r + i) mod ?n = ?w"
      then have "((?r + i) + (?k - i)) mod ?n = (?r + i) mod ?n" using w that by simp
      with mod_add_left_eq [of "?r + i" ?n "?k - i"]
      have "((?r + i) mod ?n + (?k - i)) mod ?n = (?r + i) mod ?n" by (rule trans)
      moreover have "(?r + i) mod ?n < ?n" "?k - i < ?n" using n k by simp_all
      ultimately have "?k - i = 0" by (simp only: mod_shift_eq_iff)
      then show False using that by simp
    qed
    then show ?thesis by simp
  qed
  have "ring_contents b' = ring_contents b @ [x]"
    using size' wn w others by (simp add: ring_contents_def b'_def)
  moreover have "buf_write b x = ret b'"
    using is_full_iff [OF inv] room by (simp add: buf_write_def b'_def)
  ultimately show ?thesis
    using inv' by (auto simp: b'_def ring_capacity_def)
qed

lemma buf_write_full:
  "ring_inv b \<Longrightarrow> \<not> unat (rb_size b) < ring_capacity b \<Longrightarrow> buf_write b x = halt full_panic"
  using is_full_iff [of b] by (auto simp: buf_write_def ring_inv_def ring_capacity_def)

lemma buf_read_nonempty:
  assumes inv: "ring_inv b" and c: "ring_contents b = y # ys"
  shows "get_read b = y \<and> (\<exists>b'. buf_read b = ret b' \<and> ring_inv b' \<and> ring_contents b' = ys
    \<and> ring_capacity b' = ring_capacity b)"
proof -
  let ?n = "length (rb_cap b)" and ?r = "unat (rb_read b)" and ?k = "unat (rb_size b)"
  have n: "0 < ?n" "?n < 2 ^ 64" and r: "?r < ?n" and kn: "?k < ?n"
    and w: "unat (rb_write b) = (?r + ?k) mod ?n"
    using inv by (auto simp: ring_inv_def)
  have "rb_size b \<noteq> 0" using c ring_contents_Nil [of b] by auto
  then have k: "0 < ?k" by (simp add: unat_gt_0)
  define b' where "b' = b\<lparr>rb_read := (rb_read b + 1) mod cap_size b, rb_size := rb_size b - 1\<rparr>"
  have size': "unat (rb_size b - 1) = ?k - 1"
    using k by (metis One_nat_def unat_minus_one unat_gt_0)
  have read': "unat ((rb_read b + 1) mod cap_size b) = (?r + 1) mod ?n"
    using unat_step_index [OF r n(2)] by (simp add: cap_size_def)
  have "((?r + 1) mod ?n + (?k - 1)) mod ?n = (?r + ?k) mod ?n"
    using k by (simp only: mod_add_left_eq) simp
  then have inv': "ring_inv b'"
    using n kn size' read' w by (simp add: ring_inv_def b'_def)
  have upt: "[0..<?k] = 0 # map Suc [0..<?k - 1]"
    using k by (cases ?k) (simp_all add: upt_conv_Cons map_Suc_upt)
  have "ring_contents b' = ys \<and> get_read b = y"
    using c r size' read' n
    by (simp add: ring_contents_def b'_def upt get_read_def mod_add_left_eq o_def)
  moreover have "buf_read b = ret b'"
    using is_empty_iff [OF inv] \<open>rb_size b \<noteq> 0\<close> by (simp add: buf_read_def b'_def)
  ultimately show ?thesis
    using inv' by (auto simp: b'_def ring_capacity_def)
qed

lemma buf_read_empty: "ring_inv b \<Longrightarrow> ring_contents b = [] \<Longrightarrow> buf_read b = halt empty_panic"
  using is_empty_iff [of b] by (simp add: buf_read_def ring_contents_Nil)

interpretation ring: bounded_fifo ring_inv ring_contents ring_capacity buf_write buf_read get_read
  full_panic empty_panic
  by unfold_locales
    (auto intro: buf_write_room buf_write_full buf_read_empty dest: buf_read_nonempty)

section \<open>Properties\<close>

text \<open>
  Claim C20. Any sequence of writes and reads on a ring buffer in a valid state
  behaves exactly as on a first-in first-out list of at most \<open>N - 1\<close> elements: the
  values read come out in the order they were written, the buffer stays valid, and the
  kernel panics exactly when the list would overflow or is read while empty.
\<close>

theorem ring_runs_as_fifo:
  assumes "ring_inv b"
  shows "(\<exists>out b'. run_fifo buf_write buf_read get_read b ops = ret (out, b') \<and> ring_inv b' \<and>
            spec_fifo (ring_capacity b) full_panic empty_panic (ring_contents b) ops
              = ret (out, ring_contents b'))
       \<or> (\<exists>e. run_fifo buf_write buf_read get_read b ops = halt e \<and>
            spec_fifo (ring_capacity b) full_panic empty_panic (ring_contents b) ops = halt e)"
  using assms by (rule ring.run_refines_spec)

theorem ring_runs_as_fifo_witness:
  "ring_inv (fresh_buffer [0, 0, 0 :: u8]) \<and>
   (\<exists>b'. run_fifo buf_write buf_read get_read (fresh_buffer [0, 0, 0 :: u8])
      [Put 7, Put 8, Get, Put 9, Get, Get] = ret ([7, 8, 9], b') \<and> ring_inv b' \<and> ring_contents b' = [])"
proof -
  have inv: "ring_inv (fresh_buffer [0, 0, 0 :: u8])" by (rule ring_inv_fresh) simp_all
  show ?thesis
    using inv ring_runs_as_fifo [OF inv, of "[Put 7, Put 8, Get, Put 9, Get, Get]"] by auto
qed

text \<open>
  Claim C29. The keyboard buffer of 255 slots takes 254 scan codes: writing any list
  of at most 254 bytes into a fresh buffer succeeds and leaves exactly these bytes pending
  in order, \<open>get_size\<close> reports their number, and one more write panics once 254 are pending.
\<close>

theorem keyboard_buffer_capacity:
  assumes "length slots = KEYBOARD_SLOTS" and "length xs \<le> 254"
  shows "\<exists>b. run_fifo buf_write buf_read get_read (fresh_buffer slots) (map Put xs) = ret ([], b)
    \<and> ring_contents b = xs \<and> unat (get_size b) = length xs
    \<and> (buf_write b (x :: u8) = halt full_panic \<longleftrightarrow> length xs = 254)"
proof -
  have "ring_inv (fresh_buffer slots)"
    using assms by (intro ring_inv_fresh) (simp_all add: KEYBOARD_SLOTS_def)
  then obtain b where b: "run_fifo buf_write buf_read get_read (fresh_buffer slots) (map Put xs) = ret ([], b)"
    "ring_inv b" "ring_contents b = xs" "ring_capacity b = 254"
    using ring.run_puts [of "fresh_buffer slots" xs] assms by (auto simp: KEYBOARD_SLOTS_def)
  then have len: "unat (rb_size b) = length xs"
    using length_ring_contents [of b] by simp
  have "buf_write b x = halt full_panic \<longleftrightarrow> length xs = 254"
  proof (cases "length xs = 254")
    case True
    then show ?thesis using buf_write_full [of b x] b len by simp
  next
    case False
    then obtain b' where "buf_write b x = ret b'"
      using buf_write_room [of b x] b len assms(2) by auto
    then show ?thesis using False by simp
  qed
  with b len show ?thesis by (auto simp: get_size_def)
qed

theorem keyboard_buffer_capacity_witness:
  "\<exists>b. run_fifo buf_write buf_read get_read (fresh_buffer (replicate 255 0)) (map Put [30, 48, 46]) = ret ([], b)
    \<and> ring_contents b = [30, 48, 46 :: u8] \<and> unat (get_size b) = 3 \<and> buf_write b 1 \<noteq> halt full_panic"
  using keyboard_buffer_capacity [of "replicate 255 0" "[30, 48, 46]" 1]
  by (simp add: KEYBOARD_SLOTS_def numeral_3_eq_3)

end
