(* ===== verification/Single_Deque.thy ===== *)
theory Single_Deque
  imports Kernel_Prelude
begin

text \<open>
  \<^verbatim>\<open>kstd::SingleDeque<T, Hook>\<close> of \<^verbatim>\<open>src/src/include/std/single_deque.hpp\<close>: an
  intrusive singly linked list with head and tail pointers. The hook that a deque is
  instantiated with is a field of every object, so it is modelled as one function from
  object addresses to successor addresses; two deques over the same hook (the ready and
  the waiting queue of the scheduler) share that function.
\<close>

section \<open>The data structure\<close>

type_synonym hooks = "ptr \<Rightarrow> ptr"

record SingleDeque =
  dq_head :: ptr
  dq_tail :: ptr

record Iterator =
  it_ptr :: ptr
  it_next :: ptr

definition Iterator_start :: "hooks \<Rightarrow> ptr \<Rightarrow> Iterator" where
  "Iterator_start nx start = \<lparr>it_ptr = start, it_next = (if start \<noteq> null then nx start else null)\<rparr>"

definition Iterator_inc :: "hooks \<Rightarrow> Iterator \<Rightarrow> Iterator" where
  "Iterator_inc nx it =
     (let it1 = it\<lparr>it_ptr := it_next it\<rparr>
      in if it_ptr it1 \<noteq> null then it1\<lparr>it_next := nx (it_ptr it1)\<rparr> else it1)"

definition begin_it :: "hooks \<Rightarrow> SingleDeque \<Rightarrow> Iterator" where
  "begin_it nx d = Iterator_start nx (dq_head d)"

partial_function (option) size_loop :: "hooks \<Rightarrow> Iterator \<Rightarrow> u64 \<Rightarrow> u64 exec" where
  "size_loop nx it cap =
     (if it_ptr it = null then ret cap else size_loop nx (Iterator_inc nx it) (cap + 1))"

definition deque_size :: "hooks \<Rightarrow> SingleDeque \<Rightarrow> u64 exec" where
  "deque_size nx d = (if dq_head d = null then ret 0 else size_loop nx (begin_it nx d) 0)"

definition deque_empty :: "SingleDeque \<Rightarrow> bool" where
  "deque_empty d \<longleftrightarrow> dq_head d = null \<and> dq_tail d = null"

definition clear_all :: "SingleDeque \<Rightarrow> SingleDeque" where
  "clear_all d = d\<lparr>dq_head := null, dq_tail := null\<rparr>"

definition push_head :: "hooks \<Rightarrow> SingleDeque \<Rightarrow> ptr \<Rightarrow> hooks \<times> SingleDeque" where
  "push_head nx d value =
     (if dq_head d = null then (nx(value := null), d\<lparr>dq_tail := value, dq_head := value\<rparr>)
      else (nx(value := dq_head d), d\<lparr>dq_head := value\<rparr>))"

definition push_tail :: "hooks \<Rightarrow> SingleDeque \<Rightarrow> ptr \<Rightarrow> hooks \<times> SingleDeque" where
  "push_tail nx d value =
     (let nx1 = nx(value := null)
      in if dq_tail d = null then (nx1, d\<lparr>dq_head := value, dq_tail := value\<rparr>)
         else (nx1(dq_tail d := value), d\<lparr>dq_tail := value\<rparr>))"

definition pop_head :: "hooks \<Rightarrow> SingleDeque \<Rightarrow> ptr \<times> SingleDeque" where
  "pop_head nx d =
     (if dq_head d = null then (null, d)
      else let head' = nx (dq_head d); d1 = d\<lparr>dq_head := head'\<rparr>
           in (dq_head d, if head' = null then d1\<lparr>dq_tail := null\<rparr> else d1))"

text \<open>The walk of \<open>pop_tail\<close> to the node before the tail; it reads through \<open>new_tail\<close>.\<close>

partial_function (option) pop_tail_walk :: "hooks \<Rightarrow> ptr \<Rightarrow> ptr \<Rightarrow> ptr exec" where
  "pop_tail_walk nx tail new_tail =
     (if new_tail = null then halt NullDeref
      else if nx new_tail = tail then ret new_tail
      else pop_tail_walk nx tail (nx new_tail))"

definition pop_tail :: "hooks \<Rightarrow> SingleDeque \<Rightarrow> (ptr \<times> hooks \<times> SingleDeque) exec" where
  "pop_tail nx d =
     (if dq_tail d = null then ret (null, nx, d)
      else if dq_head d = dq_tail d
      then ret (dq_tail d, nx, d\<lparr>dq_head := null, dq_tail := null\<rparr>)
      else ebind (pop_tail_walk nx (dq_tail d) (dq_head d)) (\<lambda>new_tail.
             ret (dq_tail d, nx(new_tail := null), d\<lparr>dq_tail := new_tail\<rparr>)))"

text \<open>The walk of \<open>remove\<close>: the predecessor of \<open>value\<close>, or null at the end of the list.\<close>

partial_function (option) remove_walk :: "hooks \<Rightarrow> ptr \<Rightarrow> ptr \<Rightarrow> ptr exec" where
  "remove_walk nx value prev_value =
     (if nx prev_value = value then ret prev_value
      else if nx prev_value = null then ret null
      else remove_walk nx value (nx prev_value))"

definition remove_elem :: "hooks \<Rightarrow> SingleDeque \<Rightarrow> ptr \<Rightarrow> (hooks \<times> SingleDeque) exec" where
  "remove_elem nx d value =
     (if value = null \<or> dq_head d = null then ret (nx, d)
      else if value = dq_tail d then ebind (pop_tail nx d) (\<lambda>(_, nx', d'). ret (nx', d'))
      else if value = dq_head d then ret (nx, snd (pop_head nx d))
      else ebind (remove_walk nx value (dq_head d)) (\<lambda>prev_value.
             if prev_value = null then ret (nx, d)
             else ret (nx(prev_value := nx value), d)))"

definition empty_deque :: SingleDeque where
  "empty_deque = \<lparr>dq_head = null, dq_tail = null\<rparr>"

section \<open>Abstraction to lists\<close>

text \<open>\<open>chain nx p xs\<close>: following the hook from \<open>p\<close> visits exactly \<open>xs\<close> and ends at null.\<close>

fun chain :: "hooks \<Rightarrow> ptr \<Rightarrow> ptr list \<Rightarrow> bool" where
  "chain nx p [] \<longleftrightarrow> p = null"
| "chain nx p (x # xs) \<longleftrightarrow> p = x \<and> x \<noteq> null \<and> chain nx (nx x) xs"

definition deque_rep :: "hooks \<Rightarrow> SingleDeque \<Rightarrow> ptr list \<Rightarrow> bool" where
  "deque_rep nx d xs \<longleftrightarrow> chain nx (dq_head d) xs
     \<and> dq_tail d = (if xs = [] then null else last xs)"

lemma chain_null [simp]: "chain nx null xs \<longleftrightarrow> xs = []"
  by (cases xs) auto

lemma chain_nonnull: "chain nx p xs \<Longrightarrow> null \<notin> set xs"
  by (induction xs arbitrary: p) auto

lemma chain_unique: "chain nx p xs \<Longrightarrow> chain nx p ys \<Longrightarrow> xs = ys"
proof (induction xs arbitrary: p ys)
  case (Cons x xs)
  then show ?case by (cases ys) auto
qed simp

lemma chain_suffix: "chain nx p (xs @ y # ys) \<Longrightarrow> chain nx y (y # ys)"
  by (induction xs arbitrary: p) auto

lemma chain_next: "chain nx p (xs @ y # z # ys) \<Longrightarrow> nx y = z"
  by (induction xs arbitrary: p) auto

lemma chain_next_last: "chain nx p (xs @ [y]) \<Longrightarrow> nx y = null"
  by (induction xs arbitrary: p) auto

lemma chain_distinct: "chain nx p xs \<Longrightarrow> distinct xs"
proof (induction xs arbitrary: p)
  case (Cons x xs)
  have "x \<notin> set xs"
  proof
    assume "x \<in> set xs"
    then obtain as bs where xs: "xs = as @ x # bs" by (auto simp: in_set_conv_decomp)
    with Cons.prems have "chain nx x (x # bs)" and "chain nx x (x # xs)"
      using chain_suffix [of nx p "x # as" x bs] by auto
    then have "x # bs = x # xs" by (rule chain_unique)
    with xs show False by simp
  qed
  with Cons show ?case by auto
qed simp

text \<open>Frame rules: writing the hook of an object outside the list.\<close>

lemma chain_upd [simp]: "v \<notin> set xs \<Longrightarrow> chain (nx(v := w)) p xs \<longleftrightarrow> chain nx p xs"
  by (induction xs arbitrary: p) auto

lemma chain_cong: "(\<And>x. x \<in> set xs \<Longrightarrow> nx x = nx' x) \<Longrightarrow> chain nx p xs \<longleftrightarrow> chain nx' p xs"
  by (induction xs arbitrary: p) auto

lemma deque_rep_cong:
  "(\<And>x. x \<in> set xs \<Longrightarrow> nx x = nx' x) \<Longrightarrow> deque_rep nx d xs \<longleftrightarrow> deque_rep nx' d xs"
  unfolding deque_rep_def by (metis chain_cong)

lemma chain_snoc:
  "chain nx p xs \<Longrightarrow> v \<noteq> null \<Longrightarrow> v \<notin> set xs \<Longrightarrow>
    chain (if xs = [] then nx(v := null) else (nx(v := null))(last xs := v))
      (if xs = [] then v else p) (xs @ [v])"
proof (induction xs arbitrary: p)
  case (Cons x xs)
  then have d: "x \<notin> set xs" using chain_distinct [OF Cons.prems(1)] by simp
  show ?case
  proof (cases "xs = []")
    case True
    with Cons.prems show ?thesis by auto
  next
    case False
    with Cons.IH [of "nx x"] Cons.prems d show ?thesis by auto
  qed
qed auto

lemma chain_butlast:
  "chain nx p (xs @ [y, z]) \<Longrightarrow> chain (nx(y := null)) p (xs @ [y])"
proof (induction xs arbitrary: p)
  case (Cons x xs)
  then show ?case using chain_distinct [OF Cons.prems] by auto
qed auto

lemma chain_splice:
  "chain nx p (xs @ y # z # ys) \<Longrightarrow> chain (nx(y := nx z)) p (xs @ y # ys)"
proof (induction xs arbitrary: p)
  case Nil
  then have "y \<notin> set ys" using chain_distinct [OF Nil] by auto
  with Nil have "chain (nx(y := nx z)) (nx z) ys" by simp
  with Nil show ?case by (simp del: fun_upd_apply add: fun_upd_same)
next
  case (Cons x xs)
  then show ?case using chain_distinct [OF Cons.prems] by auto
qed

section \<open>The pointer walks end\<close>

lemma pop_tail_walk_chain:
  "chain nx p (xs @ [y, z]) \<Longrightarrow> pop_tail_walk nx z p = ret y"
proof (induction xs arbitrary: p)
  case Nil
  then show ?case by (simp add: pop_tail_walk.simps)
next
  case (Cons x xs)
  have "nx x \<noteq> z"
  proof
    assume "nx x = z"
    then have "chain nx z (xs @ [y, z])" using Cons.prems by simp
    with chain_distinct [OF this] show False by (cases xs) auto
  qed
  with Cons show ?case by (subst pop_tail_walk.simps) simp
qed

lemma remove_walk_found:
  "chain nx p (xs @ y # v # ys) \<Longrightarrow> remove_walk nx v p = ret y"
proof (induction xs arbitrary: p)
  case Nil
  then show ?case by (simp add: remove_walk.simps)
next
  case (Cons x xs)
  have *: "chain nx (nx x) (xs @ y # v # ys)" using Cons.prems by simp
  have "nx x \<noteq> v"
  proof
    assume "nx x = v"
    then have "chain nx v (xs @ y # v # ys)" using * by simp
    with chain_distinct [OF this] show False by (cases xs) auto
  qed
  moreover have "nx x \<noteq> null" using * by (cases xs) auto
  ultimately show ?case using Cons by (subst remove_walk.simps) simp
qed

lemma remove_walk_missing:
  "chain nx p (x # xs) \<Longrightarrow> v \<noteq> null \<Longrightarrow> v \<notin> set (x # xs) \<Longrightarrow> remove_walk nx v p = ret null"
proof (induction xs arbitrary: p x)
  case Nil
  then show ?case by (simp add: remove_walk.simps)
next
  case (Cons y ys)
  then have "remove_walk nx v (nx x) = ret null" by (intro Cons.IH [of "nx x" y]) auto
  with Cons.prems show ?case by (subst remove_walk.simps) auto
qed

definition it_at :: "hooks \<Rightarrow> Iterator \<Rightarrow> ptr list \<Rightarrow> bool" where
  "it_at nx it xs \<longleftrightarrow> chain nx (it_ptr it) xs \<and> (xs \<noteq> [] \<longrightarrow> it_next it = nx (it_ptr it))"

lemma it_at_begin: "deque_rep nx d xs \<Longrightarrow> it_at nx (begin_it nx d) xs"
  by (cases xs) (auto simp: deque_rep_def it_at_def begin_it_def Iterator_start_def)

lemma it_at_inc: "it_at nx it (x # xs) \<Longrightarrow> it_at nx (Iterator_inc nx it) xs"
  by (cases xs) (auto simp: it_at_def Iterator_inc_def Let_def)

lemma size_loop_chain: "it_at nx it xs \<Longrightarrow> size_loop nx it c = ret (c + of_nat (length xs))"
proof (induction xs arbitrary: it c)
  case Nil
  then show ?case by (simp add: it_at_def size_loop.simps)
next
  case (Cons x xs)
  then have "size_loop nx (Iterator_inc nx it) (c + 1) = ret (c + 1 + of_nat (length xs))"
    by (intro Cons.IH it_at_inc)
  moreover have "it_ptr it \<noteq> null" using Cons.prems by (auto simp: it_at_def)
  ultimately show ?case by (simp add: size_loop.simps [of nx it] add.assoc)
qed

section \<open>Operations against the list\<close>

lemma deque_rep_distinct: "deque_rep nx d xs \<Longrightarrow> distinct xs"
  by (auto simp: deque_rep_def dest: chain_distinct)

lemma deque_rep_nonnull: "deque_rep nx d xs \<Longrightarrow> null \<notin> set xs"
  by (auto simp: deque_rep_def dest: chain_nonnull)

lemma deque_rep_head: "deque_rep nx d xs \<Longrightarrow> dq_head d = (if xs = [] then null else hd xs)"
  by (cases xs) (auto simp: deque_rep_def)

lemma deque_rep_tail: "deque_rep nx d xs \<Longrightarrow> dq_tail d = (if xs = [] then null else last xs)"
  by (simp add: deque_rep_def)

lemma deque_rep_Nil [simp]: "deque_rep nx d [] \<longleftrightarrow> d = empty_deque"
  by (cases d) (auto simp: deque_rep_def empty_deque_def)

lemma deque_empty_iff: "deque_rep nx d xs \<Longrightarrow> deque_empty d \<longleftrightarrow> xs = []"
  by (cases xs) (auto simp: deque_rep_def deque_empty_def empty_deque_def)

lemma deque_size_rep:
  assumes "deque_rep nx d xs"
  shows "deque_size nx d = ret (of_nat (length xs))"
  using assms size_loop_chain [OF it_at_begin [OF assms], of 0]
  by (cases xs) (auto simp: deque_size_def empty_deque_def deque_rep_def)

lemma push_tail_rep:
  assumes rep: "deque_rep nx d xs" and v: "v \<noteq> null" "v \<notin> set xs"
  shows "deque_rep (fst (push_tail nx d v)) (snd (push_tail nx d v)) (xs @ [v])"
proof (cases "xs = []")
  case True
  then show ?thesis using rep v by (simp add: push_tail_def Let_def empty_deque_def deque_rep_def)
next
  case False
  then have t: "dq_tail d = last xs" and nn: "dq_tail d \<noteq> null"
    using rep deque_rep_nonnull [OF rep] last_in_set [OF False] by (auto simp: deque_rep_def simp del: last_in_set)
  show ?thesis
    using chain_snoc [of nx "dq_head d" xs v] rep v False nn t
    by (simp add: push_tail_def Let_def deque_rep_def)
qed

lemma push_tail_frame:
  "p \<noteq> v \<Longrightarrow> p \<noteq> dq_tail d \<Longrightarrow> fst (push_tail nx d v) p = nx p"
  by (simp add: push_tail_def Let_def)

lemma push_head_rep:
  assumes "deque_rep nx d xs" and "v \<noteq> null" "v \<notin> set xs"
  shows "deque_rep (fst (push_head nx d v)) (snd (push_head nx d v)) (v # xs)"
  using assms by (cases xs) (auto simp: push_head_def deque_rep_def empty_deque_def)

lemma pop_head_rep:
  assumes "deque_rep nx d (x # xs)"
  shows "fst (pop_head nx d) = x" and "deque_rep nx (snd (pop_head nx d)) xs"
  using assms by (cases xs, auto simp: pop_head_def deque_rep_def Let_def empty_deque_def)+

lemma pop_tail_rep:
  assumes rep: "deque_rep nx d (xs @ [z])"
  shows "\<exists>nx' d'. pop_tail nx d = ret (z, nx', d') \<and> deque_rep nx' d' xs
    \<and> (\<forall>p. p \<notin> set xs \<longrightarrow> nx' p = nx p)"
proof (cases xs rule: rev_cases)
  case Nil
  then show ?thesis
    using rep by (auto simp: pop_tail_def deque_rep_def empty_deque_def)
next
  case (snoc ys y)
  have ne: "dq_head d \<noteq> dq_tail d"
    using deque_rep_distinct [OF rep] deque_rep_head [OF rep] deque_rep_tail [OF rep] snoc
    by (cases ys) auto
  have "pop_tail_walk nx z (dq_head d) = ret y"
    using rep snoc by (intro pop_tail_walk_chain [where xs = ys]) (simp add: deque_rep_def)
  moreover have "chain (nx(y := null)) (dq_head d) (ys @ [y])"
    using rep snoc by (intro chain_butlast [where z = z]) (simp add: deque_rep_def)
  moreover have "z \<noteq> null" using deque_rep_nonnull [OF rep] by auto
  ultimately show ?thesis
    using ne snoc rep by (auto simp: pop_tail_def deque_rep_def)
qed

lemma remove_elem_rep:
  assumes rep: "deque_rep nx d xs" and v: "v \<noteq> null"
  shows "\<exists>nx' d'. remove_elem nx d v = ret (nx', d') \<and> deque_rep nx' d' (remove1 v xs)
    \<and> (\<forall>p. p \<notin> set xs \<longrightarrow> nx' p = nx p)"
proof (cases "v \<in> set xs")
  case True
  then obtain as bs where xs: "xs = as @ v # bs" and v_as: "v \<notin> set as"
    by (meson split_list_first)
  have r1: "remove1 v xs = as @ bs" using xs v_as by (simp add: remove1_append)
  have h: "dq_head d \<noteq> null"
    using deque_rep_head [OF rep] deque_rep_nonnull [OF rep] xs by (cases as) auto
  have dist: "distinct xs" by (rule deque_rep_distinct [OF rep])
  show ?thesis
  proof (cases bs rule: rev_cases)
    case Nil
    with rep xs have rep': "deque_rep nx d (as @ [v])" by simp
    then have "v = dq_tail d" by (simp add: deque_rep_def)
    moreover obtain nx' d' where "pop_tail nx d = ret (v, nx', d')" "deque_rep nx' d' as"
      "\<forall>p. p \<notin> set as \<longrightarrow> nx' p = nx p"
      using pop_tail_rep [OF rep'] by blast
    ultimately show ?thesis
      using v h r1 Nil xs by (auto simp: remove_elem_def)
  next
    case (snoc cs c)
    then have nt: "v \<noteq> dq_tail d"
      using rep xs dist by (auto simp: deque_rep_def)
    show ?thesis
    proof (cases as rule: rev_cases)
      case Nil
      with rep xs have rep': "deque_rep nx d (v # bs)" by simp
      then have "v = dq_head d" by (simp add: deque_rep_def)
      then show ?thesis
        using v nt r1 Nil pop_head_rep(2) [OF rep'] by (auto simp: remove_elem_def)
    next
      case (snoc as' a)
      then have nh: "v \<noteq> dq_head d"
        using deque_rep_head [OF rep] xs dist by (cases as') auto
      have ch: "chain nx (dq_head d) (as' @ a # v # bs)"
        using rep xs snoc by (simp add: deque_rep_def)
      have "remove_walk nx v (dq_head d) = ret a" by (rule remove_walk_found [OF ch])
      moreover have "a \<noteq> null" using chain_nonnull [OF ch] by auto
      moreover have "deque_rep (nx(a := nx v)) d (as @ bs)"
        using chain_splice [OF ch] rep xs snoc \<open>bs = cs @ [c]\<close> by (simp add: deque_rep_def)
      ultimately show ?thesis
        using v h nt nh r1 xs snoc by (auto simp: remove_elem_def)
    qed
  qed
next
  case False
  then have r1: "remove1 v xs = xs" by (simp add: remove1_idem)
  show ?thesis
  proof (cases xs)
    case Nil
    then show ?thesis using rep by (auto simp: remove_elem_def empty_deque_def)
  next
    case (Cons x xs')
    have "remove_walk nx v (dq_head d) = ret null"
      using rep Cons False v by (intro remove_walk_missing [of nx _ x xs']) (auto simp: deque_rep_def)
    moreover have "v \<noteq> dq_tail d" "v \<noteq> dq_head d" "dq_head d \<noteq> null"
      using rep Cons False last_in_set [of xs] by (auto simp: deque_rep_def)
    ultimately show ?thesis using v rep r1 by (auto simp: remove_elem_def)
  qed
qed

text \<open>Another deque over the same hook, linking other objects, is not disturbed.\<close>

lemma push_tail_other:
  assumes "deque_rep nx d xs" and "deque_rep nx e ys" and "set xs \<inter> set ys = {}" and "v \<notin> set ys"
  shows "deque_rep (fst (push_tail nx d v)) e ys"
proof -
  have "fst (push_tail nx d v) p = nx p" if "p \<in> set ys" for p
  proof (rule push_tail_frame)
    show "p \<noteq> v" using that assms(4) by blast
    show "p \<noteq> dq_tail d"
      using that assms(3) deque_rep_nonnull [OF assms(2)] last_in_set [of xs]
      by (auto simp: deque_rep_tail [OF assms(1)] simp del: last_in_set split: if_splits)
  qed
  then show ?thesis using assms(2) deque_rep_cong [of ys nx "fst (push_tail nx d v)" e] by simp
qed

lemma remove_elem_both:
  assumes "deque_rep nx d xs" and "deque_rep nx e ys" and "set xs \<inter> set ys = {}" and "v \<noteq> null"
  shows "\<exists>nx' d'. remove_elem nx d v = ret (nx', d') \<and> deque_rep nx' d' (remove1 v xs) \<and> deque_rep nx' e ys"
proof -
  obtain nx' d' where r: "remove_elem nx d v = ret (nx', d')" "deque_rep nx' d' (remove1 v xs)"
    "\<forall>p. p \<notin> set xs \<longrightarrow> nx' p = nx p"
    using remove_elem_rep [OF assms(1,4)] by blast
  then have "nx p = nx' p" if "p \<in> set ys" for p
    using assms(3) that by (auto simp: disjoint_iff)
  then show ?thesis using r(1,2) assms(2) deque_rep_cong [of ys nx nx' e] by blast
qed

section \<open>The queue contract\<close>

text \<open>
  What the scheduler relies on: a queue of objects linked through a store of hooks, to
  which an object outside it can be appended and from which the front can be taken.
  One round of a round-robin scheduler takes the front and appends it again.
\<close>

definition cycle_head ::
  "('h \<Rightarrow> 'q \<Rightarrow> 'a \<Rightarrow> 'h \<times> 'q) \<Rightarrow> ('h \<Rightarrow> 'q \<Rightarrow> 'a \<times> 'q) \<Rightarrow> 'h \<times> 'q \<Rightarrow> 'h \<times> 'q" where
  "cycle_head push pop hq = (let (v, q') = pop (fst hq) (snd hq) in push (fst hq) q' v)"

locale linked_queue =
  fixes rep :: "'h \<Rightarrow> 'q \<Rightarrow> 'a list \<Rightarrow> bool"
    and valid :: "'a \<Rightarrow> bool"
    and push :: "'h \<Rightarrow> 'q \<Rightarrow> 'a \<Rightarrow> 'h \<times> 'q"
    and pop :: "'h \<Rightarrow> 'q \<Rightarrow> 'a \<times> 'q"
  assumes rep_push: "rep h q xs \<Longrightarrow> valid v \<Longrightarrow> v \<notin> set xs \<Longrightarrow>
      rep (fst (push h q v)) (snd (push h q v)) (xs @ [v])"
    and pop_front: "rep h q (x # xs) \<Longrightarrow> fst (pop h q) = x"
    and rep_pop: "rep h q (x # xs) \<Longrightarrow> rep h (snd (pop h q)) xs"
    and rep_distinct: "rep h q xs \<Longrightarrow> distinct xs"
    and rep_valid: "rep h q xs \<Longrightarrow> x \<in> set xs \<Longrightarrow> valid x"
begin

lemma rep_cycle:
  assumes "rep h q xs"
    and "xs \<noteq> []"
  shows "rep (fst (cycle_head push pop (h, q))) (snd (cycle_head push pop (h, q))) (rotate1 xs)"
proof -
  obtain x ys where xs: "xs = x # ys" using assms(2) by (cases xs) auto
  have "fst (pop h q) = x" and "rep h (snd (pop h q)) ys"
    using assms(1) xs pop_front rep_pop by auto
  moreover have "x \<notin> set ys" "valid x"
    using rep_distinct [OF assms(1)] rep_valid [OF assms(1)] xs by auto
  ultimately show ?thesis
    using rep_push [of h "snd (pop h q)" ys x] xs by (simp add: cycle_head_def case_prod_beta)
qed

text \<open>After \<open>n\<close> rounds the queue is rotated by \<open>n\<close>: nothing is lost, duplicated or overtaken.\<close>

lemma rep_cycles:
  assumes "rep h q xs" and "xs \<noteq> []"
  shows "rep (fst ((cycle_head push pop ^^ n) (h, q))) (snd ((cycle_head push pop ^^ n) (h, q))) (rotate n xs)"
proof (induction n)
  case 0
  then show ?case using assms by simp
next
  case (Suc n)
  then have "rep (fst (cycle_head push pop ((cycle_head push pop ^^ n) (h, q))))
      (snd (cycle_head push pop ((cycle_head push pop ^^ n) (h, q)))) (rotate1 (rotate n xs))"
    using rep_cycle [OF Suc.IH] assms(2) by simp
  then show ?case by simp
qed

lemma front_after_cycles:
  assumes "rep h q xs" and "n < length xs"
  shows "fst (pop (fst ((cycle_head push pop ^^ n) (h, q))) (snd ((cycle_head push pop ^^ n) (h, q)))) = xs ! n"
proof -
  have "xs \<noteq> []" using assms(2) by auto
  then have "rep (fst ((cycle_head push pop ^^ n) (h, q))) (snd ((cycle_head push pop ^^ n) (h, q)))
      (xs ! n # tl (rotate n xs))"
    using rep_cycles [OF assms(1), of n] assms(2) hd_rotate_conv_nth [of xs n]
    by (metis hd_Cons_tl length_rotate length_0_conv mod_less)
  then show ?thesis by (rule pop_front)
qed

end

interpretation thread_queue: linked_queue deque_rep "\<lambda>p. p \<noteq> null" push_tail pop_head
  by unfold_locales
    (auto simp: push_tail_rep pop_head_rep intro: deque_rep_distinct dest: deque_rep_nonnull)

section \<open>Properties\<close>



text \<open>
  Claim C22. Two deques over the same hook that link disjoint objects do not disturb
  each other: appending an object to one of them, or removing any object from it, leaves the
  other linking exactly the same objects in the same order.
\<close>

theorem deques_sharing_a_hook_are_independent:
  assumes "deque_rep nx d xs" and "deque_rep nx e ys" and "set xs \<inter> set ys = {}"
    and "v \<noteq> null" and "v \<notin> set ys"
  shows "deque_rep (fst (push_tail nx d v)) e ys
    \<and> (\<exists>nx' d'. remove_elem nx d v = ret (nx', d') \<and> deque_rep nx' e ys)"
  using push_tail_other [OF assms(1-3,5)] remove_elem_both [OF assms(1-4)] by blast

theorem deques_sharing_a_hook_are_independent_witness:
  "deque_rep (fst (push_tail ((\<lambda>_. 0)(1 := 2, 4 := 5)) \<lparr>dq_head = 1, dq_tail = 2\<rparr> 3))
     \<lparr>dq_head = 4, dq_tail = 5\<rparr> [4, 5]"
proof -
  let ?nx = "(\<lambda>_. 0)(1 := 2, 4 := 5) :: hooks" and ?d = "\<lparr>dq_head = 1, dq_tail = 2\<rparr>"
  have a: "deque_rep ?nx ?d [1, 2]" and b: "deque_rep ?nx \<lparr>dq_head = 4, dq_tail = 5\<rparr> [4, 5]"
    by (simp_all add: deque_rep_def)
  show ?thesis
    using deques_sharing_a_hook_are_independent [OF a b, of 3] by simp
qed

text \<open>
  Taking the front of a queue and appending it again is fair: of a queue
  that links \<open>xs\<close>, the object at the front after \<open>n\<close> such rounds is the \<open>n\<close>-th of \<open>xs\<close>, and
  after as many rounds as there are objects the queue links \<open>xs\<close> again.
\<close>

theorem cycling_a_deque_is_fair:
  assumes "deque_rep nx d xs" and "n < length xs"
  shows "(case (cycle_head push_tail pop_head ^^ n) (nx, d) of (nx', d') \<Rightarrow> fst (pop_head nx' d') = xs ! n)
    \<and> (case (cycle_head push_tail pop_head ^^ length xs) (nx, d) of (nx', d') \<Rightarrow> deque_rep nx' d' xs)"
proof
  show "case (cycle_head push_tail pop_head ^^ n) (nx, d) of (nx', d') \<Rightarrow> fst (pop_head nx' d') = xs ! n"
    using thread_queue.front_after_cycles [OF assms] by (simp add: case_prod_beta)
  have "xs \<noteq> []" using assms(2) by auto
  then show "case (cycle_head push_tail pop_head ^^ length xs) (nx, d) of (nx', d') \<Rightarrow> deque_rep nx' d' xs"
    using thread_queue.rep_cycles [OF assms(1), of "length xs"] by (simp add: case_prod_beta)
qed

theorem cycling_a_deque_is_fair_witness:
  "case (cycle_head push_tail pop_head ^^ 3) ((\<lambda>_. 0)(1 := 2, 2 := 3), \<lparr>dq_head = 1, dq_tail = 3\<rparr>) of
     (nx', d') \<Rightarrow> deque_rep nx' d' [1, 2, 3]"
proof -
  have rep: "deque_rep ((\<lambda>_. 0)(1 := 2, 2 := 3)) \<lparr>dq_head = 1, dq_tail = 3\<rparr> [1, 2, 3]"
    by (simp add: deque_rep_def)
  show ?thesis
    using cycling_a_deque_is_fair [OF rep, of 0] by (simp add: numeral_3_eq_3)
qed

end
