(* ===== verification/Spin_Lock.thy ===== *)
theory Spin_Lock
  imports Kernel_Prelude
begin

text \<open>
  The locks of \<^verbatim>\<open>src/src/include/util/spinlocks.hpp\<close> and the interrupt guard of
  \<^verbatim>\<open>src/src/include/util/irq_gaurd.hpp\<close>: \<open>SpinLock\<close>, the interrupt-masking
  \<open>IrqSpinLock\<close> and \<open>IrqRAIGaurd\<close>, as functions on the lock and the flags register. A
  second part runs the atomic actions of \<open>IrqSpinLock\<close> on any number of processors, as a
  step relation, and shows mutual exclusion and that each processor gets its own
  interrupt flag back.
\<close>

section \<open>The interrupt flag\<close>

definition IF_FLAG :: u64 where "IF_FLAG = push_bit 9 1"

definition cli :: "u64 \<Rightarrow> u64" where "cli rflags = rflags AND NOT IF_FLAG"

definition sti :: "u64 \<Rightarrow> u64" where "sti rflags = rflags OR IF_FLAG"

abbreviation interrupts_on :: "u64 \<Rightarrow> bool" where
  "interrupts_on rflags \<equiv> bit rflags 9"

lemma bit_IF_FLAG [bit_simps]: "bit IF_FLAG n \<longleftrightarrow> n = 9"
  unfolding IF_FLAG_def bit_push_bit_iff bit_1_iff by auto

lemma IF_FLAG_test: "rflags AND IF_FLAG \<noteq> 0 \<longleftrightarrow> interrupts_on rflags"
proof -
  have "rflags AND IF_FLAG = (if interrupts_on rflags then IF_FLAG else 0)"
    by (rule bit_word_eqI) (auto simp: bit_simps)
  moreover have "IF_FLAG \<noteq> 0" by (simp add: IF_FLAG_def)
  ultimately show ?thesis by simp
qed

lemma interrupts_on_cli [simp]: "\<not> interrupts_on (cli rflags)"
  by (simp add: cli_def bit_simps)

lemma interrupts_on_sti [simp]: "interrupts_on (sti rflags)"
  by (simp add: sti_def bit_simps)

lemma cli_sti_restore [simp]: "interrupts_on rflags \<Longrightarrow> sti (cli rflags) = rflags"
  by (rule bit_word_eqI) (auto simp: bit_simps cli_def sti_def)

lemma cli_off [simp]: "\<not> interrupts_on rflags \<Longrightarrow> cli rflags = rflags"
  by (rule bit_word_eqI) (auto simp: bit_simps cli_def)

section \<open>SpinLock\<close>

record SpinLock =
  data :: bool

definition fresh_lock :: SpinLock where "fresh_lock = \<lparr>data = False\<rparr>"

text \<open>\<open>std::atomic<bool>::exchange\<close>: the old value, and the lock with the new one.\<close>

definition exchange :: "bool \<Rightarrow> SpinLock \<Rightarrow> bool \<times> SpinLock" where
  "exchange b l = (data l, l\<lparr>data := b\<rparr>)"

partial_function (option) spin_acquire :: "SpinLock \<Rightarrow> SpinLock exec" where
  "spin_acquire l = (let (old, l') = exchange True l in if old then spin_acquire l' else ret l')"

definition spin_release :: "SpinLock \<Rightarrow> SpinLock" where
  "spin_release l = l\<lparr>data := False\<rparr>"

definition spin_lock :: "SpinLock \<Rightarrow> SpinLock exec" where
  "spin_lock l = spin_acquire l"

definition try_lock :: "SpinLock \<Rightarrow> bool \<times> SpinLock" where
  "try_lock l = (let (old, l') = exchange True l in (\<not> old, l'))"

definition spin_unlock :: "SpinLock \<Rightarrow> SpinLock" where
  "spin_unlock l = spin_release l"

lemma spin_acquire_free: "\<not> data l \<Longrightarrow> spin_acquire l = ret (l\<lparr>data := True\<rparr>)"
  by (simp add: spin_acquire.simps exchange_def)

text \<open>With nobody else running to release it, spinning on a held lock never ends.\<close>

lemma spin_acquire_held:
  assumes "data l"
  shows "spin_acquire l = diverges"
proof -
  have "\<not> data l" if "spin_acquire l = Some r" for l r
    using that
    by (rule spin_acquire.raw_induct [rotated])
      (fastforce simp: exchange_def split: if_splits)
  with assms show ?thesis by (cases "spin_acquire l") auto
qed

section \<open>IrqSpinLock\<close>

record IrqSpinLock =
  lock_flags :: u64
  inner :: SpinLock

text \<open>Both operations take and return the processor's flags register beside the lock.\<close>

definition irq_acquire :: "u64 \<Rightarrow> IrqSpinLock \<Rightarrow> (u64 \<times> IrqSpinLock) exec" where
  "irq_acquire rflags l =
     (let saved_flags = rflags; rflags = cli rflags in
      ebind (spin_acquire (inner l)) (\<lambda>i. ret (rflags, l\<lparr>inner := i, lock_flags := saved_flags\<rparr>)))"

definition irq_release :: "u64 \<Rightarrow> IrqSpinLock \<Rightarrow> u64 \<times> IrqSpinLock" where
  "irq_release rflags l =
     (let saved_flags = lock_flags l; l = l\<lparr>inner := spin_release (inner l)\<rparr> in
      (if saved_flags AND IF_FLAG \<noteq> 0 then sti rflags else rflags, l))"

abbreviation lock_held :: "IrqSpinLock \<Rightarrow> bool" where
  "lock_held l \<equiv> data (inner l)"

lemma irq_acquire_free:
  "\<not> lock_held l \<Longrightarrow>
    irq_acquire rflags l = ret (cli rflags, l\<lparr>inner := (inner l)\<lparr>data := True\<rparr>, lock_flags := rflags\<rparr>)"
  by (simp add: irq_acquire_def spin_acquire_free)

lemma irq_acquire_held: "lock_held l \<Longrightarrow> irq_acquire rflags l = diverges"
  by (simp add: irq_acquire_def spin_acquire_held)

lemma irq_release_flags:
  "fst (irq_release (cli rflags) (l\<lparr>lock_flags := rflags\<rparr>)) = rflags"
  by (simp add: irq_release_def IF_FLAG_test)

section \<open>IrqRAIGaurd\<close>

text \<open>The constructor saves the flags and masks interrupts; the destructor unmasks them if they were on.\<close>

definition IrqRAIGaurd_enter :: "u64 \<Rightarrow> u64 \<times> u64" where
  "IrqRAIGaurd_enter rflags = (let saved = rflags in (saved, cli rflags))"

definition IrqRAIGaurd_leave :: "u64 \<Rightarrow> u64 \<Rightarrow> u64" where
  "IrqRAIGaurd_leave saved rflags = (if saved AND IF_FLAG \<noteq> 0 then sti rflags else rflags)"

section \<open>Several processors\<close>

text \<open>
  The program counter of a processor with respect to one \<open>IrqSpinLock\<close>, after each
  atomic action of \<open>acquire\<close> and \<open>release\<close>: \<open>Saved\<close> after \<open>pushfq\<close>, \<open>Spinning\<close> after
  \<open>cli\<close>, \<open>Taken\<close> after the exchange that returned false, \<open>Critical\<close> after the store of
  \<open>flags\<close>, \<open>Leaving\<close> after the load of \<open>flags\<close>, \<open>Dropped\<close> after the store of false.
\<close>

datatype lock_pc = Outside | Saved | Spinning | Taken | Critical | Leaving | Dropped

record core =
  core_pc :: lock_pc
  core_rflags :: u64
  acq_saved :: u64
  rel_saved :: u64

record smp =
  cores :: "nat \<Rightarrow> core"
  smp_lock :: IrqSpinLock

definition set_core :: "nat \<Rightarrow> core \<Rightarrow> smp \<Rightarrow> smp" where
  "set_core i c s = s\<lparr>cores := (cores s)(i := c)\<rparr>"

inductive lock_step :: "smp \<Rightarrow> smp \<Rightarrow> bool" where
  outside: "\<lbrakk>c = cores s i; core_pc c = Outside\<rbrakk>
    \<Longrightarrow> lock_step s (set_core i (c\<lparr>core_rflags := fl\<rparr>) s)"
| pushfq: "\<lbrakk>c = cores s i; core_pc c = Outside\<rbrakk>
    \<Longrightarrow> lock_step s (set_core i (c\<lparr>acq_saved := core_rflags c, core_pc := Saved\<rparr>) s)"
| mask_irq: "\<lbrakk>c = cores s i; core_pc c = Saved\<rbrakk>
    \<Longrightarrow> lock_step s (set_core i (c\<lparr>core_rflags := cli (core_rflags c), core_pc := Spinning\<rparr>) s)"
| try_exchange: "\<lbrakk>c = cores s i; core_pc c = Spinning; exchange True (inner (smp_lock s)) = (old, l')\<rbrakk>
    \<Longrightarrow> lock_step s (set_core i (c\<lparr>core_pc := (if old then Spinning else Taken)\<rparr>)
         (s\<lparr>smp_lock := (smp_lock s)\<lparr>inner := l'\<rparr>\<rparr>))"
| store_flags: "\<lbrakk>c = cores s i; core_pc c = Taken\<rbrakk>
    \<Longrightarrow> lock_step s (set_core i (c\<lparr>core_pc := Critical\<rparr>) (s\<lparr>smp_lock := (smp_lock s)\<lparr>lock_flags := acq_saved c\<rparr>\<rparr>))"
| load_flags: "\<lbrakk>c = cores s i; core_pc c = Critical\<rbrakk>
    \<Longrightarrow> lock_step s (set_core i (c\<lparr>rel_saved := lock_flags (smp_lock s), core_pc := Leaving\<rparr>) s)"
| store_false: "\<lbrakk>c = cores s i; core_pc c = Leaving\<rbrakk>
    \<Longrightarrow> lock_step s (set_core i (c\<lparr>core_pc := Dropped\<rparr>)
         (s\<lparr>smp_lock := (smp_lock s)\<lparr>inner := spin_release (inner (smp_lock s))\<rparr>\<rparr>))"
| restore_irq: "\<lbrakk>c = cores s i; core_pc c = Dropped\<rbrakk>
    \<Longrightarrow> lock_step s (set_core i
         (c\<lparr>core_rflags := (if rel_saved c AND IF_FLAG \<noteq> 0 then sti (core_rflags c) else core_rflags c), core_pc := Outside\<rparr>) s)"

inductive_cases lock_stepE: "lock_step s s'"

inductive smp_reachable :: "smp \<Rightarrow> bool" where
  start: "\<lbrakk>\<And>i. core_pc (cores s i) = Outside; \<not> lock_held (smp_lock s)\<rbrakk> \<Longrightarrow> smp_reachable s"
| step: "\<lbrakk>smp_reachable s; lock_step s s'\<rbrakk> \<Longrightarrow> smp_reachable s'"

definition owns :: "lock_pc \<Rightarrow> bool" where
  "owns p \<longleftrightarrow> p \<in> {Taken, Critical, Leaving}"

definition smp_inv :: "smp \<Rightarrow> bool" where
  "smp_inv s \<longleftrightarrow>
     (\<forall>i. owns (core_pc (cores s i)) \<longrightarrow> lock_held (smp_lock s)) \<and>
     (\<forall>i j. owns (core_pc (cores s i)) \<longrightarrow> owns (core_pc (cores s j)) \<longrightarrow> i = j) \<and>
     (\<forall>i. core_pc (cores s i) = Critical \<longrightarrow> lock_flags (smp_lock s) = acq_saved (cores s i)) \<and>
     (\<forall>i. core_pc (cores s i) \<in> {Leaving, Dropped} \<longrightarrow> rel_saved (cores s i) = acq_saved (cores s i)) \<and>
     (\<forall>i. core_pc (cores s i) = Saved \<longrightarrow> core_rflags (cores s i) = acq_saved (cores s i)) \<and>
     (\<forall>i. core_pc (cores s i) \<notin> {Outside, Saved} \<longrightarrow> core_rflags (cores s i) = cli (acq_saved (cores s i)))"

lemma smp_inv_step:
  assumes "smp_inv s" and "lock_step s s'"
  shows "smp_inv s'"
  using assms(2,1)
  by cases (auto simp: smp_inv_def set_core_def owns_def exchange_def spin_release_def split: if_splits)

lemma smp_inv_reachable: "smp_reachable s \<Longrightarrow> smp_inv s"
proof (induction rule: smp_reachable.induct)
  case (start s)
  then show ?case by (simp add: smp_inv_def owns_def)
next
  case (step s s')
  then show ?case using smp_inv_step by blast
qed

section \<open>Properties\<close>

text \<open>
  Claim C21. Whatever the interleaving of any number of processors on one \<open>IrqSpinLock\<close>, at
  most one is between the exchange that took the lock and the store that releases it; a
  processor there runs with interrupts masked; and when \<open>release\<close> ends, the flags register
  of the processor is the one it had when it called \<open>acquire\<close>, although the shared
  \<open>flags\<close> field may have been overwritten since by the next owner.
\<close>

theorem irq_lock_excludes_and_restores:
  assumes "smp_reachable s"
  shows "(\<forall>i j. owns (core_pc (cores s i)) \<and> owns (core_pc (cores s j)) \<longrightarrow> i = j)
    \<and> (\<forall>i. owns (core_pc (cores s i)) \<longrightarrow> \<not> interrupts_on (core_rflags (cores s i)))
    \<and> (\<forall>s' i. lock_step s s' \<and> core_pc (cores s i) = Dropped \<and> core_pc (cores s' i) = Outside
         \<longrightarrow> core_rflags (cores s' i) = acq_saved (cores s i))"
proof -
  have inv: "smp_inv s" using assms by (rule smp_inv_reachable)
  have "core_rflags (cores s' i) = acq_saved (cores s i)"
    if "lock_step s s'" "core_pc (cores s i) = Dropped" "core_pc (cores s' i) = Outside" for s' i
    using that inv
    by cases (auto simp: smp_inv_def set_core_def IF_FLAG_test split: if_splits)
  moreover have "\<not> interrupts_on (core_rflags (cores s i))" if "owns (core_pc (cores s i))" for i
    using that inv by (auto simp: smp_inv_def owns_def)
  moreover have "i = j" if "owns (core_pc (cores s i))" "owns (core_pc (cores s j))" for i j
    using that inv by (simp add: smp_inv_def)
  ultimately show ?thesis by blast
qed

definition two_cores :: smp where
  "two_cores = \<lparr>cores = (\<lambda>_. \<lparr>core_pc = Outside, core_rflags = 0x202, acq_saved = 0, rel_saved = 0\<rparr>),
     smp_lock = \<lparr>lock_flags = 0, inner = fresh_lock\<rparr>\<rparr>"

theorem irq_lock_excludes_and_restores_witness:
  "\<exists>s. lock_step two_cores s \<and> core_pc (cores s 1) = Saved
     \<and> (\<forall>i j. owns (core_pc (cores s i)) \<and> owns (core_pc (cores s j)) \<longrightarrow> i = j)"
proof -
  define c where "c = cores two_cores 1"
  define s where "s = set_core 1 (c\<lparr>acq_saved := core_rflags c, core_pc := Saved\<rparr>) two_cores"
  have "smp_reachable two_cores"
    by (rule smp_reachable.start) (simp_all add: two_cores_def fresh_lock_def)
  moreover have st: "lock_step two_cores s"
    unfolding s_def by (rule lock_step.pushfq) (simp_all add: two_cores_def c_def)
  ultimately have "smp_reachable s" by (rule smp_reachable.step)
  moreover have "core_pc (cores s 1) = Saved" by (simp add: s_def set_core_def)
  ultimately show ?thesis
    using irq_lock_excludes_and_restores [of s] st by blast
qed

text \<open>
  On one processor, \<open>acquire\<close> of a free \<open>IrqSpinLock\<close> returns holding it with
  interrupts masked, and the matching \<open>release\<close> frees it and gives back the very flags register
  of the call, so sections protected by different locks nest; \<open>acquire\<close> of a lock that is already
  held never returns.
\<close>

theorem irq_lock_sections_nest:
  "(\<not> lock_held l \<longrightarrow> (\<exists>l'. irq_acquire fl l = ret (cli fl, l') \<and> lock_held l'
       \<and> fst (irq_release (cli fl) l') = fl \<and> \<not> lock_held (snd (irq_release (cli fl) l'))))
   \<and> (lock_held l \<longrightarrow> irq_acquire fl l = diverges)"
  by (auto simp: irq_acquire_free irq_acquire_held irq_release_def IF_FLAG_test spin_release_def)

theorem irq_lock_sections_nest_witness:
  "\<exists>l'. irq_acquire 0x202 \<lparr>lock_flags = 0, inner = fresh_lock\<rparr> = ret (cli 0x202, l')
     \<and> fst (irq_release (cli 0x202) l') = 0x202"
  using irq_lock_sections_nest [of "\<lparr>lock_flags = 0, inner = fresh_lock\<rparr>" "0x202"]
  by (auto simp: fresh_lock_def)

end
