(* ===== verification/Byte_Memory.thy ===== *)
theory Byte_Memory
  imports Kernel_Prelude
begin

text \<open>
  The memory that the kernel reaches through its pointers: a byte for every 64-bit
  address, 64-bit accesses in the little-endian order of the processor, and the memory
  and string routines of \<^verbatim>\<open>src/src/libc/string.cpp\<close> as loops over it. Free-list nodes,
  page tables, heap headers and program images all live in this memory.
\<close>

type_synonym mem = "u64 \<Rightarrow> u8"

section \<open>Address ranges\<close>

text \<open>The \<open>n\<close> addresses from \<open>a\<close> on; a range may wrap around the address space.\<close>

definition span :: "u64 \<Rightarrow> nat \<Rightarrow> u64 set" where
  "span a n = {x. unat (x - a) < n}"

lemma span_nowrap:
  assumes "unat a + n \<le> 2 ^ 64"
  shows "x \<in> span a n \<longleftrightarrow> unat a \<le> unat x \<and> unat x < unat a + n"
proof (cases "a \<le> x")
  case True
  then have "unat a \<le> unat x" by (simp add: word_le_nat_alt)
  then show ?thesis using True by (auto simp: span_def unat_sub_le)
next
  case False
  then have "unat x < unat a" by (simp add: word_le_nat_alt)
  moreover have "unat (x - a) = 2 ^ 64 + unat x - unat a"
    using False u64_less_2p64 [of a] by (auto simp: unat_sub_if' word_le_nat_alt)
  ultimately show ?thesis using assms by (auto simp: span_def)
qed

lemma span_shift [simp]: "x + h \<in> span (a + h) n \<longleftrightarrow> x \<in> span a n"
  by (simp add: span_def)

lemma span_shift_minus: "x \<in> span (a + h) n \<longleftrightarrow> x - h \<in> span a n"
  by (simp add: span_def diff_diff_eq add.commute)

lemma span_mono: "n \<le> k \<Longrightarrow> span a n \<subseteq> span a k"
  by (auto simp: span_def)

lemma span_sub:
  assumes "unat k + l \<le> n" and "n \<le> 2 ^ 64"
  shows "span (a + k) l \<subseteq> span a n"
proof
  fix x assume "x \<in> span (a + k) l"
  then have l: "unat (x - a - k) < l" by (simp add: span_def diff_diff_eq)
  have "unat (x - a) = unat ((x - a - k) + k)" by simp
  also have "\<dots> = unat (x - a - k) + unat k"
    using l assms by (intro unat_add_nowrap) simp
  finally show "x \<in> span a n" using l assms by (simp add: span_def)
qed

lemma span_start: "0 < n \<Longrightarrow> a \<in> span a n"
  by (simp add: span_def)

lemma span_add_mem: "unat k < n \<Longrightarrow> a + k \<in> span a n"
  by (simp add: span_def)

lemma span_offsets_disjoint:
  assumes "unat j + n \<le> unat k" and "unat k + l \<le> 2 ^ 64"
  shows "span (a + j) n \<inter> span (a + k) l = {}"
proof -
  have False if "unat (x - a - j) < n" "unat (x - a - k) < l" for x
  proof -
    have "unat ((x - a - k) + k) = unat (x - a - k) + unat k"
      using that assms by (intro unat_add_nowrap) simp
    then have "unat (x - a) = unat (x - a - k) + unat k" by simp
    moreover have "unat ((x - a - j) + j) = unat (x - a - j) + unat j"
      using that assms by (intro unat_add_nowrap) simp
    then have "unat (x - a) = unat (x - a - j) + unat j" by simp
    ultimately show False using that assms by linarith
  qed
  then show ?thesis by (auto simp: span_def diff_diff_eq)
qed

section \<open>64-bit accesses\<close>

definition read64 :: "mem \<Rightarrow> u64 \<Rightarrow> u64" where
  "read64 m a = fold (\<lambda>j w. w OR push_bit (8 * j) (ucast (m (a + of_nat j)))) [0..<8] 0"

definition write64 :: "mem \<Rightarrow> u64 \<Rightarrow> u64 \<Rightarrow> mem" where
  "write64 m a v = (\<lambda>x. if x - a < 8 then ucast (drop_bit (8 * unat (x - a)) v) else m x)"

lemma write64_outside: "x \<notin> span a 8 \<Longrightarrow> write64 m a v x = m x"
  by (auto simp: write64_def span_def word_less_nat_alt)

lemma bit_read_bytes:
  "bit (fold (\<lambda>j w. w OR push_bit (8 * j) (ucast (m (a + of_nat j)))) [0..<k] (0 :: u64)) n
    \<longleftrightarrow> n < 64 \<and> (\<exists>j<k. 8 * j \<le> n \<and> bit (m (a + of_nat j) :: u8) (n - 8 * j))"
  by (induction k) (auto simp: bit_simps less_Suc_eq dest: bit_imp_le_length)

lemma bit_read64:
  assumes "n < 64"
  shows "bit (read64 m a) n \<longleftrightarrow> bit (m (a + of_nat (n div 8))) (n mod 8)"
proof
  assume "bit (read64 m a) n"
  then obtain j where j: "8 * j \<le> n" "bit (m (a + of_nat j)) (n - 8 * j)"
    unfolding read64_def bit_read_bytes by blast
  define r where "r = n - 8 * j"
  have "r < 8" using bit_imp_le_length [OF j(2)] by (simp add: r_def)
  moreover have "n = r + 8 * j" using j(1) by (simp add: r_def)
  ultimately have "n div 8 = j" "n mod 8 = n - 8 * j" by simp_all
  with j(2) show "bit (m (a + of_nat (n div 8))) (n mod 8)" by simp
next
  assume "bit (m (a + of_nat (n div 8))) (n mod 8)"
  moreover have "n div 8 < 8" "8 * (n div 8) \<le> n" "n - 8 * (n div 8) = n mod 8"
    using assms by (simp_all add: modulo_nat_def mult.commute)
  ultimately show "bit (read64 m a) n"
    using assms unfolding read64_def bit_read_bytes by (intro conjI exI [of _ "n div 8"]) simp_all
qed

lemma read64_cong:
  assumes "\<And>x. x \<in> span a 8 \<Longrightarrow> m x = m' x"
  shows "read64 m a = read64 m' a"
proof (rule bit_word_eqI)
  fix n assume n: "n < LENGTH(64)"
  then have "unat (of_nat (n div 8) :: u64) < 8" by (simp add: unat_of_nat_small)
  then have "m (a + of_nat (n div 8)) = m' (a + of_nat (n div 8))"
    by (intro assms span_add_mem)
  with n show "bit (read64 m a) n = bit (read64 m' a) n"
    by (simp add: bit_read64)
qed

lemma read64_write64_same [simp]: "read64 (write64 m a v) a = v"
proof (rule bit_word_eqI)
  fix n assume n: "n < LENGTH(64)"
  then have "unat (of_nat (n div 8) :: u64) = n div 8" by (intro unat_of_nat_small) simp
  moreover from this n have "(of_nat (n div 8) :: u64) < 8" by (simp add: word_less_nat_alt)
  ultimately show "bit (read64 (write64 m a v) a) n = bit v n"
    using n by (simp add: bit_read64 write64_def bit_simps)
qed

lemma read64_write64_other:
  assumes "span a 8 \<inter> span b 8 = {}"
  shows "read64 (write64 m a v) b = read64 m b"
proof (rule read64_cong)
  fix x assume "x \<in> span b 8"
  then have "x \<notin> span a 8" using assms by blast
  then show "write64 m a v x = m x" by (rule write64_outside)
qed

text \<open>Memory untouched on a set of addresses.\<close>

definition same_on :: "u64 set \<Rightarrow> mem \<Rightarrow> mem \<Rightarrow> bool" where
  "same_on A m m' \<longleftrightarrow> (\<forall>x \<in> A. m' x = m x)"

lemma same_on_refl [simp]: "same_on A m m"
  by (simp add: same_on_def)

lemma same_on_trans: "same_on A m m' \<Longrightarrow> same_on A m' m'' \<Longrightarrow> same_on A m m''"
  by (simp add: same_on_def)

lemma same_on_mono: "same_on A m m' \<Longrightarrow> B \<subseteq> A \<Longrightarrow> same_on B m m'"
  by (auto simp: same_on_def)

lemma same_on_write64: "A \<inter> span a 8 = {} \<Longrightarrow> same_on A m (write64 m a v)"
  unfolding same_on_def by (metis write64_outside disjoint_iff)

lemma same_on_write64_after:
  "same_on A m m' \<Longrightarrow> A \<inter> span a 8 = {} \<Longrightarrow> same_on A m (write64 m' a v)"
  using same_on_trans same_on_write64 by blast

lemma same_on_read64: "same_on A m m' \<Longrightarrow> span a 8 \<subseteq> A \<Longrightarrow> read64 m' a = read64 m a"
  by (rule read64_cong) (auto simp: same_on_def)

section \<open>The memory routines of libc/string.cpp\<close>

text \<open>Each loop carries its counter \<open>i\<close>; it ends because \<open>i < n\<close> excludes wrap-around.\<close>

lemma counter_step: "(i :: u64) < n \<Longrightarrow> unat (i + 1) = unat i + 1"
  using u64_less_2p64 [of n] by (intro trans [OF unat_add_nowrap]) (simp_all add: word_less_nat_alt)

function memcpy_loop :: "mem \<Rightarrow> u64 \<Rightarrow> u64 \<Rightarrow> u64 \<Rightarrow> u64 \<Rightarrow> mem" where
  "memcpy_loop m dest src n i =
     (if i < n then memcpy_loop (m(dest + i := m (src + i))) dest src n (i + 1) else m)"
  by pat_completeness auto
termination
  by (relation "measure (\<lambda>(m, dest, src, n, i). unat n - unat i)")
    (auto simp: counter_step word_less_nat_alt)

definition memcpy :: "mem \<Rightarrow> u64 \<Rightarrow> u64 \<Rightarrow> u64 \<Rightarrow> mem" where
  "memcpy m dest src n = memcpy_loop m dest src n 0"

function memset_loop :: "mem \<Rightarrow> u64 \<Rightarrow> u8 \<Rightarrow> u64 \<Rightarrow> u64 \<Rightarrow> mem" where
  "memset_loop m p c n i =
     (if i < n then memset_loop (m(p + i := c)) p c n (i + 1) else m)"
  by pat_completeness auto
termination
  by (relation "measure (\<lambda>(m, p, c, n, i). unat n - unat i)")
    (auto simp: counter_step word_less_nat_alt)

definition memset :: "mem \<Rightarrow> u64 \<Rightarrow> u32 \<Rightarrow> u64 \<Rightarrow> mem" where
  "memset m s c n = memset_loop m s (ucast c) n 0"

text \<open>\<^verbatim>\<open>memove\<close> (spelt so in the source) copies upwards or downwards by address order.\<close>

function memove_down :: "mem \<Rightarrow> u64 \<Rightarrow> u64 \<Rightarrow> u64 \<Rightarrow> mem" where
  "memove_down m pdest psrc i =
     (if i > 0 then memove_down (m(pdest + (i - 1) := m (psrc + (i - 1)))) pdest psrc (i - 1) else m)"
  by pat_completeness auto
termination
  by (relation "measure (\<lambda>(m, pdest, psrc, i). unat i)")
    (auto simp: unat_minus_one word_neq_0_conv unat_gt_0)

definition memove :: "mem \<Rightarrow> u64 \<Rightarrow> u64 \<Rightarrow> u64 \<Rightarrow> mem" where
  "memove m dest src n =
     (if src > dest then memcpy_loop m dest src n 0
      else if src < dest then memove_down m dest src n
      else m)"

function memcmp_loop :: "mem \<Rightarrow> u64 \<Rightarrow> u64 \<Rightarrow> u64 \<Rightarrow> u64 \<Rightarrow> int" where
  "memcmp_loop m p1 p2 n i =
     (if i < n then
        if m (p1 + i) \<noteq> m (p2 + i) then (if m (p1 + i) < m (p2 + i) then - 1 else 1)
        else memcmp_loop m p1 p2 n (i + 1)
      else 0)"
  by pat_completeness auto
termination
  by (relation "measure (\<lambda>(m, p1, p2, n, i). unat n - unat i)")
    (auto simp: counter_step word_less_nat_alt)

definition memcmp :: "mem \<Rightarrow> u64 \<Rightarrow> u64 \<Rightarrow> u64 \<Rightarrow> int" where
  "memcmp m s1 s2 n = memcmp_loop m s1 s2 n 0"

text \<open>A string with no terminator makes \<open>strlen\<close> run for ever; the counter is a 32-bit \<open>int\<close>.\<close>

partial_function (option) strlen_loop :: "mem \<Rightarrow> u64 \<Rightarrow> u32 \<Rightarrow> u32 exec" where
  "strlen_loop m str count =
     (if m str = 0 then ret count else strlen_loop m (str + 1) (count + 1))"

definition strlen :: "mem \<Rightarrow> u64 \<Rightarrow> u32 exec" where
  "strlen m str = (if str = null then ret 0 else strlen_loop m str 0)"

declare memcpy_loop.simps [simp del] memset_loop.simps [simp del] memove_down.simps [simp del]
  memcmp_loop.simps [simp del]

section \<open>What the loops compute\<close>

lemma counter_le_cases:
  fixes i y :: u64
  assumes "i < n"
  shows "i \<le> y \<longleftrightarrow> y = i \<or> i + 1 \<le> y"
  using counter_step [OF assms] by (auto simp: word_le_nat_alt word_unat_eq_iff)

lemma addr_eq_iff: "(x :: u64) = a + i \<longleftrightarrow> x - a = i"
  by (auto simp: algebra_simps)

lemma memset_loop_eq:
  "memset_loop m p c n i = (\<lambda>x. if i \<le> x - p \<and> x - p < n then c else m x)"
proof (induction m p c n i rule: memset_loop.induct)
  case (1 m p c n i)
  show ?case
  proof (cases "i < n")
    case True
    have "(if i + 1 \<le> x - p \<and> x - p < n then c else (m(p + i := c)) x)
        = (if i \<le> x - p \<and> x - p < n then c else m x)" for x
      using True counter_le_cases [OF True, of "x - p"] addr_eq_iff [of x p i]
      by (cases "x - p = i") auto
    then show ?thesis using "1.IH" [OF True] True by (subst memset_loop.simps) (simp del: fun_upd_apply)
  next
    case False
    then have "(\<lambda>x. if i \<le> x - p \<and> x - p < n then c else m x) = m" by (intro ext) auto
    then show ?thesis using False by (subst memset_loop.simps) simp
  qed
qed

lemma memset_eq: "memset m s c n = (\<lambda>x. if x \<in> span s (unat n) then ucast c else m x)"
  by (auto simp: memset_def memset_loop_eq span_def word_less_nat_alt)

lemma memcpy_loop_eq:
  assumes "\<And>k j. i \<le> k \<Longrightarrow> k < j \<Longrightarrow> j < n \<Longrightarrow> dest + k \<noteq> src + j"
  shows "memcpy_loop m dest src n i
    = (\<lambda>x. if i \<le> x - dest \<and> x - dest < n then m (src + (x - dest)) else m x)"
  using assms
proof (induction m dest src n i rule: memcpy_loop.induct)
  case (1 m dest src n i)
  show ?case
  proof (cases "i < n")
    case True
    let ?m = "m(dest + i := m (src + i))"
    have "memcpy_loop ?m dest src n (i + 1)
        = (\<lambda>x. if i + 1 \<le> x - dest \<and> x - dest < n then ?m (src + (x - dest)) else ?m x)"
      using "1.IH" [OF True] "1.prems" counter_le_cases [OF True] by blast
    moreover have "src + j \<noteq> dest + i" if "i + 1 \<le> j" "j < n" for j
    proof -
      have "i < j" using that counter_step [OF True] by (simp add: word_le_nat_alt word_less_nat_alt)
      then show ?thesis using "1.prems" [of i j] that by auto
    qed
    ultimately have "memcpy_loop ?m dest src n (i + 1) x
        = (if i \<le> x - dest \<and> x - dest < n then m (src + (x - dest)) else m x)" for x
      using True counter_le_cases [OF True, of "x - dest"] addr_eq_iff [of x dest i]
      by (cases "x - dest = i") auto
    then show ?thesis using True by (subst memcpy_loop.simps) auto
  next
    case False
    then have "(\<lambda>x. if i \<le> x - dest \<and> x - dest < n then m (src + (x - dest)) else m x) = m"
      by (intro ext) auto
    then show ?thesis using False by (subst memcpy_loop.simps) simp
  qed
qed

lemma memcpy_eq:
  assumes "span dest (unat n) \<inter> span src (unat n) = {}"
  shows "memcpy m dest src n
    = (\<lambda>x. if x \<in> span dest (unat n) then m (src + (x - dest)) else m x)"
proof -
  have "dest + k \<noteq> src + j" if "k < j" "j < n" for k j
  proof -
    have "dest + k \<in> span dest (unat n)" "src + j \<in> span src (unat n)"
      using that by (auto simp: span_def word_less_nat_alt)
    then show ?thesis using assms by auto
  qed
  then show ?thesis
    using memcpy_loop_eq [of 0 n dest src m] by (auto simp: memcpy_def span_def word_less_nat_alt)
qed

lemma memove_down_eq:
  assumes "\<And>k j. j < k \<Longrightarrow> k < i \<Longrightarrow> dest + k \<noteq> src + j"
  shows "memove_down m dest src i
    = (\<lambda>x. if x - dest < i then m (src + (x - dest)) else m x)"
  using assms
proof (induction m dest src i rule: memove_down.induct)
  case (1 m dest src i)
  show ?case
  proof (cases "i > 0")
    case True
    then have u: "unat (i - 1) + 1 = unat i"
      by (simp add: unat_minus_one word_neq_0_conv unat_gt_0)
    let ?m = "m(dest + (i - 1) := m (src + (i - 1)))"
    have lt: "y < i \<longleftrightarrow> y = i - 1 \<or> y < i - 1" for y
      using u by (auto simp: word_less_nat_alt word_unat_eq_iff)
    have "memove_down ?m dest src (i - 1)
        = (\<lambda>x. if x - dest < i - 1 then ?m (src + (x - dest)) else ?m x)"
      using "1.IH" [OF True] "1.prems" lt by blast
    moreover have "src + j \<noteq> dest + (i - 1)" if "j < i - 1" for j
      using "1.prems" [of j "i - 1"] that lt [of "i - 1"] by auto
    ultimately have "memove_down ?m dest src (i - 1) x
        = (if x - dest < i then m (src + (x - dest)) else m x)" for x
      using lt [of "x - dest"] addr_eq_iff [of x dest "i - 1"]
      by (cases "x - dest = i - 1") auto
    then show ?thesis using True by (subst memove_down.simps) (auto simp: Let_def)
  next
    case False
    then have "(\<lambda>x. if x - dest < i then m (src + (x - dest)) else m x) = m"
      by (auto simp: word_gt_0)
    then show ?thesis using False by (subst memove_down.simps) simp
  qed
qed

lemma memove_eq:
  assumes d: "unat dest + unat n \<le> 2 ^ 64" and s: "unat src + unat n \<le> 2 ^ 64"
  shows "memove m dest src n
    = (\<lambda>x. if x \<in> span dest (unat n) then m (src + (x - dest)) else m x)"
proof -
  have no: "unat (dest + k) = unat dest + unat k" "unat (src + k) = unat src + unat k" if "k < n" for k
    using that d s by (auto intro!: unat_add_nowrap simp: word_less_nat_alt)
  consider "src > dest" | "src < dest" | "src = dest" by (meson antisym not_le_imp_less)
  then show ?thesis
  proof cases
    case 1
    have "dest + k \<noteq> src + j" if "k < j" "j < n" for k j
    proof -
      have "unat (dest + k) < unat (src + j)"
        using no(1) [of k] no(2) [of j] that 1 by (auto simp: word_less_nat_alt)
      then show ?thesis by (metis nat_less_le)
    qed
    then show ?thesis
      using 1 memcpy_loop_eq [of 0 n dest src m] by (auto simp: memove_def span_def word_less_nat_alt)
  next
    case 2
    have "dest + k \<noteq> src + j" if "j < k" "k < n" for k j
    proof -
      have "unat (src + j) < unat (dest + k)"
        using no(1) [of k] no(2) [of j] that 2 by (auto simp: word_less_nat_alt)
      then show ?thesis by (metis nat_less_le)
    qed
    then show ?thesis
      using 2 memove_down_eq [of n dest src m] by (auto simp: memove_def span_def word_less_nat_alt)
  next
    case 3
    then show ?thesis by (auto simp: memove_def)
  qed
qed

lemma memcmp_loop_equal:
  assumes "\<And>j. i \<le> j \<Longrightarrow> j < n \<Longrightarrow> m (p1 + j) = m (p2 + j)"
  shows "memcmp_loop m p1 p2 n i = 0"
  using assms
proof (induction m p1 p2 n i rule: memcmp_loop.induct)
  case (1 m p1 p2 n i)
  show ?case
  proof (cases "i < n")
    case True
    then show ?thesis
      using "1.IH" [OF True] "1.prems" counter_le_cases [OF True] by (subst memcmp_loop.simps) auto
  next
    case False
    then show ?thesis by (subst memcmp_loop.simps) simp
  qed
qed

lemma memcmp_loop_differ:
  assumes "i \<le> d" "d < n" "m (p1 + d) \<noteq> m (p2 + d)"
    and "\<And>j. i \<le> j \<Longrightarrow> j < d \<Longrightarrow> m (p1 + j) = m (p2 + j)"
  shows "memcmp_loop m p1 p2 n i = (if m (p1 + d) < m (p2 + d) then - 1 else 1)"
  using assms
proof (induction m p1 p2 n i rule: memcmp_loop.induct)
  case (1 m p1 p2 n i)
  then have i: "i < n" by auto
  show ?case
  proof (cases "i = d")
    case True
    then show ?thesis using "1.prems" i by (subst memcmp_loop.simps) auto
  next
    case False
    with "1.prems"(1) have "i < d" "i + 1 \<le> d" using counter_le_cases [OF i, of d] by auto
    then show ?thesis
      using "1.IH" [OF i] "1.prems" i counter_le_cases [OF i] by (subst memcmp_loop.simps) auto
  qed
qed

lemma strlen_loop_eq:
  assumes "\<And>j. j < k \<Longrightarrow> m (str + of_nat j) \<noteq> 0" and "m (str + of_nat k) = 0"
  shows "strlen_loop m str c = ret (c + of_nat k)"
  using assms
proof (induction k arbitrary: str c)
  case 0
  then show ?case by (simp add: strlen_loop.simps)
next
  case (Suc k)
  have "m (str + 1 + of_nat j) \<noteq> 0" if "j < k" for j
    using Suc.prems(1) [of "Suc j"] that by (simp add: add.assoc)
  moreover have "m (str + 1 + of_nat k) = 0"
    using Suc.prems(2) by (simp add: add.assoc)
  ultimately have "strlen_loop m (str + 1) (c + 1) = ret (c + 1 + of_nat k)"
    by (rule Suc.IH)
  then show ?case
    using Suc.prems(1) [of 0] by (subst strlen_loop.simps) (simp add: add.assoc)
qed

section \<open>Properties\<close>

text \<open>
  Claim C25. \<open>memset\<close> stores the low byte of its argument in exactly the \<open>n\<close> bytes from
  its pointer on; \<open>memcpy\<close> between disjoint ranges and \<open>memove\<close> between any two ranges that do
  not wrap, overlapping ones included, leave in every destination byte what the matching source byte
  held before, and touch no other byte.
\<close>

theorem memory_routines_correct:
  assumes "unat dest + unat n \<le> 2 ^ 64" and "unat src + unat n \<le> 2 ^ 64"
  shows "memset m dest c n = (\<lambda>x. if x \<in> span dest (unat n) then ucast c else m x)
    \<and> memove m dest src n = (\<lambda>x. if x \<in> span dest (unat n) then m (src + (x - dest)) else m x)
    \<and> (span dest (unat n) \<inter> span src (unat n) = {} \<longrightarrow>
        memcpy m dest src n = (\<lambda>x. if x \<in> span dest (unat n) then m (src + (x - dest)) else m x))"
  using memset_eq memove_eq [OF assms] memcpy_eq by blast

theorem memory_routines_correct_witness:
  "memove (\<lambda>x. ucast x) 0x1002 0x1000 4 0x1005 = 3"
proof -
  have "memove (\<lambda>x. ucast x) 0x1002 0x1000 4
      = (\<lambda>x. if x \<in> span 0x1002 (unat (4 :: u64)) then ucast (0x1000 + (x - 0x1002)) else ucast x)"
    using memory_routines_correct [of "0x1002" "4" "0x1000" "\<lambda>x. ucast x"] by simp
  then show ?thesis by (simp add: span_def)
qed

text \<open>
  \<open>memcmp\<close> compares two ranges bytewise: it returns 0 when they agree
  on all \<open>n\<close> bytes, and otherwise \<open>-1\<close> or \<open>1\<close> by the order of the bytes at the first
  position where they differ.
\<close>

theorem memcmp_first_difference:
  "memcmp m s1 s2 n = 0 \<and> (\<forall>j<n. m (s1 + j) = m (s2 + j))
   \<or> (\<exists>d<n. (\<forall>j<d. m (s1 + j) = m (s2 + j)) \<and> m (s1 + d) \<noteq> m (s2 + d)
        \<and> memcmp m s1 s2 n = (if m (s1 + d) < m (s2 + d) then - 1 else 1))"
proof (cases "\<forall>j<n. m (s1 + j) = m (s2 + j)")
  case True
  then show ?thesis using memcmp_loop_equal [of 0 n m s1 s2] by (simp add: memcmp_def)
next
  case False
  let ?differ = "\<lambda>d. d < n \<and> m (s1 + d) \<noteq> m (s2 + d)"
  obtain d where d: "?differ d" and least: "\<forall>j. ?differ j \<longrightarrow> unat d \<le> unat j"
    using False ex_has_least_nat [of ?differ _ unat] by auto
  have "m (s1 + j) = m (s2 + j)" if "j < d" for j
  proof -
    have "j < n" using that d by (auto intro: order.strict_trans)
    moreover have "\<not> unat d \<le> unat j" using that by (simp add: word_less_nat_alt)
    ultimately show ?thesis using least by blast
  qed
  with d show ?thesis
    using memcmp_loop_differ [of 0 d n m s1 s2] by (auto simp: memcmp_def)
qed

theorem memcmp_first_difference_witness: "memcmp (\<lambda>_. 7) 0x10 0x20 4 = 0"
  using memcmp_first_difference [of "\<lambda>_. 7" "0x10" "0x20" "4"] by simp

end
