(* ===== verification/Page_Interface.thy ===== *)
theory Page_Interface
  imports Byte_Memory
begin

text \<open>
  The contract between the physical allocator and its clients, the page tables, the kernel heap and
  the program loader: what a block of pages is, what \<open>alloc\<close> and \<open>free\<close> promise about the set
  of free bytes and about memory, and what follows for any sequence of requests from
  a client that writes only to blocks it holds.
\<close>

section \<open>Regions\<close>

text \<open>A region is a physical address and a number of pages; its bytes are physical addresses.\<close>

type_synonym region = "u64 \<times> u64"

definition region_bytes :: "region \<Rightarrow> u64 set" where
  "region_bytes r = span (fst r) (4096 * unat (snd r))"

definition region_ok :: "u64 \<Rightarrow> region \<Rightarrow> bool" where
  "region_ok h r \<longleftrightarrow> fst r \<noteq> 0 \<and> snd r \<noteq> 0 \<and> 4096 dvd unat (fst r)
     \<and> unat h + unat (fst r) + 4096 * unat (snd r) \<le> 2 ^ 64"

abbreviation apart :: "region \<Rightarrow> region \<Rightarrow> bool" where
  "apart r r' \<equiv> region_bytes r \<inter> region_bytes r' = {}"

definition regions_ok :: "u64 \<Rightarrow> region list \<Rightarrow> bool" where
  "regions_ok h rs \<longleftrightarrow> (\<forall>r \<in> set rs. region_ok h r) \<and> sorted_wrt apart rs"

definition bytes_of :: "region list \<Rightarrow> u64 set" where
  "bytes_of rs = (\<Union>r \<in> set rs. region_bytes r)"

lemma bytes_of_simps [simp]:
  "bytes_of [] = {}" "bytes_of (r # rs) = region_bytes r \<union> bytes_of rs"
  "bytes_of (rs @ rs') = bytes_of rs \<union> bytes_of rs'"
  by (auto simp: bytes_of_def)

lemma regions_ok_simps [simp]:
  "regions_ok h []"
  "regions_ok h (r # rs) \<longleftrightarrow> region_ok h r \<and> region_bytes r \<inter> bytes_of rs = {} \<and> regions_ok h rs"
  by (auto simp: regions_ok_def bytes_of_def)

lemma regions_ok_append [simp]:
  "regions_ok h (rs @ rs') \<longleftrightarrow>
     regions_ok h rs \<and> regions_ok h rs' \<and> bytes_of rs \<inter> bytes_of rs' = {}"
  by (induction rs) auto

lemma regions_ok_member:
  "regions_ok h rs \<Longrightarrow> r \<in> set rs \<Longrightarrow> region_ok h r \<and> region_bytes r \<subseteq> bytes_of rs"
  by (auto simp: regions_ok_def bytes_of_def)

lemma region_start: "snd r \<noteq> 0 \<Longrightarrow> fst r \<in> region_bytes r"
  by (simp add: region_bytes_def span_start unat_gt_0)

lemma region_ok_start: "region_ok h r \<Longrightarrow> fst r \<in> region_bytes r"
  by (simp add: region_ok_def region_start)

text \<open>Cutting the first \<open>count\<close> pages off a region.\<close>

lemma region_split:
  assumes "region_ok h (pa, n)" and "0 < count" and "count < n"
  shows "region_ok h (pa, count)" and "region_ok h (pa + count * PAGE_SIZE, n - count)"
    and "region_bytes (pa, n) = region_bytes (pa, count) \<union> region_bytes (pa + count * PAGE_SIZE, n - count)"
    and "apart (pa, count) (pa + count * PAGE_SIZE, n - count)"
proof -
  have c: "unat count < unat n" "0 < unat count" using assms by (simp_all add: word_less_nat_alt)
  have b: "unat h + unat pa + 4096 * unat n \<le> 2 ^ 64" using assms by (simp add: region_ok_def)
  have cp: "unat (count * PAGE_SIZE) = 4096 * unat count"
    using unat_mult_nowrap [of count PAGE_SIZE] b c by simp
  have pc: "unat (pa + count * PAGE_SIZE) = unat pa + 4096 * unat count"
    using unat_add_nowrap [of pa "count * PAGE_SIZE"] b c cp by simp
  have nc: "unat (n - count) = unat n - unat count" using assms by (simp add: unat_sub_le)
  show "region_ok h (pa, count)" using assms b c by (auto simp: region_ok_def)
  have "pa + count * PAGE_SIZE \<noteq> 0" using pc c by (metis add_is_0 mult_is_0 not_gr_zero unat_0 zero_neq_numeral)
  then show "region_ok h (pa + count * PAGE_SIZE, n - count)"
    using assms b c pc nc by (auto simp: region_ok_def)
  have "x \<in> region_bytes (pa, k) \<longleftrightarrow> unat pa \<le> unat x \<and> unat x < unat pa + 4096 * unat k"
    if "unat k \<le> unat n" for k x
    unfolding region_bytes_def using b that by (simp add: span_nowrap)
  moreover have "x \<in> region_bytes (pa + count * PAGE_SIZE, n - count) \<longleftrightarrow>
      unat pa + 4096 * unat count \<le> unat x \<and> unat x < unat pa + 4096 * unat n" for x
    unfolding region_bytes_def using b c by (simp add: span_nowrap pc nc diff_mult_distrib2)
  ultimately show "region_bytes (pa, n) = region_bytes (pa, count) \<union> region_bytes (pa + count * PAGE_SIZE, n - count)"
    and "apart (pa, count) (pa + count * PAGE_SIZE, n - count)"
    using c by (auto simp: set_eq_iff)
qed

text \<open>The kernel-virtual addresses that no free region covers.\<close>

definition beyond :: "u64 \<Rightarrow> u64 set \<Rightarrow> u64 set" where
  "beyond h F = {x. x - h \<notin> F}"

lemma beyond_antimono: "F \<subseteq> G \<Longrightarrow> beyond h G \<subseteq> beyond h F"
  by (auto simp: beyond_def)

lemma beyond_shift: "x + h \<in> beyond h F \<longleftrightarrow> x \<notin> F"
  by (simp add: beyond_def)

text \<open>Valid regions that are apart have different, non-null starts, so there are less than \<open>2 ^ 64\<close>.\<close>

lemma regions_ok_length:
  assumes "regions_ok h rs"
  shows "length rs < 2 ^ 64"
proof -
  have "distinct (map fst rs)" using assms
  proof (induction rs)
    case (Cons r rs)
    have "fst r \<noteq> fst r'" if "r' \<in> set rs" for r'
    proof -
      have "fst r' \<in> bytes_of rs" "fst r \<in> region_bytes r"
        using Cons.prems that regions_ok_member [of h rs r'] region_ok_start [of h r] region_ok_start [of h r']
        by auto
      then show ?thesis using Cons.prems by auto
    qed
    then show ?case using Cons by auto
  qed simp
  then have "length rs = card (set (map fst rs))" using distinct_card by fastforce
  also have "\<dots> \<le> card (UNIV - {0 :: u64})"
    using assms by (intro card_mono) (auto simp: regions_ok_def region_ok_def)
  also have "\<dots> < 2 ^ 64" by (simp add: card_word)
  finally show ?thesis .
qed

lemma regions_ok_remove:
  assumes "regions_ok h bs" and "i < length bs"
  defines "rest \<equiv> take i bs @ drop (Suc i) bs"
  shows "region_ok h (bs ! i)" "regions_ok h rest" "region_bytes (bs ! i) \<inter> bytes_of rest = {}"
    "bytes_of bs = region_bytes (bs ! i) \<union> bytes_of rest" "length bs = Suc (length rest)"
proof -
  define xs r ys where "xs = take i bs" and "r = bs ! i" and "ys = drop (Suc i) bs"
  have bs: "bs = xs @ r # ys" using assms(2) by (simp add: xs_def r_def ys_def id_take_nth_drop)
  have "regions_ok h (xs @ r # ys)" using assms(1) bs by simp
  moreover have "bytes_of bs = bytes_of (xs @ r # ys)" "length bs = length (xs @ r # ys)" using bs by simp_all
  ultimately show "region_ok h (bs ! i)" "regions_ok h rest" "region_bytes (bs ! i) \<inter> bytes_of rest = {}"
    "bytes_of bs = region_bytes (bs ! i) \<union> bytes_of rest" "length bs = Suc (length rest)"
    unfolding rest_def xs_def [symmetric] ys_def [symmetric] r_def [symmetric] by auto
qed

section \<open>Clients\<close>

text \<open>
  A client asks for pages, returns a block it holds (by its position in the list of blocks it
  holds), or writes a byte into a block it holds.
\<close>

datatype request = Alloc u64 | Free nat | Store nat u64 u8

fun serve :: "u64 \<Rightarrow> (u64 \<Rightarrow> 's \<Rightarrow> (u64 \<times> 's) exec) \<Rightarrow> (u64 \<Rightarrow> u64 \<Rightarrow> 's \<Rightarrow> 's exec)
    \<Rightarrow> ('s \<Rightarrow> mem) \<Rightarrow> (mem \<Rightarrow> 's \<Rightarrow> 's) \<Rightarrow> request \<Rightarrow> 's \<times> region list \<Rightarrow> ('s \<times> region list) exec" where
  "serve h palloc pfree mem_of set_mem (Alloc count) (s, bs) =
     ebind (palloc count s) (\<lambda>(pa, s'). ret (s', if pa = 0 then bs else (pa, count) # bs))"
| "serve h palloc pfree mem_of set_mem (Free i) (s, bs) =
     (if i < length bs
      then ebind (pfree (fst (bs ! i)) (snd (bs ! i)) s) (\<lambda>s'. ret (s', take i bs @ drop (Suc i) bs))
      else ret (s, bs))"
| "serve h palloc pfree mem_of set_mem (Store i off v) (s, bs) =
     (if i < length bs \<and> unat off < 4096 * unat (snd (bs ! i))
      then ret (set_mem ((mem_of s)(fst (bs ! i) + off + h := v)) s, bs)
      else ret (s, bs))"

locale page_allocator =
  fixes h :: u64
    and palloc :: "u64 \<Rightarrow> 's \<Rightarrow> (u64 \<times> 's) exec"
    and pfree :: "u64 \<Rightarrow> u64 \<Rightarrow> 's \<Rightarrow> 's exec"
    and mem_of :: "'s \<Rightarrow> mem"
    and set_mem :: "mem \<Rightarrow> 's \<Rightarrow> 's"
    and live :: "'s \<Rightarrow> u64"
    and has_free :: "'s \<Rightarrow> u64 set \<Rightarrow> bool"
  assumes palloc_law: "has_free s F \<Longrightarrow> 0 < count \<Longrightarrow>
      \<exists>pa s'. palloc count s = ret (pa, s') \<and> same_on (beyond h F) (mem_of s) (mem_of s')
        \<and> (pa = 0 \<longrightarrow> has_free s' F \<and> live s' = live s)
        \<and> (pa \<noteq> 0 \<longrightarrow> region_ok h (pa, count) \<and> region_bytes (pa, count) \<subseteq> F
              \<and> has_free s' (F - region_bytes (pa, count)) \<and> live s' = live s + 1)"
    and pfree_law: "has_free s F \<Longrightarrow> live s \<noteq> 0 \<Longrightarrow> region_ok h r \<Longrightarrow> region_bytes r \<inter> F = {} \<Longrightarrow>
      \<exists>s'. pfree (fst r) (snd r) s = ret s' \<and> has_free s' (F \<union> region_bytes r) \<and> live s' = live s - 1
        \<and> same_on (beyond h (region_bytes r)) (mem_of s) (mem_of s')"
    and set_mem_law: "has_free s F \<Longrightarrow> same_on (- beyond h F) (mem_of s) m \<Longrightarrow>
      has_free (set_mem m s) F \<and> live (set_mem m s) = live s \<and> mem_of (set_mem m s) = m"
begin

definition accounted :: "u64 set \<Rightarrow> 's \<times> region list \<Rightarrow> bool" where
  "accounted F sb \<longleftrightarrow> (case sb of (s, bs) \<Rightarrow> regions_ok h bs \<and> bytes_of bs \<subseteq> F
     \<and> has_free s (F - bytes_of bs) \<and> live s = of_nat (length bs))"

lemma serve_alloc_accounted:
  assumes "accounted F (s, bs)" and "0 < count"
  shows "\<exists>sb. serve h palloc pfree mem_of set_mem (Alloc count) (s, bs) = ret sb \<and> accounted F sb"
proof -
  have a: "regions_ok h bs" "bytes_of bs \<subseteq> F" "has_free s (F - bytes_of bs)" "live s = of_nat (length bs)"
    using assms by (simp_all add: accounted_def)
  obtain pa s' where s': "palloc count s = ret (pa, s')"
    "pa = 0 \<longrightarrow> has_free s' (F - bytes_of bs) \<and> live s' = live s"
    "pa \<noteq> 0 \<longrightarrow> region_ok h (pa, count) \<and> region_bytes (pa, count) \<subseteq> F - bytes_of bs
       \<and> has_free s' (F - bytes_of bs - region_bytes (pa, count)) \<and> live s' = live s + 1"
    using palloc_law [OF a(3) assms(2)] by blast
  moreover have "F - bytes_of bs - region_bytes (pa, count) = F - bytes_of ((pa, count) # bs)" by auto
  ultimately show ?thesis using a by (auto simp: accounted_def add.commute)
qed

lemma serve_free_accounted:
  assumes "accounted F (s, bs)"
  shows "\<exists>sb. serve h palloc pfree mem_of set_mem (Free i) (s, bs) = ret sb \<and> accounted F sb"
proof (cases "i < length bs")
  case True
  define rest where "rest = take i bs @ drop (Suc i) bs"
  have a: "regions_ok h bs" "bytes_of bs \<subseteq> F" "has_free s (F - bytes_of bs)" "live s = of_nat (length bs)"
    using assms by (simp_all add: accounted_def)
  note r = regions_ok_remove [OF a(1) True, folded rest_def]
  have "length bs < 2 ^ LENGTH(64)" using regions_ok_length [OF a(1)] by simp
  then have "unat (live s) = length bs" unfolding a(4) by (rule unat_of_nat_small)
  then have "live s \<noteq> 0" using True by (metis less_nat_zero_code unat_0)
  then obtain s' where s': "pfree (fst (bs ! i)) (snd (bs ! i)) s = ret s'"
    "has_free s' (F - bytes_of bs \<union> region_bytes (bs ! i))" "live s' = live s - 1"
    using pfree_law [OF a(3) _ r(1)] r(4) by blast
  have "live s' = of_nat (length rest)"
    unfolding s'(3) a(4) r(5) by simp
  moreover have "F - bytes_of bs \<union> region_bytes (bs ! i) = F - bytes_of rest" "bytes_of rest \<subseteq> F"
    using r(3,4) a(2) by blast+
  ultimately have "accounted F (s', rest)"
    unfolding accounted_def using r(2) s'(2) by simp
  then show ?thesis using True s'(1) by (simp add: rest_def)
next
  case False
  then show ?thesis using assms by simp
qed

lemma serve_store_accounted:
  assumes "accounted F (s, bs)"
  shows "\<exists>sb. serve h palloc pfree mem_of set_mem (Store i off v) (s, bs) = ret sb \<and> accounted F sb"
proof (cases "i < length bs \<and> unat off < 4096 * unat (snd (bs ! i))")
  case True
  have a: "regions_ok h bs" "has_free s (F - bytes_of bs)" using assms by (simp_all add: accounted_def)
  have "fst (bs ! i) + off \<in> region_bytes (bs ! i)"
    using True by (simp add: region_bytes_def span_add_mem)
  then have "fst (bs ! i) + off \<in> bytes_of bs" using True by (auto simp: bytes_of_def)
  then have "same_on (- beyond h (F - bytes_of bs)) (mem_of s) ((mem_of s)(fst (bs ! i) + off + h := v))"
    by (auto simp: same_on_def beyond_def)
  from set_mem_law [OF a(2) this] show ?thesis using True assms by (simp add: accounted_def)
next
  case False
  then show ?thesis using assms by auto
qed

lemma serve_accounted:
  assumes "accounted F sb" and "r \<noteq> Alloc 0"
  shows "\<exists>sb'. serve h palloc pfree mem_of set_mem r sb = ret sb' \<and> accounted F sb'"
  using assms serve_alloc_accounted serve_free_accounted serve_store_accounted
  by (cases sb; cases r) (auto simp: word_neq_0_conv simp del: serve.simps)

lemma requests_accounted:
  assumes "accounted F sb" and "Alloc 0 \<notin> set rs"
  shows "\<exists>sb'. for_each (serve h palloc pfree mem_of set_mem) rs sb = ret sb' \<and> accounted F sb'"
  using assms
proof (induction rs arbitrary: sb)
  case (Cons r rs)
  then obtain sb' where "serve h palloc pfree mem_of set_mem r sb = ret sb'" "accounted F sb'"
    using serve_accounted [of F sb r] by auto
  then show ?case using Cons by simp
qed simp

text \<open>The bytes of a block that the client still holds change only by its own stores.\<close>

lemma serve_alloc_frame:
  assumes "accounted F (s, bs)" and "0 < count"
    and "serve h palloc pfree mem_of set_mem (Alloc count) (s, bs) = ret (s', bs')" and "x \<in> bytes_of bs"
  shows "mem_of s' (x + h) = mem_of s (x + h)"
proof -
  have "has_free s (F - bytes_of bs)" using assms(1) by (simp add: accounted_def)
  from palloc_law [OF this assms(2)] assms(3)
  have "same_on (beyond h (F - bytes_of bs)) (mem_of s) (mem_of s')" by (auto simp: exec_simps)
  then show ?thesis using assms(4) by (simp add: same_on_def beyond_shift)
qed

end

end
