(* ===== verification/Boot_Info.thy ===== *)
theory Boot_Info
  imports Kernel_Prelude "HOL-Library.Sublist"
begin

text \<open>
  What the kernel reads from the boot loader, \<^verbatim>\<open>src/src/include/limine/requests.hpp\<close>.
  The Limine protocol is not part of the repository, so its answers, and the numeric codes of
  the memory map entry types, are the fields of a record that the memory components
  take as a parameter.
\<close>

record limine_memmap_entry =
  entry_base :: u64
  entry_length :: u64
  entry_type :: u64

record limine_file =
  file_path :: string
  file_address :: ptr
  file_size :: u64

record limine =
  hhdm_offset :: u64
  memmap_entries :: "limine_memmap_entry list"
  virtual_base :: u64
  physical_base :: u64
  module_response :: "limine_file list option"
  usable :: u64
  bootloader :: u64
  kernel_and_modules :: u64
  framebuffer :: u64

definition get_hhdm :: "limine \<Rightarrow> u64" where
  "get_hhdm L = hhdm_offset L"

text \<open>\<open>std::string_view::ends_with\<close>, and the search for a module by the end of its path.\<close>

definition ends_with :: "string \<Rightarrow> string \<Rightarrow> bool" where
  "ends_with s x = (length x \<le> length s \<and> drop (length s - length x) s = x)"

primrec find_module_from :: "limine_file list \<Rightarrow> string \<Rightarrow> limine_file option" where
  "find_module_from [] name = None"
| "find_module_from (file # rest) name =
     (if ends_with (file_path file) name then Some file else find_module_from rest name)"

definition find_module :: "limine \<Rightarrow> string \<Rightarrow> limine_file option" where
  "find_module L name =
     (case module_response L of None \<Rightarrow> None | Some modules \<Rightarrow> find_module_from modules name)"

lemma ends_with_suffix: "ends_with s x \<longleftrightarrow> suffix x s"
  by (auto simp: ends_with_def suffix_def) (metis append_take_drop_id)

lemma find_module_from_first:
  "find_module_from fs name = Some f \<longleftrightarrow>
     (\<exists>k<length fs. fs ! k = f \<and> suffix name (file_path f) \<and> (\<forall>j<k. \<not> suffix name (file_path (fs ! j))))"
proof (induction fs)
  case Nil
  then show ?case by simp
next
  case (Cons g fs)
  show ?case
  proof (cases "suffix name (file_path g)")
    case True
    then show ?thesis by (auto simp: ends_with_suffix) (metis not_gr_zero nth_Cons_0)
  next
    case False
    then show ?thesis
      by (auto simp: ends_with_suffix Cons.IH Ex_less_Suc2 All_less_Suc2)
  qed
qed

end
