(* ===== verification/Phys_Allocator.thy ===== *)
theory Phys_Allocator
  imports Spin_Lock Page_Interface Boot_Info
begin

text \<open>
  The physical memory manager, \<^verbatim>\<open>src/src/kernel/memory/pmm.cpp\<close>: a singly linked list of
  free regions whose nodes are stored in the first bytes of the regions themselves, reached
  through the higher-half direct map. The theory gives the operations on the byte memory, the
  predicate that reads the list back as a list of regions, and the refinement of each operation
  to its first-fit specification.
\<close>

section \<open>State\<close>

record machine =
  rflags :: u64

record pmm = machine +
  memory :: mem
  g_pmm_irq_lock :: IrqSpinLock
  g_ref_alloc :: u64
  freelist_head :: ptr

text \<open>The fields of a \<open>FreeList\<close> node: \<open>next\<close> at offset 0, \<open>num_pages\<close> at 8, \<open>pa\<close> at 16.\<close>

definition node_next :: "mem \<Rightarrow> ptr \<Rightarrow> ptr" where "node_next m p = read64 m p"

definition node_num_pages :: "mem \<Rightarrow> ptr \<Rightarrow> u64" where "node_num_pages m p = read64 m (p + 8)"

definition node_pa :: "mem \<Rightarrow> ptr \<Rightarrow> u64" where "node_pa m p = read64 m (p + 16)"

lemmas node_defs = node_next_def node_num_pages_def node_pa_def

section \<open>Operations\<close>

definition pmm_acquire :: "'a pmm_scheme \<Rightarrow> 'a pmm_scheme exec" where
  "pmm_acquire s =
     ebind (irq_acquire (rflags s) (g_pmm_irq_lock s))
       (\<lambda>(fl, l). ret (s\<lparr>rflags := fl, g_pmm_irq_lock := l\<rparr>))"

definition pmm_release :: "'a pmm_scheme \<Rightarrow> 'a pmm_scheme" where
  "pmm_release s =
     (let (fl, l) = irq_release (rflags s) (g_pmm_irq_lock s)
      in s\<lparr>rflags := fl, g_pmm_irq_lock := l\<rparr>)"

definition push_list :: "limine \<Rightarrow> u64 \<Rightarrow> u64 \<Rightarrow> 'a pmm_scheme \<Rightarrow> 'a pmm_scheme" where
  "push_list L phys page_amount s =
     (let node = phys + get_hhdm L;
          m = write64 (memory s) (node + 16) phys;
          m = write64 m (node + 8) page_amount;
          m = write64 m node (freelist_head s)
      in s\<lparr>memory := m, freelist_head := node\<rparr>)"

text \<open>The branch of the loop of \<open>alloc\<close> that has found a large enough node.\<close>

definition alloc_take :: "limine \<Rightarrow> u64 \<Rightarrow> ptr \<Rightarrow> ptr \<Rightarrow> 'a pmm_scheme \<Rightarrow> u64 \<times> 'a pmm_scheme" where
  "alloc_take L count prev cur s =
     (let s = (if prev \<noteq> null
               then s\<lparr>memory := write64 (memory s) prev (node_next (memory s) cur)\<rparr>
               else s\<lparr>freelist_head := node_next (memory s) cur\<rparr>);
          s = (if node_num_pages (memory s) cur > count
               then push_list L (node_pa (memory s) cur + count * PAGE_SIZE)
                      (node_num_pages (memory s) cur - count) s
               else s);
          s = s\<lparr>g_ref_alloc := g_ref_alloc s + 1\<rparr>;
          s = pmm_release s
      in (node_pa (memory s) cur, s))"

partial_function (option) alloc_loop ::
  "limine \<Rightarrow> u64 \<Rightarrow> ptr \<Rightarrow> ptr \<Rightarrow> 'a pmm_scheme \<Rightarrow> (u64 \<times> 'a pmm_scheme) exec" where
  "alloc_loop L count prev cur s =
     (if cur \<noteq> null then
        if node_num_pages (memory s) cur \<ge> count then ret (alloc_take L count prev cur s)
        else alloc_loop L count cur (node_next (memory s) cur) s
      else ret (0, pmm_release s))"

definition alloc :: "limine \<Rightarrow> u64 \<Rightarrow> 'a pmm_scheme \<Rightarrow> (u64 \<times> 'a pmm_scheme) exec" where
  "alloc L count s =
     ebind (pmm_acquire s) (\<lambda>s. alloc_loop L count null (freelist_head s) s)"

definition free :: "limine \<Rightarrow> u64 \<Rightarrow> u64 \<Rightarrow> 'a pmm_scheme \<Rightarrow> 'a pmm_scheme exec" where
  "free L phys_mem count s =
     ebind (pmm_acquire s) (\<lambda>s.
       if g_ref_alloc s = 0 then ret (pmm_release s)
       else
         (let s = push_list L phys_mem count s;
              s = s\<lparr>g_ref_alloc := g_ref_alloc s - 1\<rparr>
          in ret (pmm_release s)))"

definition init_pmm_entry :: "limine \<Rightarrow> limine_memmap_entry \<Rightarrow> 'a pmm_scheme \<Rightarrow> 'a pmm_scheme" where
  "init_pmm_entry L entry s =
     (if entry_type entry = usable L then push_list L (entry_base entry) (entry_length entry div PAGE_SIZE) s else s)"

definition init_pmm :: "limine \<Rightarrow> 'a pmm_scheme \<Rightarrow> 'a pmm_scheme" where
  "init_pmm L s = fold (init_pmm_entry L) (memmap_entries L) s"

definition reclaim_bootloader :: "limine \<Rightarrow> u64 \<Rightarrow> u64 \<Rightarrow> u64 \<Rightarrow> 'a pmm_scheme \<Rightarrow> 'a pmm_scheme" where
  "reclaim_bootloader L memap_type phys_mem page_amount s =
     (if memap_type = bootloader L \<and> memap_type \<noteq> 0 \<and> page_amount \<noteq> 0
      then push_list L phys_mem page_amount s else s)"

section \<open>The list in memory\<close>

fun free_seg :: "u64 \<Rightarrow> mem \<Rightarrow> ptr \<Rightarrow> region list \<Rightarrow> ptr \<Rightarrow> bool" where
  "free_seg h m p [] q \<longleftrightarrow> p = q"
| "free_seg h m p (r # rs) q \<longleftrightarrow> p = fst r + h \<and> node_pa m p = fst r \<and> node_num_pages m p = snd r
     \<and> free_seg h m (node_next m p) rs q"

definition node_bytes :: "u64 \<Rightarrow> region \<Rightarrow> u64 set" where
  "node_bytes h r = span (fst r + h) 24"

lemma node_in_region:
  assumes "region_ok h r" and "x \<in> node_bytes h r"
  shows "x - h \<in> region_bytes r"
proof -
  have "24 \<le> 4096 * unat (snd r)"
    using assms(1) unat_gt_0 [of "snd r"] by (simp add: region_ok_def)
  from span_mono [OF this, of "fst r"] show ?thesis
    using assms(2) by (auto simp: node_bytes_def region_bytes_def span_shift_minus)
qed

lemma node_nonnull:
  assumes "region_ok h r"
  shows "fst r + h \<noteq> 0"
proof -
  have n: "0 < unat (fst r)" "0 < unat (snd r)"
    "unat h + unat (fst r) + 4096 * unat (snd r) \<le> 2 ^ 64"
    using assms by (auto simp: region_ok_def unat_gt_0)
  then have "unat (fst r + h) = unat (fst r) + unat h"
    by (intro unat_add_nowrap) simp
  then show ?thesis using n(1) by (metis add_gr_0 less_irrefl unat_0)
qed

lemma node_bytes_disjoint:
  assumes "region_ok h r" and "regions_ok h rs" and "region_bytes r \<inter> bytes_of rs = {}" and "r' \<in> set rs"
  shows "node_bytes h r \<inter> node_bytes h r' = {}"
proof -
  have "region_ok h r'" "region_bytes r' \<subseteq> bytes_of rs"
    using assms(2,4) by (auto simp: regions_ok_def bytes_of_def)
  then show ?thesis using assms(1,3) node_in_region by fast
qed

lemma node_fields_in:
  "span p 8 \<subseteq> span p 24" "span (p + 8) 8 \<subseteq> span p 24" "span (p + 16) 8 \<subseteq> span p 24"
  using span_sub [of 8 8 24 p] span_sub [of 16 8 24 p] span_mono [of 8 24 p] by simp_all

lemma node_fields_apart:
  "span p 8 \<inter> span (p + 8) 8 = {}" "span p 8 \<inter> span (p + 16) 8 = {}"
  "span (p + 8) 8 \<inter> span (p + 16) 8 = {}"
  using span_offsets_disjoint [of 0 8 8 8 p] span_offsets_disjoint [of 0 8 16 8 p]
    span_offsets_disjoint [of 8 8 16 8 p] by simp_all

lemma node_same:
  assumes "same_on (node_bytes h r) m m'"
  shows "node_pa m' (fst r + h) = node_pa m (fst r + h)"
    and "node_num_pages m' (fst r + h) = node_num_pages m (fst r + h)"
    and "node_next m' (fst r + h) = node_next m (fst r + h)"
  using assms node_fields_in [of "fst r + h"]
  by (auto simp: node_defs node_bytes_def intro!: same_on_read64)

lemma free_seg_frame:
  assumes "free_seg h m p rs q" and "\<And>r. r \<in> set rs \<Longrightarrow> same_on (node_bytes h r) m m'"
  shows "free_seg h m' p rs q"
  using assms
proof (induction rs arbitrary: p)
  case (Cons r rs)
  then have "same_on (node_bytes h r) m m'" by simp
  from node_same [OF this] Cons show ?case by auto
qed simp

lemma free_seg_append [simp]:
  "free_seg h m p (rs @ rs') q \<longleftrightarrow> (\<exists>x. free_seg h m p rs x \<and> free_seg h m x rs' q)"
  by (induction rs arbitrary: p) auto

lemma node_set_next:
  "node_next (write64 m p v) p = v"
  "node_pa (write64 m p v) p = node_pa m p"
  "node_num_pages (write64 m p v) p = node_num_pages m p"
  by (simp_all add: node_defs read64_write64_other node_fields_apart)

lemma free_seg_set_tail:
  assumes "free_seg h m p (rs @ [r]) q" and "regions_ok h (rs @ [r])"
  shows "free_seg h (write64 m (fst r + h) v) p (rs @ [r]) v"
proof -
  let ?m = "write64 m (fst r + h) v"
  have "span (fst r + h) 8 \<subseteq> node_bytes h r" using node_fields_in by (auto simp: node_bytes_def)
  then have "same_on (node_bytes h r') m ?m" if "r' \<in> set rs" for r'
    using node_bytes_disjoint [of h r rs r'] assms(2) that by (auto intro!: same_on_write64)
  then have "free_seg h ?m p rs x" if "free_seg h m p rs x" for x
    using that free_seg_frame by blast
  then show ?thesis using assms(1) by (auto simp: node_set_next)
qed

definition pmm_rep :: "limine \<Rightarrow> 'a pmm_scheme \<Rightarrow> region list \<Rightarrow> bool" where
  "pmm_rep L s rs \<longleftrightarrow> free_seg (get_hhdm L) (memory s) (freelist_head s) rs null
     \<and> regions_ok (get_hhdm L) rs"

lemma push_list_same:
  "same_on (- node_bytes (get_hhdm L) (pa, n)) (memory s) (memory (push_list L pa n s))"
  using node_fields_in [of "pa + get_hhdm L"]
  by (auto simp: push_list_def Let_def node_bytes_def intro!: same_on_write64_after)

lemma push_list_rep:
  assumes "pmm_rep L s rs" and "region_ok (get_hhdm L) (pa, n)" and "region_bytes (pa, n) \<inter> bytes_of rs = {}"
  shows "pmm_rep L (push_list L pa n s) ((pa, n) # rs)"
proof -
  let ?h = "get_hhdm L" and ?m = "memory (push_list L pa n s)"
  have "node_bytes ?h r \<subseteq> - node_bytes ?h (pa, n)" if "r \<in> set rs" for r
    using node_bytes_disjoint [OF assms(2) _ assms(3) that] assms(1) by (auto simp: pmm_rep_def)
  then have "free_seg ?h ?m (freelist_head s) rs null"
    using assms(1) free_seg_frame same_on_mono [OF push_list_same] unfolding pmm_rep_def by blast
  moreover have "node_pa ?m (pa + ?h) = pa" "node_num_pages ?m (pa + ?h) = n"
    "node_next ?m (pa + ?h) = freelist_head s" "freelist_head (push_list L pa n s) = pa + ?h"
    by (simp_all add: push_list_def Let_def node_defs read64_write64_other node_fields_apart)
  ultimately show ?thesis using assms by (simp add: pmm_rep_def)
qed

section \<open>First fit\<close>

text \<open>
  The specification of \<open>alloc\<close>: the first region with at least \<open>count\<close> pages leaves the
  list, and what is left of it comes to the front.
\<close>

definition too_small :: "u64 \<Rightarrow> region \<Rightarrow> bool" where
  "too_small count r \<longleftrightarrow> snd r < count"

definition remainder :: "u64 \<Rightarrow> region \<Rightarrow> region list" where
  "remainder count r =
     (if snd r > count then [(fst r + count * PAGE_SIZE, snd r - count)] else [])"

definition first_fit :: "u64 \<Rightarrow> region list \<Rightarrow> u64 \<times> region list" where
  "first_fit count rs =
     (case dropWhile (too_small count) rs of
        [] \<Rightarrow> (0, rs)
      | r # ys \<Rightarrow> (fst r, remainder count r @ takeWhile (too_small count) rs @ ys))"

lemma first_fit_found:
  "list_all (too_small count) xs \<Longrightarrow> \<not> too_small count r \<Longrightarrow>
    first_fit count (xs @ r # ys) = (fst r, remainder count r @ xs @ ys)"
  by (simp add: first_fit_def list_all_iff)

lemma first_fit_none: "list_all (too_small count) xs \<Longrightarrow> first_fit count xs = (0, xs)"
  by (simp add: first_fit_def list_all_iff dropWhile_eq_Nil_conv [THEN iffD2])

lemma remainder_ok:
  assumes "region_ok h r" and "\<not> too_small count r" and "0 < count"
  shows "regions_ok h (remainder count r)" and "region_ok h (fst r, count)"
    and "region_bytes r = region_bytes (fst r, count) \<union> bytes_of (remainder count r)"
    and "region_bytes (fst r, count) \<inter> bytes_of (remainder count r) = {}"
proof -
  consider "count < snd r" | "count = snd r" using assms(2) by (fastforce simp: too_small_def)
  then have "regions_ok h (remainder count r) \<and> region_ok h (fst r, count)
    \<and> region_bytes r = region_bytes (fst r, count) \<union> bytes_of (remainder count r)
    \<and> region_bytes (fst r, count) \<inter> bytes_of (remainder count r) = {}"
  proof cases
    case 1
    with region_split [of h "fst r" "snd r" count] assms show ?thesis by (simp add: remainder_def)
  next
    case 2
    with assms show ?thesis by (simp add: remainder_def)
  qed
  then show "regions_ok h (remainder count r)" and "region_ok h (fst r, count)"
    and "region_bytes r = region_bytes (fst r, count) \<union> bytes_of (remainder count r)"
    and "region_bytes (fst r, count) \<inter> bytes_of (remainder count r) = {}" by blast+
qed

text \<open>What first fit does to the set of free bytes.\<close>

lemma first_fit_ok:
  assumes "regions_ok h rs" and "0 < count" and "first_fit count rs = (pa, rs')"
  shows "regions_ok h rs'"
    and "pa = 0 \<Longrightarrow> rs' = rs \<and> list_all (too_small count) rs"
    and "pa \<noteq> 0 \<Longrightarrow> region_ok h (pa, count) \<and> region_bytes (pa, count) \<subseteq> bytes_of rs
           \<and> bytes_of rs' = bytes_of rs - region_bytes (pa, count)"
proof -
  have "regions_ok h rs' \<and> (pa = 0 \<longrightarrow> rs' = rs \<and> list_all (too_small count) rs)
    \<and> (pa \<noteq> 0 \<longrightarrow> region_ok h (pa, count) \<and> region_bytes (pa, count) \<subseteq> bytes_of rs
           \<and> bytes_of rs' = bytes_of rs - region_bytes (pa, count))"
  proof (cases "list_all (too_small count) rs")
    case True
    then show ?thesis using assms first_fit_none by auto
  next
    case False
    then obtain xs r ys where rs: "rs = xs @ r # ys" and xs: "list_all (too_small count) xs" and r: "\<not> too_small count r"
      by (auto simp: list_all_iff dest!: split_list_first_prop [of rs "\<lambda>r. \<not> too_small count r", simplified])
    have "region_ok h r" using assms(1) rs by simp
    from remainder_ok [OF this r assms(2)] assms first_fit_found [OF xs r, of ys] rs \<open>region_ok h r\<close>
    show ?thesis by (auto simp: region_ok_def)
  qed
  then show "regions_ok h rs'"
    and "pa = 0 \<Longrightarrow> rs' = rs \<and> list_all (too_small count) rs"
    and "pa \<noteq> 0 \<Longrightarrow> region_ok h (pa, count) \<and> region_bytes (pa, count) \<subseteq> bytes_of rs
           \<and> bytes_of rs' = bytes_of rs - region_bytes (pa, count)" by blast+
qed

section \<open>Refinement\<close>

abbreviation set_pmm :: "mem \<Rightarrow> ptr \<Rightarrow> u64 \<Rightarrow> 'a pmm_scheme \<Rightarrow> 'a pmm_scheme" where
  "set_pmm m p g s \<equiv> s\<lparr>memory := m, freelist_head := p, g_ref_alloc := g\<rparr>"

lemma pmm_release_keeps [simp]:
  "memory (pmm_release s) = memory s" "freelist_head (pmm_release s) = freelist_head s"
  "g_ref_alloc (pmm_release s) = g_ref_alloc s"
  by (simp_all add: pmm_release_def split: prod.splits)

lemma unlink_seg:
  assumes "free_seg h m (freelist_head s) xs cur" and "regions_ok h xs" and "memory s = m"
    and "prev = (if xs = [] then null else fst (last xs) + h)"
    and "s' = (if prev \<noteq> null then s\<lparr>memory := write64 m prev v\<rparr> else s\<lparr>freelist_head := v\<rparr>)"
  shows "free_seg h (memory s') (freelist_head s') xs v"
    and "same_on (- (\<Union>r \<in> set xs. node_bytes h r)) m (memory s')"
    and "s' = set_pmm (memory s') (freelist_head s') (g_ref_alloc s) s"
proof -
  have "free_seg h (memory s') (freelist_head s') xs v
    \<and> same_on (- (\<Union>r \<in> set xs. node_bytes h r)) m (memory s')
    \<and> s' = set_pmm (memory s') (freelist_head s') (g_ref_alloc s) s"
  proof (cases xs rule: rev_cases)
    case Nil
    then show ?thesis using assms by simp
  next
    case (snoc zs z)
    then have z: "region_ok h z" and prev: "prev = fst z + h" using assms by auto
    have "span (fst z + h) 8 \<subseteq> node_bytes h z" using node_fields_in by (auto simp: node_bytes_def)
    then have "same_on (- (\<Union>r \<in> set xs. node_bytes h r)) m (write64 m prev v)"
      using snoc prev by (auto intro!: same_on_write64)
    moreover have "free_seg h (write64 m prev v) (freelist_head s) xs v"
      using free_seg_set_tail [of h m "freelist_head s" zs z cur v] assms snoc prev by simp
    ultimately show ?thesis using node_nonnull [OF z] assms(3,5) prev by simp
  qed
  then show "free_seg h (memory s') (freelist_head s') xs v"
    and "same_on (- (\<Union>r \<in> set xs. node_bytes h r)) m (memory s')"
    and "s' = set_pmm (memory s') (freelist_head s') (g_ref_alloc s) s" by blast+
qed

lemma push_remainder:
  assumes "pmm_rep L s zs" and "region_ok (get_hhdm L) r" and "region_bytes r \<inter> bytes_of zs = {}"
    and "\<not> too_small count r" and "0 < count"
    and "s' = (if snd r > count then push_list L (fst r + count * PAGE_SIZE) (snd r - count) s else s)"
  shows "pmm_rep L s' (remainder count r @ zs)"
    and "same_on (- (\<Union>x \<in> set (remainder count r). node_bytes (get_hhdm L) x)) (memory s) (memory s')"
    and "s' = set_pmm (memory s') (freelist_head s') (g_ref_alloc s) s"
proof -
  have "bytes_of (remainder count r) \<inter> bytes_of zs = {}"
    using remainder_ok(3) [OF assms(2,4,5)] assms(3) by blast
  then show "pmm_rep L s' (remainder count r @ zs)"
    using push_list_rep [OF assms(1), of "fst r + count * PAGE_SIZE" "snd r - count"]
      remainder_ok(1) [OF assms(2,4,5)] assms(1,6) by (simp add: remainder_def split: if_splits)
  show "same_on (- (\<Union>x \<in> set (remainder count r). node_bytes (get_hhdm L) x)) (memory s) (memory s')"
    using push_list_same [of L "fst r + count * PAGE_SIZE" "snd r - count" s] assms(6)
    by (simp add: remainder_def)
  show "s' = set_pmm (memory s') (freelist_head s') (g_ref_alloc s) s"
    using assms(6) by (simp add: push_list_def Let_def)
qed

lemma node_in_bytes:
  "regions_ok h rs \<Longrightarrow> (\<Union>r \<in> set rs. node_bytes h r) \<subseteq> - beyond h (bytes_of rs)"
  using node_in_region by (fastforce simp: regions_ok_def beyond_def bytes_of_def)

lemma node_apart_from_others:
  assumes "region_ok h r" and "regions_ok h rs" and "region_bytes r \<inter> bytes_of rs = {}"
  shows "node_bytes h r \<subseteq> - (\<Union>x \<in> set rs. node_bytes h x)"
  using node_bytes_disjoint [OF assms] by blast

lemma alloc_take_refines:
  fixes L :: limine and s :: "'a pmm_scheme"
  defines "h \<equiv> get_hhdm L"
  assumes seg: "free_seg h (memory s) (freelist_head s) xs cur" "free_seg h (memory s) cur (r # ys) null"
    and ok: "regions_ok h (xs @ r # ys)"
    and prev: "prev = (if xs = [] then null else fst (last xs) + h)"
    and count: "\<not> too_small count r" "0 < count"
  shows "\<exists>m p. alloc_take L count prev cur s
      = (fst r, pmm_release (set_pmm m p (g_ref_alloc s + 1) s))
    \<and> free_seg h m p (remainder count r @ xs @ ys) null
    \<and> same_on (beyond h (bytes_of (xs @ r # ys))) (memory s) m"
proof -
  have r: "region_ok h r" "region_bytes r \<inter> bytes_of (xs @ ys) = {}" and oks: "regions_ok h xs" "regions_ok h (xs @ ys)"
    using ok by auto
  define s1 where "s1 = (if prev \<noteq> null
    then s\<lparr>memory := write64 (memory s) prev (node_next (memory s) cur)\<rparr>
    else s\<lparr>freelist_head := node_next (memory s) cur\<rparr>)"
  note u = unlink_seg [OF seg(1) oks(1) refl prev s1_def]
  have others: "same_on (node_bytes h x) (memory s) (memory s1)" if "x \<in> set (r # ys)" for x
  proof -
    have "region_ok h x" "region_bytes x \<subseteq> bytes_of (r # ys)"
      using that ok regions_ok_member [of h "r # ys" x] by auto
    then have "node_bytes h x \<subseteq> - (\<Union>x \<in> set xs. node_bytes h x)"
      using ok by (intro node_apart_from_others) auto
    then show ?thesis by (rule same_on_mono [OF u(2)])
  qed
  have cur: "cur = fst r + h" "node_pa (memory s1) cur = fst r" "node_num_pages (memory s1) cur = snd r"
    using seg(2) node_same [OF others [of r]] by auto
  have "free_seg h (memory s1) (node_next (memory s) cur) ys null"
    using free_seg_frame [of h "memory s" _ ys null "memory s1"] others seg(2) by auto
  with u(1) have rep1: "pmm_rep L s1 (xs @ ys)" using oks(2) by (auto simp: pmm_rep_def h_def)
  define s2 where "s2 = (if snd r > count then push_list L (fst r + count * PAGE_SIZE) (snd r - count) s1 else s1)"
  note p = push_remainder [OF rep1 r[unfolded h_def] count s2_def, folded h_def]
  have "node_bytes h r \<subseteq> - (\<Union>x \<in> set (remainder count r). node_bytes h x)"
    using node_apart_from_others [of h "(fst r, count)" "remainder count r"] remainder_ok [OF r(1) count]
    by (simp add: node_bytes_def)
  from node_same [OF same_on_mono [OF p(2) this]] cur
  have pa: "node_pa (memory s2) cur = fst r" by simp
  have "same_on (beyond h (bytes_of (xs @ r # ys))) (memory s) (memory s1)"
    using node_in_bytes [OF oks(1)] beyond_antimono [of "bytes_of xs" "bytes_of (xs @ r # ys)" h]
    by (intro same_on_mono [OF u(2)]) auto
  moreover have "same_on (beyond h (bytes_of (xs @ r # ys))) (memory s1) (memory s2)"
    using node_in_bytes [of h "remainder count r"] remainder_ok [OF r(1) count]
      beyond_antimono [of "bytes_of (remainder count r)" "bytes_of (xs @ r # ys)" h]
    by (intro same_on_mono [OF p(2)]) auto
  ultimately have frame: "same_on (beyond h (bytes_of (xs @ r # ys))) (memory s) (memory s2)"
    by (rule same_on_trans)
  have "alloc_take L count prev cur s
      = (fst r, pmm_release (set_pmm (memory s2) (freelist_head s2) (g_ref_alloc s + 1) s))"
  proof -
    obtain m1 p1 where s1: "s1 = set_pmm m1 p1 (g_ref_alloc s) s" using u(3) by blast
    obtain m2 p2 where s2: "s2 = set_pmm m2 p2 (g_ref_alloc s1) s1" using p(3) by blast
    have "alloc_take L count prev cur s
        = (node_pa (memory s2) cur, pmm_release (s2\<lparr>g_ref_alloc := g_ref_alloc s2 + 1\<rparr>))"
      unfolding alloc_take_def Let_def s1_def [symmetric] cur(2,3) s2_def [symmetric] by simp
    then show ?thesis using pa by (simp add: s2 s1)
  qed
  moreover have "free_seg h (memory s2) (freelist_head s2) (remainder count r @ xs @ ys) null"
    using p(1) by (simp add: pmm_rep_def h_def)
  ultimately show ?thesis using frame by blast
qed

lemma alloc_loop_refines:
  fixes L :: limine and s :: "'a pmm_scheme"
  defines "h \<equiv> get_hhdm L"
  assumes "free_seg h (memory s) (freelist_head s) xs cur" "free_seg h (memory s) cur ys null"
    and "regions_ok h (xs @ ys)" and "list_all (too_small count) xs"
    and "prev = (if xs = [] then null else fst (last xs) + h)" and "0 < count"
    and "first_fit count (xs @ ys) = (pa, rs')"
  shows "\<exists>m p. alloc_loop L count prev cur s
      = ret (pa, pmm_release (set_pmm m p (if pa = 0 then g_ref_alloc s else g_ref_alloc s + 1) s))
    \<and> free_seg h m p rs' null
    \<and> same_on (beyond h (bytes_of (xs @ ys))) (memory s) m"
  using assms(2-)
proof (induction ys arbitrary: xs cur prev)
  case Nil
  then show ?case
    by (subst alloc_loop.simps) (auto simp: first_fit_none intro!: exI [of _ "memory s"] exI [of _ "freelist_head s"])
next
  case (Cons r ys)
  have r: "region_ok h r" "fst r \<noteq> 0" using Cons.prems(3) by (auto simp: region_ok_def)
  have cur: "cur = fst r + h" "node_num_pages (memory s) cur = snd r" using Cons.prems(2) by auto
  have nn: "cur \<noteq> null" using node_nonnull [OF r(1)] cur by simp
  show ?case
  proof (cases "too_small count r")
    case True
    have "\<exists>m p. alloc_loop L count cur (node_next (memory s) cur) s
        = ret (pa, pmm_release (set_pmm m p (if pa = 0 then g_ref_alloc s else g_ref_alloc s + 1) s))
      \<and> free_seg h m p rs' null \<and> same_on (beyond h (bytes_of ((xs @ [r]) @ ys))) (memory s) m"
      by (rule Cons.IH) (use Cons.prems True cur in auto)
    moreover have "\<not> count \<le> node_num_pages (memory s) cur" using True cur(2) by (simp add: too_small_def)
    ultimately show ?thesis using nn by (subst alloc_loop.simps) simp
  next
    case False
    then have "pa = fst r" "rs' = remainder count r @ xs @ ys"
      using Cons.prems first_fit_found [of count xs r ys] by auto
    then show ?thesis
      using alloc_take_refines [of L s xs cur r ys prev count, folded h_def] Cons.prems False nn cur(2) r(2)
      by (subst alloc_loop.simps) (auto simp: too_small_def not_less)
  qed
qed

text \<open>The lock around an operation: the flags register is as before, the lock free again.\<close>

definition relocked :: "'a pmm_scheme \<Rightarrow> 'a pmm_scheme" where
  "relocked s = s\<lparr>g_pmm_irq_lock := (g_pmm_irq_lock s)\<lparr>lock_flags := rflags s\<rparr>\<rparr>"

abbreviation pmm_unlocked :: "'a pmm_scheme \<Rightarrow> bool" where
  "pmm_unlocked s \<equiv> \<not> lock_held (g_pmm_irq_lock s)"

definition pmm_held :: "'a pmm_scheme \<Rightarrow> 'a pmm_scheme" where
  "pmm_held s = s\<lparr>rflags := cli (rflags s),
     g_pmm_irq_lock := (g_pmm_irq_lock s)\<lparr>inner := \<lparr>data = True\<rparr>, lock_flags := rflags s\<rparr>\<rparr>"

lemma pmm_held_keeps [simp]:
  "memory (pmm_held s) = memory s" "freelist_head (pmm_held s) = freelist_head s"
  "g_ref_alloc (pmm_held s) = g_ref_alloc s"
  by (simp_all add: pmm_held_def)

lemma pmm_acquire_free: "pmm_unlocked s \<Longrightarrow> pmm_acquire s = ret (pmm_held s)"
  by (cases "inner (g_pmm_irq_lock s)") (simp add: pmm_acquire_def irq_acquire_free pmm_held_def)

lemma pmm_release_held:
  assumes "pmm_unlocked s"
  shows "pmm_release (set_pmm m p g (pmm_held s)) = set_pmm m p g (relocked s)"
    and "pmm_release (pmm_held s) = relocked s"
proof -
  have "inner (g_pmm_irq_lock s) = \<lparr>data = False\<rparr>" using assms by (cases "inner (g_pmm_irq_lock s)") simp
  then show "pmm_release (set_pmm m p g (pmm_held s)) = set_pmm m p g (relocked s)"
    and "pmm_release (pmm_held s) = relocked s"
    by (cases s; cases "g_pmm_irq_lock s";
        auto simp: pmm_release_def irq_release_def relocked_def IF_FLAG_test spin_release_def pmm_held_def)+
qed

lemma alloc_refines:
  assumes rep: "pmm_rep L s rs" and "pmm_unlocked s" and "0 < count" and ff: "first_fit count rs = (pa, rs')"
  shows "\<exists>m p s'. alloc L count s = ret (pa, s')
    \<and> s' = set_pmm m p (if pa = 0 then g_ref_alloc s else g_ref_alloc s + 1) (relocked s)
    \<and> pmm_rep L s' rs' \<and> same_on (beyond (get_hhdm L) (bytes_of rs)) (memory s) m"
proof -
  have "\<exists>m p. alloc_loop L count null (freelist_head s) (pmm_held s)
      = ret (pa, pmm_release (set_pmm m p (if pa = 0 then g_ref_alloc s else g_ref_alloc s + 1) (pmm_held s)))
    \<and> free_seg (get_hhdm L) m p rs' null \<and> same_on (beyond (get_hhdm L) (bytes_of ([] @ rs))) (memory s) m"
    using alloc_loop_refines [of L "pmm_held s" "[]" "freelist_head s" rs count null pa rs', unfolded pmm_held_keeps]
      rep assms(3) ff by (simp add: pmm_rep_def if_distrib cong: if_cong)
  then obtain m p where a: "alloc_loop L count null (freelist_head s) (pmm_held s)
      = ret (pa, pmm_release (set_pmm m p (if pa = 0 then g_ref_alloc s else g_ref_alloc s + 1) (pmm_held s)))"
    "free_seg (get_hhdm L) m p rs' null" "same_on (beyond (get_hhdm L) (bytes_of rs)) (memory s) m"
    by auto
  let ?s' = "set_pmm m p (if pa = 0 then g_ref_alloc s else g_ref_alloc s + 1) (relocked s)"
  have "alloc L count s = ret (pa, ?s')"
    unfolding alloc_def pmm_acquire_free [OF assms(2)] ebind_simps pmm_held_keeps a(1)
    by (simp only: pmm_release_held [OF assms(2)])
  moreover have "pmm_rep L ?s' rs'"
    using first_fit_ok(1) [OF _ assms(3) ff] rep a(2) by (simp add: pmm_rep_def)
  ultimately show ?thesis using a(3) by metis
qed

lemma free_refines:
  assumes rep: "pmm_rep L s rs" and "pmm_unlocked s" and "g_ref_alloc s \<noteq> 0"
    and r: "region_ok (get_hhdm L) (pa, n)" "region_bytes (pa, n) \<inter> bytes_of rs = {}"
  shows "\<exists>m p s'. free L pa n s = ret s' \<and> s' = set_pmm m p (g_ref_alloc s - 1) (relocked s)
    \<and> pmm_rep L s' ((pa, n) # rs) \<and> same_on (- node_bytes (get_hhdm L) (pa, n)) (memory s) m"
proof -
  let ?m = "memory (push_list L pa n (pmm_held s))" and ?p = "freelist_head (push_list L pa n (pmm_held s))"
  have "pmm_rep L (pmm_held s) rs" using rep by (simp add: pmm_rep_def)
  from push_list_rep [OF this r] have "pmm_rep L (set_pmm ?m ?p (g_ref_alloc s - 1) (relocked s)) ((pa, n) # rs)"
    by (simp add: pmm_rep_def del: free_seg.simps)
  moreover have "pmm_release ((push_list L pa n (pmm_held s))\<lparr>g_ref_alloc := g_ref_alloc s - 1\<rparr>)
      = pmm_release (set_pmm ?m ?p (g_ref_alloc s - 1) (pmm_held s))"
    by (simp add: push_list_def Let_def)
  then have "free L pa n s = ret (set_pmm ?m ?p (g_ref_alloc s - 1) (relocked s))"
    using assms(2,3) by (simp add: free_def pmm_acquire_free pmm_release_held Let_def push_list_def)
  ultimately show ?thesis using push_list_same [of L pa n "pmm_held s", unfolded pmm_held_keeps] by blast
qed

text \<open>With no allocation outstanding \<open>free\<close> ignores its arguments.\<close>

lemma free_ignored:
  assumes "pmm_unlocked s" and "g_ref_alloc s = 0"
  shows "free L pa n s = ret (relocked s)"
  using assms by (simp add: free_def pmm_acquire_free pmm_release_held)

section \<open>Start-up\<close>

text \<open>
  What the Limine protocol documents of the memory map: usable and reclaimable entries are
  page aligned, not empty, apart from each other and from the page at address 0, and lie inside
  the direct map.
\<close>

definition entry_region :: "limine_memmap_entry \<Rightarrow> region" where
  "entry_region e = (entry_base e, entry_length e div PAGE_SIZE)"

definition memmap_ok :: "limine \<Rightarrow> bool" where
  "memmap_ok L \<longleftrightarrow> regions_ok (get_hhdm L)
     (map entry_region (filter (\<lambda>e. entry_type e = usable L) (memmap_entries L)))"

lemma init_pmm_fold:
  assumes "pmm_rep L s rs"
    and "regions_ok (get_hhdm L) (map entry_region (filter (\<lambda>e. entry_type e = usable L) es))"
    and "bytes_of (map entry_region (filter (\<lambda>e. entry_type e = usable L) es)) \<inter> bytes_of rs = {}"
  shows "pmm_rep L (fold (init_pmm_entry L) es s)
    (rev (map entry_region (filter (\<lambda>e. entry_type e = usable L) es)) @ rs)"
  using assms
proof (induction es arbitrary: s rs)
  case (Cons e es)
  show ?case
  proof (cases "entry_type e = usable L")
    case True
    have "pmm_rep L (init_pmm_entry L e s) (entry_region e # rs)"
      using Cons.prems True push_list_rep [of L s rs "entry_base e" "entry_length e div PAGE_SIZE"]
      by (auto simp: init_pmm_entry_def entry_region_def)
    moreover have "bytes_of (map entry_region (filter (\<lambda>e. entry_type e = usable L) es))
        \<inter> bytes_of (entry_region e # rs) = {}"
      using Cons.prems True by auto
    ultimately show ?thesis using Cons.IH [of "init_pmm_entry L e s" "entry_region e # rs"] Cons.prems True by simp
  next
    case False
    then show ?thesis using Cons by (simp add: init_pmm_entry_def)
  qed
qed simp

lemma init_pmm_rep:
  assumes "memmap_ok L" and "freelist_head s = null"
  shows "pmm_rep L (init_pmm L s)
    (rev (map entry_region (filter (\<lambda>e. entry_type e = usable L) (memmap_entries L))))"
  using init_pmm_fold [of L s "[]" "memmap_entries L"] assms
  by (simp add: init_pmm_def memmap_ok_def pmm_rep_def)

lemma init_pmm_keeps:
  "g_ref_alloc (init_pmm L s) = g_ref_alloc s" "g_pmm_irq_lock (init_pmm L s) = g_pmm_irq_lock s"
proof -
  have "g_ref_alloc (fold (init_pmm_entry L) es s) = g_ref_alloc s
      \<and> g_pmm_irq_lock (fold (init_pmm_entry L) es s) = g_pmm_irq_lock s" for es
    by (induction es arbitrary: s) (simp_all add: init_pmm_entry_def push_list_def Let_def)
  then show "g_ref_alloc (init_pmm L s) = g_ref_alloc s" "g_pmm_irq_lock (init_pmm L s) = g_pmm_irq_lock s"
    by (simp_all add: init_pmm_def)
qed

section \<open>The physical allocator keeps the page allocator contract\<close>

definition pmm_has_free :: "limine \<Rightarrow> 'a pmm_scheme \<Rightarrow> u64 set \<Rightarrow> bool" where
  "pmm_has_free L s F \<longleftrightarrow> pmm_unlocked s \<and> (\<exists>rs. pmm_rep L s rs \<and> F = bytes_of rs)"

lemma relocked_keeps [simp]:
  "pmm_unlocked (relocked s) = pmm_unlocked s" "rflags (relocked s) = rflags s"
  "memory (relocked s) = memory s" "g_ref_alloc (relocked s) = g_ref_alloc s"
  "freelist_head (relocked s) = freelist_head s"
  by (simp_all add: relocked_def)

lemma alloc_law:
  assumes "pmm_has_free L s F" and "0 < count"
  shows "\<exists>pa s'. alloc L count s = ret (pa, s') \<and> same_on (beyond (get_hhdm L) F) (memory s) (memory s')
    \<and> (pa = 0 \<longrightarrow> pmm_has_free L s' F \<and> g_ref_alloc s' = g_ref_alloc s)
    \<and> (pa \<noteq> 0 \<longrightarrow> region_ok (get_hhdm L) (pa, count) \<and> region_bytes (pa, count) \<subseteq> F
          \<and> pmm_has_free L s' (F - region_bytes (pa, count)) \<and> g_ref_alloc s' = g_ref_alloc s + 1)"
proof -
  obtain rs where rs: "pmm_unlocked s" "pmm_rep L s rs" "F = bytes_of rs"
    using assms(1) by (auto simp: pmm_has_free_def)
  obtain pa rs' where ff: "first_fit count rs = (pa, rs')" by fastforce
  obtain m p s' where s': "alloc L count s = ret (pa, s')" "pmm_rep L s' rs'"
    "s' = set_pmm m p (if pa = 0 then g_ref_alloc s else g_ref_alloc s + 1) (relocked s)"
    "same_on (beyond (get_hhdm L) F) (memory s) m"
    using alloc_refines [OF rs(2,1) assms(2) ff] rs(3) by auto
  have "memory s' = m" "pmm_unlocked s'" using s'(3) rs(1) by simp_all
  with s' first_fit_ok [OF _ assms(2) ff, of "get_hhdm L"] rs show ?thesis
    by (auto simp: pmm_has_free_def pmm_rep_def)
qed

text \<open>A single page is refused only when no byte is free; what lies outside the allocator is kept.\<close>

definition pmm_rest :: "'a pmm_scheme \<Rightarrow> 'a pmm_scheme \<Rightarrow> bool" where
  "pmm_rest s s' \<longleftrightarrow> rflags s' = rflags s \<and> pmm.more s' = pmm.more s"

lemma pmm_rest_refl [simp]: "pmm_rest s s"
  by (simp add: pmm_rest_def)

lemma pmm_rest_trans: "pmm_rest s s' \<Longrightarrow> pmm_rest s' s'' \<Longrightarrow> pmm_rest s s''"
  by (simp add: pmm_rest_def)

lemma pmm_rest_set [simp]: "pmm_rest s (s'\<lparr>memory := m\<rparr>) = pmm_rest s s'"
  by (simp add: pmm_rest_def)

lemma alloc_keeps_rest:
  assumes "pmm_has_free L s F" and "0 < count" and "alloc L count s = ret (pa, s')"
  shows "pmm_rest s s'"
proof -
  obtain rs where rs: "pmm_unlocked s" "pmm_rep L s rs" using assms(1) by (auto simp: pmm_has_free_def)
  obtain pa' rs' where ff: "first_fit count rs = (pa', rs')" by fastforce
  show ?thesis using alloc_refines [OF rs(2,1) assms(2) ff] assms(3) by (auto simp: pmm_rest_def relocked_def)
qed

lemma alloc_one_page:
  assumes "pmm_has_free L s F" and "F \<noteq> {}"
  obtains pa s' where "alloc L 1 s = ret (pa, s')" "pa \<noteq> 0" "region_ok (get_hhdm L) (pa, 1)"
    "region_bytes (pa, 1) \<subseteq> F" "pmm_has_free L s' (F - region_bytes (pa, 1))"
    "same_on (beyond (get_hhdm L) F) (memory s) (memory s')" "g_ref_alloc s' = g_ref_alloc s + 1" "pmm_rest s s'"
proof -
  obtain rs where rs: "pmm_unlocked s" "pmm_rep L s rs" "F = bytes_of rs"
    using assms(1) by (auto simp: pmm_has_free_def)
  obtain pa rs' where ff: "first_fit 1 rs = (pa, rs')" by fastforce
  obtain s' where s': "alloc L 1 s = ret (pa, s')" using alloc_refines [OF rs(2,1) _ ff] by auto
  obtain r zs where r: "rs = r # zs" using rs(3) assms(2) by (cases rs) auto
  then have "snd r \<noteq> 0" using rs(2) by (auto simp: pmm_rep_def region_ok_def)
  then have "\<not> list_all (too_small 1) rs" using r by (simp add: too_small_def word_less_1)
  then have "pa \<noteq> 0" using first_fit_ok(2) [OF _ _ ff, of "get_hhdm L"] rs(2) by (auto simp: pmm_rep_def)
  then show thesis
    using that [OF s'] alloc_law [OF assms(1), of 1] s' alloc_keeps_rest [OF assms(1) _ s'] by auto
qed

lemma alloc_no_page:
  assumes "pmm_has_free L s {}"
  shows "\<exists>s'. alloc L 1 s = ret (0, s')"
proof -
  obtain rs where rs: "pmm_unlocked s" "pmm_rep L s rs" "bytes_of rs = {}"
    using assms by (auto simp: pmm_has_free_def)
  have "rs = []"
  proof (cases rs)
    case (Cons r zs)
    then show ?thesis using rs region_ok_start [of "get_hhdm L" r] by (auto simp: pmm_rep_def)
  qed
  then show ?thesis using alloc_refines [OF rs(2,1), of 1 0 "[]"] by (auto simp: first_fit_def)
qed

lemma free_law:
  assumes "pmm_has_free L s F" and "g_ref_alloc s \<noteq> 0"
    and "region_ok (get_hhdm L) r" and "region_bytes r \<inter> F = {}"
  shows "\<exists>s'. free L (fst r) (snd r) s = ret s' \<and> pmm_has_free L s' (F \<union> region_bytes r)
    \<and> g_ref_alloc s' = g_ref_alloc s - 1
    \<and> same_on (beyond (get_hhdm L) (region_bytes r)) (memory s) (memory s')"
proof -
  obtain rs where rs: "pmm_unlocked s" "pmm_rep L s rs" "F = bytes_of rs"
    using assms(1) by (auto simp: pmm_has_free_def)
  obtain m p s' where s': "free L (fst r) (snd r) s = ret s'" "pmm_rep L s' (r # rs)"
    "s' = set_pmm m p (g_ref_alloc s - 1) (relocked s)"
    "same_on (- node_bytes (get_hhdm L) r) (memory s) m"
    using free_refines [OF rs(2,1) assms(2), of "fst r" "snd r"] rs(3) assms(3,4) by auto
  have "memory s' = m" "pmm_unlocked s'" "g_ref_alloc s' = g_ref_alloc s - 1" using s'(3) rs(1) by simp_all
  moreover have "beyond (get_hhdm L) (region_bytes r) \<subseteq> - node_bytes (get_hhdm L) r"
    using node_in_region [OF assms(3)] by (auto simp: beyond_def)
  moreover have "pmm_has_free L s' (F \<union> region_bytes r)"
    using calculation(2) s'(2) rs(3) unfolding pmm_has_free_def by (intro conjI exI [of _ "r # rs"]) auto
  ultimately show ?thesis using s'(1,4) same_on_mono by metis
qed

lemma store_law:
  assumes "pmm_has_free L s F" and "same_on (- beyond (get_hhdm L) F) (memory s) m"
  shows "pmm_has_free L (s\<lparr>memory := m\<rparr>) F"
proof -
  obtain rs where rs: "pmm_unlocked s" "pmm_rep L s rs" "F = bytes_of rs"
    using assms(1) by (auto simp: pmm_has_free_def)
  then have "regions_ok (get_hhdm L) rs" by (simp add: pmm_rep_def)
  from node_in_bytes [OF this]
  have "same_on (node_bytes (get_hhdm L) r) (memory s) m" if "r \<in> set rs" for r
    using that rs(3) by (intro same_on_mono [OF assms(2)]) auto
  with rs show ?thesis
    by (auto simp: pmm_has_free_def pmm_rep_def intro!: exI [of _ rs] elim: free_seg_frame)
qed

interpretation phys: page_allocator "get_hhdm L" "alloc L" "free L" memory "\<lambda>m s. s\<lparr>memory := m\<rparr>"
    g_ref_alloc "pmm_has_free L" for L
  by unfold_locales (use alloc_law free_law store_law in auto)

section \<open>Properties\<close>

text \<open>
  Claim C8. On a well-formed free list, a request for at least one page is served first-fit: \<open>alloc\<close>
  returns the address of the first region with enough pages, or 0 exactly when every region
  is too small; the list it leaves is well formed again (regions apart, aligned, inside the direct
  map), the lock is free, the flags register is unchanged, the count of allocations is
  advanced exactly on success, and no byte outside the free regions has changed.
\<close>

theorem alloc_serves_first_fit:
  assumes "pmm_rep L s rs" and "pmm_unlocked s" and "0 < count"
  shows "\<exists>pa s'. alloc L count s = ret (pa, s') \<and> pa = fst (first_fit count rs)
    \<and> pmm_rep L s' (snd (first_fit count rs))
    \<and> (pa = 0 \<longleftrightarrow> list_all (too_small count) rs)
    \<and> g_ref_alloc s' = (if pa = 0 then g_ref_alloc s else g_ref_alloc s + 1)
    \<and> pmm_unlocked s' \<and> rflags s' = rflags s
    \<and> same_on (beyond (get_hhdm L) (bytes_of rs)) (memory s) (memory s')"
proof -
  obtain pa rs' where ff: "first_fit count rs = (pa, rs')" by fastforce
  obtain m p s' where s': "alloc L count s = ret (pa, s')" "pmm_rep L s' rs'"
    "s' = set_pmm m p (if pa = 0 then g_ref_alloc s else g_ref_alloc s + 1) (relocked s)"
    "same_on (beyond (get_hhdm L) (bytes_of rs)) (memory s) m"
    using alloc_refines [OF assms ff] by auto
  have "g_ref_alloc s' = (if pa = 0 then g_ref_alloc s else g_ref_alloc s + 1)"
    "pmm_unlocked s'" "rflags s' = rflags s" "memory s' = m"
    using s'(3) assms(2) by simp_all
  moreover have "pa = 0 \<longleftrightarrow> list_all (too_small count) rs"
    using first_fit_ok(2) [OF _ assms(3) ff] first_fit_none [of count rs] assms(1) ff by (auto simp: pmm_rep_def)
  ultimately show ?thesis using s'(1,2,4) ff by auto
qed

text \<open>A machine with one usable region of 4 pages at \<open>0x10000\<close>, and its direct map.\<close>

definition small_map :: limine where
  "small_map = \<lparr>hhdm_offset = 0xffff800000000000,
     memmap_entries = [\<lparr>entry_base = 0x10000, entry_length = 0x4000, entry_type = 0\<rparr>],
     virtual_base = 0xffffffff80000000, physical_base = 0x200000, module_response = None,
     usable = 0, bootloader = 5, kernel_and_modules = 6, framebuffer = 7\<rparr>"

definition blank_pmm :: pmm where
  "blank_pmm = \<lparr>rflags = 0x202, memory = (\<lambda>_. 0),
     g_pmm_irq_lock = \<lparr>lock_flags = 0, inner = fresh_lock\<rparr>, g_ref_alloc = 0, freelist_head = null\<rparr>"

lemma small_map_ok: "memmap_ok small_map"
  by (simp add: memmap_ok_def small_map_def entry_region_def region_ok_def get_hhdm_def PAGE_SIZE_def)

lemma blank_pmm_ok: "pmm_unlocked blank_pmm" "freelist_head blank_pmm = null" "g_ref_alloc blank_pmm = 0"
  by (simp_all add: blank_pmm_def fresh_lock_def)

lemma small_map_rep: "pmm_rep small_map (init_pmm small_map blank_pmm) [(0x10000, 4)]"
  using init_pmm_rep [OF small_map_ok, of blank_pmm] blank_pmm_ok(2)
  by (simp add: small_map_def entry_region_def PAGE_SIZE_def)

theorem alloc_serves_first_fit_witness:
  "\<exists>s'. alloc small_map 3 (init_pmm small_map blank_pmm) = ret (0x10000, s')
     \<and> pmm_rep small_map s' [(0x13000, 1)]"
proof -
  have "pmm_unlocked (init_pmm small_map blank_pmm)" by (simp add: init_pmm_keeps blank_pmm_ok)
  from alloc_serves_first_fit [OF small_map_rep this, of 3]
  show ?thesis by (auto simp: first_fit_def too_small_def remainder_def PAGE_SIZE_def)
qed



text \<open>
  Claim C30. A request for 0 pages does not fail when there is free memory: \<open>alloc\<close> counts an
  allocation and returns the address of the first free region, which stays on the free list
  with all of its pages, so the next request is given the same memory.
\<close>

theorem alloc_zero_hands_out_free_memory:
  assumes "pmm_rep L s ((pa, n) # rs)" and "pmm_unlocked s"
  shows "\<exists>s'. alloc L 0 s = ret (pa, s') \<and> pmm_rep L s' ((pa, n) # rs)
    \<and> g_ref_alloc s' = g_ref_alloc s + 1"
proof -
  let ?h = "get_hhdm L"
  let ?u = "(pmm_held s)\<lparr>freelist_head := node_next (memory s) (pa + ?h)\<rparr>"
  let ?p = "push_list L pa n ?u"
  have h: "freelist_head s = pa + ?h" "node_pa (memory s) (pa + ?h) = pa" "node_num_pages (memory s) (pa + ?h) = n"
    and n: "0 < n" "pa + ?h \<noteq> 0"
    using assms(1) node_nonnull [of ?h "(pa, n)"] by (auto simp: pmm_rep_def region_ok_def word_gt_0)
  have "pmm_rep L ?u rs" "region_ok ?h (pa, n)" "region_bytes (pa, n) \<inter> bytes_of rs = {}"
    using assms(1) by (auto simp: pmm_rep_def)
  from push_list_rep [OF this] have rep: "pmm_rep L ?p ((pa, n) # rs)" .
  have "alloc_take L 0 null (pa + ?h) (pmm_held s)
      = (node_pa (memory ?p) (pa + ?h), pmm_release (?p\<lparr>g_ref_alloc := g_ref_alloc ?p + 1\<rparr>))"
    using h n by (simp add: alloc_take_def Let_def)
  moreover have "node_pa (memory ?p) (pa + ?h) = pa" using rep by (auto simp: pmm_rep_def)
  ultimately have "alloc L 0 s = ret (pa, pmm_release (?p\<lparr>g_ref_alloc := g_ref_alloc ?p + 1\<rparr>))"
    using h n by (simp add: alloc_def pmm_acquire_free [OF assms(2)] alloc_loop.simps)
  moreover have "pmm_rep L (pmm_release (?p\<lparr>g_ref_alloc := g_ref_alloc ?p + 1\<rparr>)) ((pa, n) # rs)"
    using rep by (simp add: pmm_rep_def del: free_seg.simps)
  moreover have "g_ref_alloc ?p = g_ref_alloc s" by (simp add: push_list_def Let_def)
  ultimately show ?thesis by simp
qed

theorem alloc_zero_hands_out_free_memory_witness:
  "\<exists>s'. alloc small_map 0 (init_pmm small_map blank_pmm) = ret (0x10000, s')
     \<and> pmm_rep small_map s' [(0x10000, 4)]"
  using alloc_zero_hands_out_free_memory [OF small_map_rep] by (auto simp: init_pmm_keeps blank_pmm_ok)

end
