(* ===== verification/Kernel_Heap.thy ===== *)
theory Kernel_Heap
  imports Phys_Allocator
begin

text \<open>
  The kernel heap, \<^verbatim>\<open>src/src/kernel/memory/heap.cpp\<close>: every block is a whole number
  of pages with a 16-byte header, the page count, before the bytes given to the caller.
\<close>

definition sizeof_KmallocHeader :: u64 where "sizeof_KmallocHeader = 16"

definition bytes_to_pages :: "u64 \<Rightarrow> u64" where
  "bytes_to_pages bytes =
     bytes div PAGE_SIZE + (if bytes mod PAGE_SIZE \<noteq> 0 then 1 else 0)"

definition kmalloc :: "limine \<Rightarrow> u64 \<Rightarrow> 'a pmm_scheme \<Rightarrow> (ptr \<times> 'a pmm_scheme) exec" where
  "kmalloc L kb s =
     (let pages = bytes_to_pages (kb + sizeof_KmallocHeader) in
      ebind (alloc L pages s) (\<lambda>(pa, s).
        (let header = pa + hhdm_offset L;
             s = s\<lparr>memory := write64 (memory s) header pages\<rparr>
         in ret (header + sizeof_KmallocHeader, s))))"

definition kmalloc_free :: "limine \<Rightarrow> ptr \<Rightarrow> 'a pmm_scheme \<Rightarrow> 'a pmm_scheme exec" where
  "kmalloc_free L k_ptr s =
     (let header = k_ptr - sizeof_KmallocHeader;
          pa = header - get_hhdm L
      in free L pa (read64 (memory s) header) s)"

definition operator_new :: "limine \<Rightarrow> u64 \<Rightarrow> 'a pmm_scheme \<Rightarrow> (ptr \<times> 'a pmm_scheme) exec" where
  "operator_new L kb s = kmalloc L kb s"

definition operator_delete :: "limine \<Rightarrow> ptr \<Rightarrow> 'a pmm_scheme \<Rightarrow> 'a pmm_scheme exec" where
  "operator_delete L p s = kmalloc_free L p s"

lemma div_round_up: "x div 4096 + (if x mod 4096 \<noteq> 0 then 1 else 0) = (x + 4095) div (4096 :: nat)"
proof (rule sym, rule div_nat_eqI)
  have x: "x = 4096 * (x div 4096) + x mod 4096" "x mod 4096 < 4096" by simp_all
  show "4096 * (x div 4096 + (if x mod 4096 \<noteq> 0 then 1 else 0)) \<le> x + 4095"
    and "x + 4095 < 4096 * Suc (x div 4096 + (if x mod 4096 \<noteq> 0 then 1 else 0))"
    using x by (cases "x mod 4096 = 0"; simp add: field_simps; linarith)+
qed

lemma unat_bytes_to_pages: "unat (bytes_to_pages b) = (unat b + 4095) div 4096"
proof -
  have d: "unat (b div PAGE_SIZE) = unat b div 4096" "unat (b mod PAGE_SIZE) = unat b mod 4096"
    by (simp_all add: unat_div unat_mod)
  have "unat (b div PAGE_SIZE + 1) = unat b div 4096 + 1"
    using unat_add_nowrap [of "b div PAGE_SIZE" 1] d u64_less_2p64 [of b] by simp
  moreover have "b mod PAGE_SIZE \<noteq> 0 \<longleftrightarrow> unat b mod 4096 \<noteq> 0"
    using d(2) by (metis unat_eq_zero)
  ultimately have "unat (bytes_to_pages b) = unat b div 4096 + (if unat b mod 4096 \<noteq> 0 then 1 else 0)"
    using d(1) by (simp add: bytes_to_pages_def)
  also have "\<dots> = (unat b + 4095) div 4096" by (rule div_round_up)
  finally show ?thesis .
qed

section \<open>A heap block from \<open>kmalloc\<close> to \<open>kmalloc_free\<close>\<close>

text \<open>The pages that \<open>kmalloc\<close> asks for hold the header and the \<open>kb\<close> bytes of the caller.\<close>

lemma heap_pages:
  assumes "unat kb + 16 < 2 ^ 64"
  shows "0 < bytes_to_pages (kb + 16)" and "16 + unat kb \<le> 4096 * unat (bytes_to_pages (kb + 16))"
proof -
  have "unat (kb + 16) = unat kb + 16" using unat_add_nowrap [of kb 16] assms by simp
  then have p: "unat (bytes_to_pages (kb + 16)) = (unat kb + 16 + 4095) div 4096"
    by (simp add: unat_bytes_to_pages)
  show "16 + unat kb \<le> 4096 * unat (bytes_to_pages (kb + 16))" unfolding p by simp
  then show "0 < bytes_to_pages (kb + 16)" by (cases "bytes_to_pages (kb + 16) = 0") (simp_all add: word_gt_0)
qed

lemma heap_payload:
  assumes "region_ok h (pa, n)" and "16 + l \<le> 4096 * unat n"
  shows "span (pa + 16) l \<subseteq> region_bytes (pa, n)" and "span (pa + h) 8 \<inter> span (pa + h + 16) l = {}"
    and "span (pa + h) 8 \<subseteq> - beyond h (region_bytes (pa, n))"
proof -
  have n: "4096 * unat n \<le> 2 ^ 64" using assms(1) by (simp add: region_ok_def)
  show "span (pa + 16) l \<subseteq> region_bytes (pa, n)"
    unfolding region_bytes_def using span_sub [of 16 l "4096 * unat n" pa] assms(2) n by simp
  show "span (pa + h) 8 \<inter> span (pa + h + 16) l = {}"
    using span_offsets_disjoint [of 0 8 16 l "pa + h"] assms(2) n by simp
  show "span (pa + h) 8 \<subseteq> - beyond h (region_bytes (pa, n))"
    using node_in_region [OF assms(1)] span_mono [of 8 24 "pa + h"]
    by (auto simp: beyond_def node_bytes_def)
qed

lemma kmalloc_block:
  assumes "pmm_has_free L s F" and "unat kb + 16 < 2 ^ 64"
    and "alloc L (bytes_to_pages (kb + 16)) s = ret (pa, s\<^sub>a)" and "pa \<noteq> 0"
  defines "B \<equiv> region_bytes (pa, bytes_to_pages (kb + 16))" and "h \<equiv> get_hhdm L"
  shows "\<exists>s'. kmalloc L kb s = ret (pa + h + 16, s') \<and> pmm_has_free L s' (F - B)
    \<and> region_ok h (pa, bytes_to_pages (kb + 16)) \<and> B \<subseteq> F \<and> span (pa + 16) (unat kb) \<subseteq> B
    \<and> read64 (memory s') (pa + h) = bytes_to_pages (kb + 16) \<and> g_ref_alloc s' = g_ref_alloc s + 1
    \<and> same_on (beyond h F) (memory s) (memory s')"
proof -
  note n = heap_pages [OF assms(2)]
  have a: "region_ok h (pa, bytes_to_pages (kb + 16))" "B \<subseteq> F" "pmm_has_free L s\<^sub>a (F - B)"
    "g_ref_alloc s\<^sub>a = g_ref_alloc s + 1" "same_on (beyond h F) (memory s) (memory s\<^sub>a)"
    using alloc_law [OF assms(1) n(1)] assms(3,4) unfolding B_def h_def by auto
  note p = heap_payload [OF a(1) n(2), folded B_def]
  let ?m = "write64 (memory s\<^sub>a) (pa + h) (bytes_to_pages (kb + 16))"
  have "same_on (- beyond h (F - B)) (memory s\<^sub>a) ?m" "same_on (beyond h F) (memory s\<^sub>a) ?m"
    using p(3) a(2) by (intro same_on_write64; fastforce simp: beyond_def)+
  then have "pmm_has_free L (s\<^sub>a\<lparr>memory := ?m\<rparr>) (F - B)" "same_on (beyond h F) (memory s) ?m"
    using store_law [OF a(3), folded h_def] a(5) same_on_trans by blast+
  then show ?thesis
    using a p assms(3) by (simp add: kmalloc_def sizeof_KmallocHeader_def get_hhdm_def h_def Let_def)
qed

section \<open>Properties\<close>

text \<open>
  Claim C17. When the physical allocator can serve it, \<open>kmalloc\<close> returns a pointer to \<open>kb\<close>
  bytes of memory that was free, leaving every other byte in use untouched; and whatever the caller
  then writes to those bytes, \<open>kmalloc_free\<close> finds its header intact and gives the whole block
  back, so that the set of free bytes and the allocation count are as before.
\<close>

theorem heap_block_lifecycle:
  assumes "pmm_has_free L s F" and "unat kb + 16 < 2 ^ 64" and "g_ref_alloc s + 1 \<noteq> 0"
    and "alloc L (bytes_to_pages (kb + 16)) s = ret (pa, s\<^sub>a)" and "pa \<noteq> 0"
  shows "\<exists>p s'. kmalloc L kb s = ret (p, s') \<and> span (p - get_hhdm L) (unat kb) \<subseteq> F
    \<and> (\<exists>G \<subseteq> F. pmm_has_free L s' G \<and> G \<inter> span (p - get_hhdm L) (unat kb) = {})
    \<and> same_on (beyond (get_hhdm L) F) (memory s) (memory s')
    \<and> (\<forall>m. same_on (- span p (unat kb)) (memory s') m \<longrightarrow>
         (\<exists>s''. kmalloc_free L p (s'\<lparr>memory := m\<rparr>) = ret s'' \<and> pmm_has_free L s'' F
            \<and> g_ref_alloc s'' = g_ref_alloc s))"
proof -
  let ?h = "get_hhdm L" and ?n = "bytes_to_pages (kb + 16)"
  let ?B = "region_bytes (pa, ?n)" and ?p = "pa + get_hhdm L + 16"
  obtain s' where s': "kmalloc L kb s = ret (?p, s')" "pmm_has_free L s' (F - ?B)" "region_ok ?h (pa, ?n)"
    "?B \<subseteq> F" "span (pa + 16) (unat kb) \<subseteq> ?B" "read64 (memory s') (pa + ?h) = ?n"
    "g_ref_alloc s' = g_ref_alloc s + 1" "same_on (beyond ?h F) (memory s) (memory s')"
    using kmalloc_block [OF assms(1,2,4,5)] by blast
  have p: "?p - ?h = pa + 16" "?p - 16 - ?h = pa" "?p - 16 = pa + ?h" by simp_all
  have "\<exists>s''. kmalloc_free L ?p (s'\<lparr>memory := m\<rparr>) = ret s'' \<and> pmm_has_free L s'' F \<and> g_ref_alloc s'' = g_ref_alloc s"
    if m: "same_on (- span ?p (unat kb)) (memory s') m" for m
  proof -
    have "x \<in> span ?p (unat kb) \<longleftrightarrow> x - ?h \<in> span (pa + 16) (unat kb)" for x
      using span_shift_minus [of x "pa + 16" ?h] by (simp add: ac_simps)
    then have "same_on (- beyond ?h (F - ?B)) (memory s') m"
      using s'(5) by (intro same_on_mono [OF m]) (auto simp: beyond_def)
    from store_law [OF s'(2) this] have free: "pmm_has_free L (s'\<lparr>memory := m\<rparr>) (F - ?B)" .
    have "read64 m (pa + ?h) = ?n"
      using same_on_read64 [OF m, of "pa + ?h"] heap_payload(2) [OF s'(3) heap_pages(2) [OF assms(2)]] s'(6)
      by (simp add: disjoint_eq_subset_Compl)
    then show ?thesis
      using free_law [OF free _ s'(3)] assms(3) s'(4,7)
      by (auto simp: kmalloc_free_def sizeof_KmallocHeader_def p Un_absorb2)
  qed
  then show ?thesis using s' unfolding p(1) by (intro exI [of _ ?p] exI [of _ s'] conjI exI [of _ "F - ?B"]) (auto simp: p(1))
qed

theorem heap_block_lifecycle_witness:
  "\<exists>p s'. kmalloc small_map 100 (init_pmm small_map blank_pmm) = ret (p, s')
     \<and> (\<exists>s''. kmalloc_free small_map p s' = ret s'' \<and> g_ref_alloc s'' = 0)"
proof -
  let ?s = "init_pmm small_map blank_pmm"
  have free: "pmm_has_free small_map ?s (bytes_of [(0x10000, 4)])"
    using small_map_rep by (auto simp: pmm_has_free_def init_pmm_keeps blank_pmm_ok)
  have g: "g_ref_alloc ?s = 0" "pmm_unlocked ?s" by (simp_all add: init_pmm_keeps blank_pmm_ok)
  have n: "bytes_to_pages (100 + 16) = 1" by (simp add: bytes_to_pages_def PAGE_SIZE_def)
  obtain s\<^sub>a where a: "alloc small_map (bytes_to_pages (100 + 16)) ?s = ret (0x10000, s\<^sub>a)"
    using alloc_refines [OF small_map_rep g(2), of 1] n
    by (auto simp: first_fit_def too_small_def remainder_def)
  obtain p s' where "kmalloc small_map 100 ?s = ret (p, s')"
    "\<forall>m. same_on (- span p (unat (100 :: u64))) (memory s') m \<longrightarrow>
       (\<exists>s''. kmalloc_free small_map p (s'\<lparr>memory := m\<rparr>) = ret s'' \<and> g_ref_alloc s'' = 0)"
    using heap_block_lifecycle [OF free _ _ a] g by fastforce
  then show ?thesis by (metis same_on_refl pmm.surjective pmm.update_convs(1))
qed



end
