(* ===== verification/Page_Tables.thy ===== *)
theory Page_Tables
  imports Phys_Allocator
begin

text \<open>
  The virtual memory manager, \<^verbatim>\<open>src/src/include/memory/vmm.hpp\<close> and
  \<^verbatim>\<open>src/src/kernel/memory/vmm.cpp\<close>: four-level page tables that live in pages of the
  physical allocator and are read and written through the direct map. This theory
  holds the operations; \<open>Page_Walk\<close> has their abstraction and correctness.
\<close>

section \<open>Entry flags and state\<close>

definition PRESENT :: u64 where "PRESENT = 1"
definition WRITEABLE :: u64 where "WRITEABLE = push_bit 1 1"
definition USER :: u64 where "USER = push_bit 2 1"
definition WRITETHROUGH :: u64 where "WRITETHROUGH = push_bit 3 1"
definition BIGPAGE :: u64 where "BIGPAGE = push_bit 7 1"
definition NX :: u64 where "NX = push_bit 63 1"
definition PADDR_MASK :: u64 where "PADDR_MASK = 0x0000FFFFFFFFF000"
definition OFFMASK :: u64 where "OFFMASK = 0xFFF"
definition USER_ADDR_END :: u64 where "USER_ADDR_END = 0x0000800000000000"

record PageDirectory =
  pml4 :: ptr
  pml4_pa :: u64

definition as_ptr :: "PageDirectory \<Rightarrow> ptr" where "as_ptr d = pml4_pa d"

record vmm = pmm +
  g_kernel_page_directory :: PageDirectory
  cr3 :: u64
  msr :: "u32 \<Rightarrow> u64"

definition load_cr3 :: "u64 \<Rightarrow> 'a vmm_scheme \<Rightarrow> 'a vmm_scheme" where
  "load_cr3 v s = s\<lparr>cr3 := v\<rparr>"

definition read_cr3 :: "'a vmm_scheme \<Rightarrow> u64" where "read_cr3 s = cr3 s"

definition flush_tlb :: "'a vmm_scheme \<Rightarrow> 'a vmm_scheme" where
  "flush_tlb s = load_cr3 (read_cr3 s) s"

text \<open>Entry \<open>i\<close> of the table at a kernel address; a table is an array of 512 entries of 8 bytes.\<close>

definition get_entry :: "mem \<Rightarrow> ptr \<Rightarrow> u64 \<Rightarrow> u64" where
  "get_entry m table i = read64 m (table + 8 * i)"

definition set_entry :: "ptr \<Rightarrow> u64 \<Rightarrow> u64 \<Rightarrow> 'a pmm_scheme \<Rightarrow> 'a pmm_scheme" where
  "set_entry table i v s = s\<lparr>memory := write64 (memory s) (table + 8 * i) v\<rparr>"

section \<open>Operations\<close>

definition new_pagemap :: "limine \<Rightarrow> 'a pmm_scheme \<Rightarrow> (PageDirectory \<times> 'a pmm_scheme) exec" where
  "new_pagemap L s =
     ebind (alloc L 1 s) (\<lambda>(pa, s).
       if pa = 0 then halt (Panic ''Pmm::alloc(1) failed in new_pagemap() -- out of physical memory'')
       else
         (let table = pa + hhdm_offset L;
              s = s\<lparr>memory := memset (memory s) table 0 4096\<rparr>
          in ret (\<lparr>pml4 = table, pml4_pa = pa\<rparr>, s)))"

text \<open>
  \<open>get_next_level\<close> takes the table by reference; the callers pass \<open>*pdpt\<close> and the like, so a null
  table faults at its first access.
\<close>

definition get_next_level ::
  "limine \<Rightarrow> ptr \<Rightarrow> u64 \<Rightarrow> u64 \<Rightarrow> bool \<Rightarrow> 'a pmm_scheme \<Rightarrow> (ptr \<times> 'a pmm_scheme) exec" where
  "get_next_level L table cur_level flags allocate s =
     (if table = null then halt NullDeref
      else
        (let e = get_entry (memory s) table cur_level in
         if e AND PRESENT \<noteq> 0 then
           (let next_pa = e AND PADDR_MASK; next_va = next_pa + get_hhdm L in ret (next_va, s))
         else if allocate then
           ebind (alloc L 1 s) (\<lambda>(new_pa, s).
             if new_pa = 0 then
               halt (Panic ''Pmm::alloc(1) failed in get_next_level() -- out of physical memory'')
             else
               (let next_level = new_pa + get_hhdm L;
                    s = s\<lparr>memory := memset (memory s) next_level 0 PAGE_SIZE\<rparr>;
                    s = (if flags AND USER \<noteq> 0
                         then set_entry table cur_level (new_pa OR PRESENT OR WRITEABLE OR USER) s
                         else set_entry table cur_level (new_pa OR PRESENT OR WRITEABLE) s)
                in ret (next_level, s)))
         else ret (null, s)))"

definition pml4_entry :: "u64 \<Rightarrow> u64" where "pml4_entry va = drop_bit 39 (va AND push_bit 39 0x1ff)"
definition pdpt_entry :: "u64 \<Rightarrow> u64" where "pdpt_entry va = drop_bit 30 (va AND push_bit 30 0x1ff)"
definition pd_entry :: "u64 \<Rightarrow> u64" where "pd_entry va = drop_bit 21 (va AND push_bit 21 0x1ff)"
definition pt_entry :: "u64 \<Rightarrow> u64" where "pt_entry va = drop_bit 12 (va AND push_bit 12 0x1ff)"

text \<open>One pass of the loop of \<open>map\<close>, and the loop; it never ends if \<open>off\<close> wraps below \<open>length\<close>.\<close>

definition map_page :: "limine \<Rightarrow> ptr \<Rightarrow> u64 \<Rightarrow> u64 \<Rightarrow> u64 \<Rightarrow> 'a pmm_scheme \<Rightarrow> 'a pmm_scheme exec" where
  "map_page L pagemap cur_pa cur_va flags s =
     ebind (get_next_level L pagemap (pml4_entry cur_va) flags True s) (\<lambda>(pdpt, s).
     ebind (get_next_level L pdpt (pdpt_entry cur_va) flags True s) (\<lambda>(pd, s).
     ebind (get_next_level L pd (pd_entry cur_va) flags True s) (\<lambda>(pt, s).
     if pt = null then halt NullDeref else ret (set_entry pt (pt_entry cur_va) (cur_pa OR flags) s))))"

partial_function (option) map_loop ::
  "limine \<Rightarrow> ptr \<Rightarrow> u64 \<Rightarrow> u64 \<Rightarrow> u64 \<Rightarrow> u64 \<Rightarrow> u64 \<Rightarrow> 'a pmm_scheme \<Rightarrow> 'a pmm_scheme exec" where
  "map_loop L pagemap pa va len flags off s =
     (if off < len then
        (let cur_va = align_down (va + off) PAGE_SIZE;
             cur_pa = align_down (pa + off) PAGE_SIZE
         in ebind (map_page L pagemap cur_pa cur_va flags s)
              (\<lambda>s. map_loop L pagemap pa va len flags (off + PAGE_SIZE) s))
      else ret s)"

definition map_range :: "limine \<Rightarrow> ptr \<Rightarrow> u64 \<Rightarrow> u64 \<Rightarrow> u64 \<Rightarrow> u64 \<Rightarrow> 'a pmm_scheme \<Rightarrow> 'a pmm_scheme exec" where
  "map_range L pagemap pa va len flags s = map_loop L pagemap pa va len flags 0 s"

definition unmap_page :: "limine \<Rightarrow> ptr \<Rightarrow> u64 \<Rightarrow> 'a pmm_scheme \<Rightarrow> 'a pmm_scheme exec" where
  "unmap_page L pagemap cur_va s =
     ebind (get_next_level L pagemap (pml4_entry cur_va) 0 False s) (\<lambda>(pdpt, s).
     ebind (get_next_level L pdpt (pdpt_entry cur_va) 0 False s) (\<lambda>(pd, s).
     ebind (get_next_level L pd (pd_entry cur_va) 0 False s) (\<lambda>(pt, s).
     if pt = null then halt NullDeref else ret (set_entry pt (pt_entry cur_va) 0 s))))"

partial_function (option) unmap_loop ::
  "limine \<Rightarrow> ptr \<Rightarrow> u64 \<Rightarrow> u64 \<Rightarrow> u64 \<Rightarrow> 'a pmm_scheme \<Rightarrow> 'a pmm_scheme exec" where
  "unmap_loop L pagemap va len i s =
     (if i < len then
        (let cur_va = align_down (va + i) PAGE_SIZE
         in ebind (unmap_page L pagemap cur_va s) (\<lambda>s. unmap_loop L pagemap va len (i + PAGE_SIZE) s))
      else ret s)"

definition unmap :: "limine \<Rightarrow> ptr \<Rightarrow> u64 \<Rightarrow> u64 \<Rightarrow> 'a pmm_scheme \<Rightarrow> 'a pmm_scheme exec" where
  "unmap L pagemap va len s = unmap_loop L pagemap va len 0 s"

definition va_to_pa :: "limine \<Rightarrow> PageDirectory \<Rightarrow> u64 \<Rightarrow> 'a pmm_scheme \<Rightarrow> u64 exec" where
  "va_to_pa L space va s =
     ebind (get_next_level L (pml4 space) (pml4_entry va) 0 False s) (\<lambda>(pdpt, s).
     ebind (get_next_level L pdpt (pdpt_entry va) 0 False s) (\<lambda>(pd, s).
     ebind (get_next_level L pd (pd_entry va) 0 False s) (\<lambda>(pt, s).
     if pt = null then halt NullDeref
     else ret ((get_entry (memory s) pt (pt_entry va) AND PADDR_MASK) OR (va AND OFFMASK)))))"

definition fill_entry :: "limine \<Rightarrow> ptr \<Rightarrow> u64 \<Rightarrow> nat \<Rightarrow> 'a pmm_scheme \<Rightarrow> 'a pmm_scheme exec" where
  "fill_entry L table flags i s =
     ebind (alloc L 1 s) (\<lambda>(pdpt_pa, s).
       if pdpt_pa = 0 then
         halt (Panic ''Pmm::alloc(1) failed in fill_kernel_entries() -- out of physical memory'')
       else
         (let pdpt = pdpt_pa + get_hhdm L;
              s = s\<lparr>memory := memset (memory s) pdpt 0 4096\<rparr>
          in ret (set_entry table (of_nat i) (pdpt_pa OR flags) s)))"

definition fill_kernel_entries :: "limine \<Rightarrow> PageDirectory \<Rightarrow> 'a pmm_scheme \<Rightarrow> 'a pmm_scheme exec" where
  "fill_kernel_entries L vaddr s =
     for_each (fill_entry L (pml4 vaddr) (PRESENT OR WRITEABLE)) [256..<512] s"

definition process_fill_user_entires :: "limine \<Rightarrow> PageDirectory \<Rightarrow> 'a pmm_scheme \<Rightarrow> 'a pmm_scheme exec" where
  "process_fill_user_entires L page_directory s =
     for_each (fill_entry L (pml4 page_directory) (PRESENT OR WRITEABLE OR USER)) [0..<256] s"

definition process_fill_kernel_entries :: "PageDirectory \<Rightarrow> 'a vmm_scheme \<Rightarrow> 'a vmm_scheme" where
  "process_fill_kernel_entries vaddr s =
     fold (\<lambda>i s. set_entry (pml4 vaddr) (of_nat i)
        (get_entry (memory s) (pml4 (g_kernel_page_directory s)) (of_nat i)) s) [256..<512] s"

text \<open>\<open>free_table\<close> calls itself one level down; \<open>level\<close> starts at 4.\<close>

definition free_table_entry ::
  "limine \<Rightarrow> nat \<Rightarrow> (ptr \<Rightarrow> 'a pmm_scheme \<Rightarrow> 'a pmm_scheme exec) \<Rightarrow> ptr \<Rightarrow> nat \<Rightarrow> 'a pmm_scheme \<Rightarrow> 'a pmm_scheme exec" where
  "free_table_entry L level free_lower table i s =
     (let e = get_entry (memory s) table (of_nat i) in
      if \<not> (e AND PRESENT \<noteq> 0) then ret s
      else
        (let pa = e AND PADDR_MASK in
         ebind (if level > 1 then free_lower (pa + get_hhdm L) s else ret s) (\<lambda>s.
         ebind (free L pa 1 s) (\<lambda>s.
         ret (set_entry table (of_nat i) 0 s)))))"

primrec free_table :: "limine \<Rightarrow> nat \<Rightarrow> ptr \<Rightarrow> 'a pmm_scheme \<Rightarrow> 'a pmm_scheme exec" where
  "free_table L 0 = (\<lambda>table s. for_each (free_table_entry L 0 (\<lambda>_ s. ret s) table) [0..<256] s)"
| "free_table L (Suc l) = (\<lambda>table s. for_each (free_table_entry L (Suc l) (free_table L l) table) [0..<256] s)"

definition free_pagemap :: "limine \<Rightarrow> PageDirectory \<Rightarrow> 'a pmm_scheme \<Rightarrow> (PageDirectory \<times> 'a pmm_scheme) exec" where
  "free_pagemap L space s =
     (if pml4 space = null \<or> pml4_pa space = 0 then ret (space, s)
      else
        ebind (free_table L 4 (pml4 space) s) (\<lambda>s.
        ebind (free L (pml4_pa space) 1 s) (\<lambda>s.
        ret (space\<lparr>pml4 := null, pml4_pa := 0\<rparr>, s))))"

definition reclaim_bootloader_ranges :: "limine \<Rightarrow> 'a pmm_scheme \<Rightarrow> 'a pmm_scheme" where
  "reclaim_bootloader_ranges L s =
     fold (\<lambda>e s. if entry_length e < PAGE_SIZE then s
                 else reclaim_bootloader L (entry_type e) (entry_base e) (entry_length e div PAGE_SIZE) s)
       (memmap_entries L) s"

definition map_limine_kernel_addr :: "limine \<Rightarrow> u64 \<Rightarrow> u64 \<Rightarrow> u64 \<Rightarrow> 'a vmm_scheme \<Rightarrow> 'a vmm_scheme exec" where
  "map_limine_kernel_addr L start stop flags s =
     (let len = stop - start;
          pa = start - virtual_base L + physical_base L
      in map_range L (pml4 (g_kernel_page_directory s)) pa start len flags s)"

text \<open>The linker symbols that delimit the kernel's sections.\<close>

record kernel_image =
  text_start :: u64
  text_end :: u64
  rodata_start :: u64
  rodata_end :: u64
  data_start :: u64
  data_end :: u64

definition init_map_entry :: "limine \<Rightarrow> limine_memmap_entry \<Rightarrow> 'a vmm_scheme \<Rightarrow> 'a vmm_scheme exec" where
  "init_map_entry L e s =
     (if entry_type e = usable L \<or> entry_type e = framebuffer L \<or> entry_type e = bootloader L
         \<or> entry_type e = kernel_and_modules L
      then
        (let v_addr = get_hhdm L + entry_base e
         in map_range L (pml4 (g_kernel_page_directory s)) (entry_base e) v_addr (entry_length e)
              (PRESENT OR WRITEABLE OR NX) s)
      else ret s)"

definition MSREFER :: u32 where "MSREFER = 0xC0000080"

definition vmm_init :: "limine \<Rightarrow> kernel_image \<Rightarrow> 'a vmm_scheme \<Rightarrow> 'a vmm_scheme exec" where
  "vmm_init L img s =
     ebind (new_pagemap L s) (\<lambda>(dir, s).
     (let s = s\<lparr>g_kernel_page_directory := dir\<rparr> in
      ebind (fill_kernel_entries L dir s) (\<lambda>s.
      ebind (for_each (init_map_entry L) (memmap_entries L) s) (\<lambda>s.
      ebind (map_limine_kernel_addr L (text_start img) (text_end img) PRESENT s) (\<lambda>s.
      ebind (map_limine_kernel_addr L (rodata_start img) (rodata_end img) (PRESENT OR NX) s) (\<lambda>s.
      ebind (map_limine_kernel_addr L (data_start img) (data_end img) (PRESENT OR WRITEABLE OR NX) s) (\<lambda>s.
      (let s = s\<lparr>msr := (msr s)(MSREFER := msr s MSREFER OR push_bit 11 1)\<rparr>
       in ret (load_cr3 (pml4_pa (g_kernel_page_directory s)) s)))))))))"

end
