(* ===== verification/Page_Walk.thy ===== *)
theory Page_Walk
  imports Page_Tables
begin

text \<open>
  What the page tables of \<open>Page_Tables\<close> mean. A set of table pages with levels is
  a tree in the byte memory; it denotes the partial function from virtual addresses to leaf entries
  that the processor computes. Mapping and unmapping a range are shown to change this function at
  the pages of the range and nowhere else, and \<open>va_to_pa\<close> to read it.
\<close>

section \<open>Indices\<close>

definition vpn :: "u64 \<Rightarrow> u64" where "vpn va = take_bit 36 (drop_bit 12 va)"

lemma bit_1ff: "bit (0x1ff :: u64) n \<longleftrightarrow> n < 9"
proof -
  have "(0x1ff :: u64) = mask 9" by (simp add: mask_eq_exp_minus_1)
  then show ?thesis by (simp only: bit_mask_iff) auto
qed

lemma index_bits:
  "pml4_entry va = take_bit 9 (drop_bit 39 va)" "pdpt_entry va = take_bit 9 (drop_bit 30 va)"
  "pd_entry va = take_bit 9 (drop_bit 21 va)" "pt_entry va = take_bit 9 (drop_bit 12 va)"
  unfolding pml4_entry_def pdpt_entry_def pd_entry_def pt_entry_def
  by (rule bit_word_eqI, auto simp only: bit_drop_bit_eq bit_and_iff bit_push_bit_iff bit_1ff bit_take_bit_iff o_def; simp; fail)+

lemma index_less [simp]:
  "unat (pml4_entry va) < 512" "unat (pdpt_entry va) < 512"
  "unat (pd_entry va) < 512" "unat (pt_entry va) < 512"
proof -
  have "unat (take_bit 9 x) < 512" for x :: u64
    using take_bit_nat_less_exp [of 9 "unat x"] by (simp only: unsigned_take_bit_eq) simp
  then show "unat (pml4_entry va) < 512" "unat (pdpt_entry va) < 512"
    "unat (pd_entry va) < 512" "unat (pt_entry va) < 512" by (simp_all add: index_bits)
qed

lemma four_ranges:
  fixes P :: "nat \<Rightarrow> bool"
  shows "(\<forall>n. 12 \<le> n \<and> n < 12 + 36 \<longrightarrow> P n) \<longleftrightarrow>
    (\<forall>n. 39 \<le> n \<and> n < 39 + 9 \<longrightarrow> P n) \<and> (\<forall>n. 30 \<le> n \<and> n < 30 + 9 \<longrightarrow> P n)
    \<and> (\<forall>n. 21 \<le> n \<and> n < 21 + 9 \<longrightarrow> P n) \<and> (\<forall>n. 12 \<le> n \<and> n < 12 + 9 \<longrightarrow> P n)"
    (is "?l \<longleftrightarrow> ?r")
proof
  assume ?r
  then have "P n" if "12 \<le> n" "n < 48" for n
    using that by (cases "n < 21"; cases "n < 30"; cases "n < 39") auto
  then show ?l by simp
qed auto

lemma same_vpn:
  "vpn v = vpn w \<longleftrightarrow> pml4_entry v = pml4_entry w \<and> pdpt_entry v = pdpt_entry w
     \<and> pd_entry v = pd_entry w \<and> pt_entry v = pt_entry w"
proof -
  have eq: "take_bit k (drop_bit j v) = take_bit k (drop_bit j w) \<longleftrightarrow> (\<forall>n. j \<le> n \<and> n < j + k \<longrightarrow> bit v n = bit w n)"
    for j k
  proof -
    have "take_bit k (drop_bit j v) = take_bit k (drop_bit j w) \<longleftrightarrow> (\<forall>n<k. bit v (j + n) = bit w (j + n))"
    proof -
      have "n < 64" if "bit (x :: u64) (j + n)" for x n
        using bit_imp_le_length [OF that] by simp
      then show ?thesis by (simp add: bit_eq_iff bit_take_bit_iff bit_drop_bit_eq) blast
    qed
    also have "\<dots> \<longleftrightarrow> (\<forall>n. j \<le> n \<and> n < j + k \<longrightarrow> bit v n = bit w n)"
      by (metis add_less_cancel_left le_add1 le_add_diff_inverse)
    finally show ?thesis .
  qed
  show ?thesis unfolding vpn_def index_bits eq by (rule four_ranges)
qed

section \<open>Entries of a table\<close>

text \<open>From here on tables are named by physical address; \<open>h\<close> is the direct map offset.\<close>

abbreviation ent :: "mem \<Rightarrow> u64 \<Rightarrow> u64 \<Rightarrow> u64 \<Rightarrow> u64" where
  "ent m h t i \<equiv> get_entry m (t + h) i"

abbreviation page :: "u64 \<Rightarrow> u64 set" where "page t \<equiv> region_bytes (t, 1)"

definition table_page :: "u64 \<Rightarrow> u64 \<Rightarrow> bool" where
  "table_page h t \<longleftrightarrow> region_ok h (t, 1) \<and> t AND PADDR_MASK = t"

lemma page_span: "x \<in> span (t + h) 4096 \<longleftrightarrow> x - h \<in> page t"
  by (simp add: region_bytes_def span_shift_minus)

lemma pages_apart:
  assumes "region_ok h (t, 1)" and "region_ok h (t', 1)" and "t \<noteq> t'"
  shows "page t \<inter> page t' = {}"
proof -
  have "unat t + 4096 \<le> 2 ^ 64" "unat t' + 4096 \<le> 2 ^ 64" "4096 dvd unat t" "4096 dvd unat t'" "unat t \<noteq> unat t'"
    using assms by (auto simp: region_ok_def word_unat_eq_iff)
  moreover from this have "unat t + 4096 \<le> unat t' \<or> unat t' + 4096 \<le> unat t" by (auto elim!: dvdE)
  ultimately show ?thesis by (auto simp: region_bytes_def span_nowrap)
qed

lemma unat_8i: "unat i < 512 \<Longrightarrow> unat (8 * i :: u64) = 8 * unat i"
  using unat_mult_nowrap [of 8 i] by simp

lemma entry_in_page:
  assumes "unat i < 512"
  shows "span (t + h + 8 * i) 8 \<subseteq> span (t + h) 4096"
  using span_sub [of "8 * i" 8 4096 "t + h"] assms by (simp add: unat_8i)

lemma ent_same:
  assumes "same_on (span (t + h) 4096) m m'" and "unat i < 512"
  shows "ent m' h t i = ent m h t i"
  unfolding get_entry_def using same_on_read64 [OF assms(1) entry_in_page [OF assms(2)]] .

lemma entries_apart:
  assumes "region_ok h (t, 1)" "region_ok h (t', 1)" "unat i < 512" "unat j < 512" "(t, i) \<noteq> (t', j)"
  shows "span (t + h + 8 * i) 8 \<inter> span (t' + h + 8 * j) 8 = {}"
proof (cases "t = t'")
  case True
  then have "unat i \<noteq> unat j" using assms by (auto simp: word_unat_eq_iff)
  then consider "unat i < unat j" | "unat j < unat i" by linarith
  then show ?thesis
    using span_offsets_disjoint [of "8 * i" 8 "8 * j" 8 "t + h"] span_offsets_disjoint [of "8 * j" 8 "8 * i" 8 "t + h"]
      assms True by cases (auto simp: unat_8i)
next
  case False
  have "span (t + h) 4096 \<inter> span (t' + h) 4096 = {}"
    using pages_apart [OF assms(1,2) False] by (auto simp: page_span)
  then show ?thesis using entry_in_page [OF assms(3), of t h] entry_in_page [OF assms(4), of t' h] by blast
qed

lemma ent_write_same [simp]: "ent (write64 m (t + h + 8 * i) v) h t i = v"
  by (simp add: get_entry_def)

lemma ent_write_other:
  assumes "region_ok h (t, 1)" "region_ok h (t', 1)" "unat i < 512" "unat j < 512" "(t, i) \<noteq> (t', j)"
  shows "ent (write64 m (t + h + 8 * i) v) h t' j = ent m h t' j"
  unfolding get_entry_def using entries_apart [OF assms] by (rule read64_write64_other)

lemma read64_zero:
  assumes "\<And>x. x \<in> span a 8 \<Longrightarrow> m x = 0"
  shows "read64 m a = 0"
proof (rule bit_word_eqI)
  fix n assume n: "n < LENGTH(64)"
  then have "unat (of_nat (n div 8) :: u64) < 8" by (simp add: unat_of_nat_small)
  then have "m (a + of_nat (n div 8)) = 0" by (intro assms span_add_mem)
  with n show "bit (read64 m a) n = bit 0 n" by (simp add: bit_read64)
qed

lemma ent_cleared:
  assumes "unat i < 512"
  shows "ent (memset m (t + h) 0 4096) h t i = 0"
  unfolding get_entry_def using entry_in_page [OF assms, of t h] by (intro read64_zero) (auto simp: memset_eq)

lemma memset_page_same: "same_on (- span p 4096) m (memset m p 0 4096)"
  by (simp add: same_on_def memset_eq)

section \<open>Trees of tables\<close>

definition present :: "u64 \<Rightarrow> bool" where "present e \<longleftrightarrow> e AND PRESENT \<noteq> 0"

lemma present_bit: "present e \<longleftrightarrow> bit e 0"
  by (simp add: present_def PRESENT_def and_one_eq bit_0 odd_iff_mod_2_eq_one)

lemma present_or [simp]: "present (a OR b) \<longleftrightarrow> present a \<or> present b"
  by (simp add: present_bit bit_or_iff)

definition child :: "u64 \<Rightarrow> u64" where "child e = e AND PADDR_MASK"

text \<open>The table reached from \<open>t\<close> along a list of indices, and the entry found there.\<close>

fun reach :: "mem \<Rightarrow> u64 \<Rightarrow> u64 \<Rightarrow> u64 list \<Rightarrow> u64 option" where
  "reach m h t [] = Some t"
| "reach m h t (i # is) = (if present (ent m h t i) then reach m h (child (ent m h t i)) is else None)"

definition leaf :: "mem \<Rightarrow> u64 \<Rightarrow> u64 \<Rightarrow> u64 \<Rightarrow> u64 option" where
  "leaf m h t i = (if present (ent m h t i) then Some (ent m h t i) else None)"

definition look :: "mem \<Rightarrow> u64 \<Rightarrow> u64 \<Rightarrow> u64 list \<Rightarrow> u64 \<Rightarrow> u64 option" where
  "look m h t is i = Option.bind (reach m h t is) (\<lambda>p. leaf m h p i)"

abbreviation table_path :: "u64 \<Rightarrow> u64 list" where
  "table_path va \<equiv> [pml4_entry va, pdpt_entry va, pd_entry va]"

text \<open>The leaf entry that the processor finds for a virtual address, if every level is present.\<close>

definition translation :: "mem \<Rightarrow> u64 \<Rightarrow> u64 \<Rightarrow> u64 \<Rightarrow> u64 option" where
  "translation m h r va = look m h r (table_path va) (pt_entry va)"

text \<open>
  The invariant: \<open>lv\<close> gives every table page its level. Tables lie outside the free
  memory; a present entry of a table above level 1 leads to a table one level down, and no two
  such entries lead to the same table.
\<close>

definition tables_outside :: "u64 \<Rightarrow> u64 set \<Rightarrow> (u64 \<Rightarrow> nat option) \<Rightarrow> bool" where
  "tables_outside h F lv \<longleftrightarrow> (\<forall>t l. lv t = Some l \<longrightarrow> 0 < l \<and> table_page h t \<and> page t \<inter> F = {})"

definition tables_down :: "u64 \<Rightarrow> mem \<Rightarrow> (u64 \<Rightarrow> nat option) \<Rightarrow> bool" where
  "tables_down h m lv \<longleftrightarrow> (\<forall>t l i. lv t = Some (Suc (Suc l)) \<longrightarrow> unat i < 512 \<longrightarrow> present (ent m h t i)
     \<longrightarrow> lv (child (ent m h t i)) = Some (Suc l))"

definition tables_apart :: "u64 \<Rightarrow> mem \<Rightarrow> (u64 \<Rightarrow> nat option) \<Rightarrow> bool" where
  "tables_apart h m lv \<longleftrightarrow> (\<forall>t t' l i j. lv t = Some (Suc (Suc l)) \<longrightarrow> lv t' = Some (Suc (Suc l))
     \<longrightarrow> unat i < 512 \<longrightarrow> unat j < 512 \<longrightarrow> present (ent m h t i) \<longrightarrow> present (ent m h t' j)
     \<longrightarrow> child (ent m h t i) = child (ent m h t' j) \<longrightarrow> t = t' \<and> i = j)"

definition tables_ok :: "u64 \<Rightarrow> mem \<Rightarrow> u64 set \<Rightarrow> (u64 \<Rightarrow> nat option) \<Rightarrow> bool" where
  "tables_ok h m F lv \<longleftrightarrow> tables_outside h F lv \<and> tables_down h m lv \<and> tables_apart h m lv"

lemma tables_ok_page: "tables_ok h m F lv \<Longrightarrow> lv t = Some l \<Longrightarrow> 0 < l \<and> table_page h t \<and> page t \<inter> F = {}"
  by (simp add: tables_ok_def tables_outside_def)

lemma tables_ok_child:
  "tables_ok h m F lv \<Longrightarrow> lv t = Some (Suc (Suc l)) \<Longrightarrow> unat i < 512 \<Longrightarrow> present (ent m h t i)
    \<Longrightarrow> lv (child (ent m h t i)) = Some (Suc l)"
  by (simp add: tables_ok_def tables_down_def)

lemma tables_ok_inj:
  assumes "tables_ok h m F lv" "lv t = Some (Suc (Suc l))" "lv t' = Some (Suc (Suc l))" "unat i < 512" "unat j < 512"
    "present (ent m h t i)" "present (ent m h t' j)" "child (ent m h t i) = child (ent m h t' j)"
  shows "t = t'" and "i = j"
proof -
  have "tables_apart h m lv" using assms(1) by (simp add: tables_ok_def)
  from this [unfolded tables_apart_def, rule_format, OF assms(2-8)] show "t = t'" and "i = j" by simp_all
qed

lemma reach_append:
  "reach m h t (is @ js) = Option.bind (reach m h t is) (\<lambda>p. reach m h p js)"
  by (induction "is" arbitrary: t) auto

lemma reach_level:
  assumes "tables_ok h m F lv" and "lv t = Some (Suc (length is + k))"
    and "\<forall>i \<in> set is. unat i < 512" and "reach m h t is = Some p"
  shows "lv p = Some (Suc k)"
  using assms(2-)
proof (induction "is" arbitrary: t)
  case (Cons i "is")
  then show ?case
    using tables_ok_child [OF assms(1), of t "length is + k" i] by (auto split: if_splits)
qed simp

lemma reach_snoc:
  "reach m h t (is @ [i]) = Some p \<longleftrightarrow>
     (\<exists>q. reach m h t is = Some q \<and> present (ent m h q i) \<and> child (ent m h q i) = p)"
  by (cases "reach m h t is") (simp_all add: reach_append)

text \<open>A table is reached along one path only.\<close>

lemma reach_inj:
  assumes "tables_ok h m F lv" and "lv t = Some (Suc (length is + k))" and "length js = length is"
    and "\<forall>i \<in> set is. unat i < 512" and "\<forall>i \<in> set js. unat i < 512"
    and "reach m h t is = Some p" and "reach m h t js = Some p"
  shows "is = js"
  using assms(2-)
proof (induction "is" arbitrary: js p k rule: rev_induct)
  case (snoc i "is")
  obtain js' j where js: "js = js' @ [j]" using snoc.prems(2) by (cases js rule: rev_cases) auto
  obtain q where q: "reach m h t is = Some q" "present (ent m h q i)" "child (ent m h q i) = p"
    using snoc.prems(5) unfolding reach_snoc by blast
  obtain q' where q': "reach m h t js' = Some q'" "present (ent m h q' j)" "child (ent m h q' j) = p"
    using snoc.prems(6) unfolding js reach_snoc by blast
  have len: "length js' = length is" using snoc.prems(2) js by simp
  have ix: "\<forall>i \<in> set is. unat i < 512" "\<forall>i \<in> set js'. unat i < 512" "unat i < 512" "unat j < 512"
    using snoc.prems(3,4) js by simp_all
  have lvt: "lv t = Some (Suc (length is + Suc k))" using snoc.prems(1) by simp
  have lv: "lv q = Some (Suc (Suc k))" using reach_level [OF assms(1) lvt ix(1) q(1)] .
  have lv': "lv q' = Some (Suc (Suc k))"
    using reach_level [OF assms(1) lvt [folded len] ix(2) q'(1)] .
  have "q = q'" "i = j"
    using tables_ok_inj [OF assms(1) lv lv' ix(3,4) q(2) q'(2)] q(3) q'(3) by simp_all
  moreover have "is = js'" using snoc.IH [OF lvt len ix(1,2) q(1)] q'(1) calculation(1) by simp
  ultimately show ?case using js by simp
qed simp

lemma look_leaf:
  "look m h t [] i = leaf m h t i"
  "look m h t (j # is) i = (if present (ent m h t j) then look m h (child (ent m h t j)) is i else None)"
  by (simp_all add: look_def)

text \<open>Memory with the same entries in every table holds the same tree.\<close>

definition same_entries :: "u64 \<Rightarrow> mem \<Rightarrow> mem \<Rightarrow> (u64 \<Rightarrow> nat option) \<Rightarrow> bool" where
  "same_entries h m m' lv \<longleftrightarrow> (\<forall>t i. lv t \<noteq> None \<longrightarrow> unat i < 512 \<longrightarrow> ent m' h t i = ent m h t i)"

lemma same_entries_look:
  assumes "same_entries h m m' lv" and "tables_ok h m F lv" and "lv t = Some (Suc (length is))"
    and "\<forall>i \<in> set is. unat i < 512" and "unat j < 512"
  shows "look m' h t is j = look m h t is j"
  using assms(3,4)
proof (induction "is" arbitrary: t)
  case Nil
  then show ?case using assms(1,5) by (simp add: look_leaf leaf_def same_entries_def)
next
  case (Cons i "is")
  then have "ent m' h t i = ent m h t i" using assms(1) by (simp add: same_entries_def)
  then show ?case using Cons tables_ok_child [OF assms(2), of t "length is" i] by (simp add: look_leaf)
qed

lemma same_entries_tables_ok:
  assumes "same_entries h m m' lv" and "tables_ok h m F lv" and "F' \<subseteq> F"
  shows "tables_ok h m' F' lv"
proof -
  have "tables_outside h F' lv" using tables_ok_page [OF assms(2)] assms(3) unfolding tables_outside_def by blast
  moreover have "tables_down h m' lv" unfolding tables_down_def
    using assms(1) tables_ok_child [OF assms(2)] by (simp add: same_entries_def)
  moreover have "tables_apart h m' lv" unfolding tables_apart_def
    using assms(1) tables_ok_inj [OF assms(2)] by (simp add: same_entries_def)
  ultimately show ?thesis by (simp add: tables_ok_def)
qed

lemma same_entriesI:
  assumes "same_on A m m'" and "\<And>t. lv t \<noteq> None \<Longrightarrow> span (t + h) 4096 \<subseteq> A"
  shows "same_entries h m m' lv"
  unfolding same_entries_def using assms by (intro allI impI ent_same same_on_mono [OF assms(1)]) auto

text \<open>A new cleared table below a free entry of an existing one changes no translation.\<close>

definition table_added ::
  "u64 \<Rightarrow> mem \<Rightarrow> mem \<Rightarrow> u64 set \<Rightarrow> u64 set \<Rightarrow> (u64 \<Rightarrow> nat option) \<Rightarrow> u64 \<Rightarrow> u64 \<Rightarrow> u64 \<Rightarrow> nat \<Rightarrow> bool" where
  "table_added h m m' F F' lv t\<^sub>0 i\<^sub>0 n l\<^sub>0 \<longleftrightarrow> tables_ok h m F lv
     \<and> lv t\<^sub>0 = Some (Suc (Suc l\<^sub>0)) \<and> unat i\<^sub>0 < 512 \<and> \<not> present (ent m h t\<^sub>0 i\<^sub>0)
     \<and> (\<forall>t j. lv t \<noteq> None \<longrightarrow> unat j < 512 \<longrightarrow> (t, j) \<noteq> (t\<^sub>0, i\<^sub>0) \<longrightarrow> ent m' h t j = ent m h t j)
     \<and> present (ent m' h t\<^sub>0 i\<^sub>0) \<and> child (ent m' h t\<^sub>0 i\<^sub>0) = n
     \<and> lv n = None \<and> table_page h n \<and> page n \<inter> F' = {} \<and> (\<forall>j. unat j < 512 \<longrightarrow> ent m' h n j = 0) \<and> F' \<subseteq> F"

lemma table_addedD:
  assumes "table_added h m m' F F' lv t\<^sub>0 i\<^sub>0 n l\<^sub>0"
  shows table_added_ok: "tables_ok h m F lv"
    and table_added_level: "lv t\<^sub>0 = Some (Suc (Suc l\<^sub>0))" "unat i\<^sub>0 < 512" "\<not> present (ent m h t\<^sub>0 i\<^sub>0)"
    and table_added_others: "\<And>t j. lv t \<noteq> None \<Longrightarrow> unat j < 512 \<Longrightarrow> (t, j) \<noteq> (t\<^sub>0, i\<^sub>0) \<Longrightarrow> ent m' h t j = ent m h t j"
    and table_added_linked: "present (ent m' h t\<^sub>0 i\<^sub>0)" "child (ent m' h t\<^sub>0 i\<^sub>0) = n"
    and table_added_new: "lv n = None" "table_page h n" "page n \<inter> F' = {}" "\<And>j. unat j < 512 \<Longrightarrow> ent m' h n j = 0"
    and table_added_shrinks: "F' \<subseteq> F"
  using assms by (simp_all add: table_added_def)

lemma zero_not_present [simp]: "\<not> present 0"
  by (simp add: present_def)

lemma look_new: "table_added h m m' F F' lv t\<^sub>0 i\<^sub>0 n l\<^sub>0 \<Longrightarrow> \<forall>i \<in> set is. unat i < 512 \<Longrightarrow> unat i < 512 \<Longrightarrow> look m' h n is i = None"
  by (cases "is") (simp_all add: look_leaf leaf_def table_added_new(4))

lemma look_kept:
  assumes added: "table_added h m m' F F' lv t\<^sub>0 i\<^sub>0 n l\<^sub>0"
    and "lv t = Some (Suc (length is))" and "\<forall>i \<in> set is. unat i < 512" and "unat i < 512"
  shows "look m' h t is i = look m h t is i"
  using assms(2,3)
proof (induction "is" arbitrary: t)
  case Nil
  then have "t \<noteq> t\<^sub>0" using table_added_level(1) [OF added] by auto
  then show ?case using table_added_others [OF added, of t i] Nil assms(4) by (simp add: look_leaf leaf_def)
next
  case (Cons j "is")
  show ?case
  proof (cases "(t, j) = (t\<^sub>0, i\<^sub>0)")
    case True
    then show ?thesis using look_new [OF added] Cons.prems assms(4) table_added_level(3) [OF added] table_added_linked [OF added] by (simp add: look_leaf)
  next
    case False
    then have "ent m' h t j = ent m h t j" using table_added_others [OF added] Cons.prems by simp
    moreover have "lv (child (ent m h t j)) = Some (Suc (length is))" if "present (ent m h t j)"
      using tables_ok_child [OF table_added_ok [OF added], of t "length is" j] that Cons.prems by simp
    ultimately show ?thesis using Cons.IH Cons.prems by (simp add: look_leaf)
  qed
qed

lemma entries_of_new_levels:
  assumes added: "table_added h m m' F F' lv t\<^sub>0 i\<^sub>0 n l\<^sub>0"
    and "(lv(n \<mapsto> Suc l\<^sub>0)) t = Some (Suc (Suc l))" "unat i < 512" "present (ent m' h t i)"
  obtains (new_link) "t = t\<^sub>0" "i = i\<^sub>0" "l = l\<^sub>0"
  | (old) "lv t = Some (Suc (Suc l))" "ent m' h t i = ent m h t i" "lv (child (ent m h t i)) = Some (Suc l)"
proof -
  have "t \<noteq> n" using assms(2,3,4) table_added_new(4) [OF added] by auto
  then have t: "lv t = Some (Suc (Suc l))" using assms(2) by simp
  show thesis
  proof (cases "(t, i) = (t\<^sub>0, i\<^sub>0)")
    case True
    then show thesis using that(1) t table_added_level(1) [OF added] by simp
  next
    case False
    then have "ent m' h t i = ent m h t i" using table_added_others [OF added] t assms(3) by simp
    then show thesis using that(2) t tables_ok_child [OF table_added_ok [OF added] t assms(3)] assms(4) by simp
  qed
qed

lemma table_added_down:
  assumes added: "table_added h m m' F F' lv t\<^sub>0 i\<^sub>0 n l\<^sub>0"
  shows "tables_down h m' (lv(n \<mapsto> Suc l\<^sub>0))"
  unfolding tables_down_def
proof (intro allI impI)
  fix t l i
  assume a: "(lv(n \<mapsto> Suc l\<^sub>0)) t = Some (Suc (Suc l))" "unat i < 512" "present (ent m' h t i)"
  show "(lv(n \<mapsto> Suc l\<^sub>0)) (child (ent m' h t i)) = Some (Suc l)"
    using added a by (cases rule: entries_of_new_levels) (use table_added_linked [OF added] table_added_new(1) [OF added] in auto)
qed

lemma table_added_apart:
  assumes added: "table_added h m m' F F' lv t\<^sub>0 i\<^sub>0 n l\<^sub>0"
  shows "tables_apart h m' (lv(n \<mapsto> Suc l\<^sub>0))"
  unfolding tables_apart_def
proof (intro allI impI)
  fix t t' l i j
  assume a: "(lv(n \<mapsto> Suc l\<^sub>0)) t = Some (Suc (Suc l))" "unat i < 512" "present (ent m' h t i)"
    and b: "(lv(n \<mapsto> Suc l\<^sub>0)) t' = Some (Suc (Suc l))" "unat j < 512" "present (ent m' h t' j)"
    and eq: "child (ent m' h t i) = child (ent m' h t' j)"
  show "t = t' \<and> i = j"
    using added a
  proof (cases rule: entries_of_new_levels)
    case new_link
    show ?thesis using added b
      by (cases rule: entries_of_new_levels)
        (use new_link eq table_added_linked [OF added] table_added_new(1) [OF added] in auto)
  next
    case old
    note o = old
    show ?thesis using added b
    proof (cases rule: entries_of_new_levels)
      case new_link
      with o eq table_added_linked [OF added] table_added_new(1) [OF added] show ?thesis by auto
    next
      case old
      then show ?thesis using tables_ok_inj [OF table_added_ok [OF added] o(1) old(1) a(2) b(2)] o a(3) b(3) eq by auto
    qed
  qed
qed

lemma table_added_tables_ok:
  assumes added: "table_added h m m' F F' lv t\<^sub>0 i\<^sub>0 n l\<^sub>0"
  shows "tables_ok h m' F' (lv(n \<mapsto> Suc l\<^sub>0))"
proof -
  have "tables_outside h F' (lv(n \<mapsto> Suc l\<^sub>0))"
    using table_added_ok [OF added] table_added_new(2,3) [OF added] table_added_shrinks [OF added]
    by (auto simp: tables_outside_def dest: tables_ok_page)
  then show ?thesis using table_added_down [OF added] table_added_apart [OF added] by (simp add: tables_ok_def)
qed

text \<open>Writing an entry of a level 1 table changes the translation of one page.\<close>

definition leaf_written :: "u64 \<Rightarrow> mem \<Rightarrow> mem \<Rightarrow> (u64 \<Rightarrow> nat option) \<Rightarrow> u64 \<Rightarrow> u64 \<Rightarrow> u64 \<Rightarrow> bool" where
  "leaf_written h m m' lv p i e \<longleftrightarrow> lv p = Some 1 \<and> ent m' h p i = e
     \<and> (\<forall>t j. lv t \<noteq> None \<longrightarrow> unat j < 512 \<longrightarrow> (t, j) \<noteq> (p, i) \<longrightarrow> ent m' h t j = ent m h t j)"

lemma leaf_written_upper:
  "leaf_written h m m' lv p i e \<Longrightarrow> lv t = Some (Suc (Suc l)) \<Longrightarrow> unat j < 512 \<Longrightarrow> ent m' h t j = ent m h t j"
  by (cases "t = p") (auto simp: leaf_written_def)

lemma leaf_written_tables_ok:
  assumes w: "leaf_written h m m' lv p i e" and ok: "tables_ok h m F lv"
  shows "tables_ok h m' F lv"
proof -
  have "tables_down h m' lv" unfolding tables_down_def
    using leaf_written_upper [OF w] tables_ok_child [OF ok] by simp
  moreover have "tables_apart h m' lv" unfolding tables_apart_def
    using leaf_written_upper [OF w] tables_ok_inj [OF ok] by simp
  ultimately show ?thesis using ok by (simp add: tables_ok_def)
qed

lemma leaf_written_reach:
  assumes w: "leaf_written h m m' lv p i e" and ok: "tables_ok h m F lv"
    and "lv t = Some (Suc (length js))" and "\<forall>j \<in> set js. unat j < 512"
  shows "reach m' h t js = reach m h t js"
  using assms(3,4)
proof (induction js arbitrary: t)
  case (Cons j js)
  then have "ent m' h t j = ent m h t j" using leaf_written_upper [OF w, of t "length js" j] by simp
  moreover have "lv (child (ent m h t j)) = Some (Suc (length js))" if "present (ent m h t j)"
    using tables_ok_child [OF ok, of t "length js" j] that Cons.prems by simp
  ultimately show ?case using Cons by simp
qed simp

lemma leaf_written_look:
  assumes w: "leaf_written h m m' lv p i e" and ok: "tables_ok h m F lv"
    and r: "lv r = Some (Suc (length is))" "reach m h r is = Some p" "\<forall>i \<in> set is. unat i < 512"
    and j: "length js = length is" "\<forall>j \<in> set js. unat j < 512" "unat j < 512"
  shows "look m' h r js j = (if js = is \<and> j = i then (if present e then Some e else None) else look m h r js j)"
proof (cases "reach m h r js")
  case None
  then show ?thesis using leaf_written_reach [OF w ok, of r js] r j by (auto simp: look_def)
next
  case (Some q)
  then have look: "look m' h r js j = leaf m' h q j" "look m h r js j = leaf m h q j"
    using leaf_written_reach [OF w ok, of r js] r(1) j by (simp_all add: look_def)
  show ?thesis
  proof (cases "(q, j) = (p, i)")
    case True
    then have "is = js" using reach_inj [OF ok _ j(1) r(3) j(2) r(2), of 0] r(1) Some by simp
    then show ?thesis using True look w by (simp add: leaf_def leaf_written_def)
  next
    case False
    have "lv q = Some 1" using reach_level [OF ok _ j(2) Some, of 0] r(1) j(1) by simp
    then have "leaf m' h q j = leaf m h q j" using w False j(3) by (simp add: leaf_written_def leaf_def)
    then show ?thesis using look False r(2) Some by auto
  qed
qed

section \<open>The operations keep the tree\<close>

definition hhdm_ok :: "limine \<Rightarrow> bool" where
  "hhdm_ok L \<longleftrightarrow> 0xffff800000000000 \<le> get_hhdm L"

lemma PADDR_MASK_bits: "PADDR_MASK = mask 48 AND NOT (mask 12)"
  by (simp add: PADDR_MASK_def mask_eq_exp_minus_1)

lemma masked_address:
  assumes "4096 dvd unat t" and "unat t < 2 ^ 48"
  shows "t AND PADDR_MASK = t"
proof -
  have "unat (t AND NOT (mask 12)) = unat t"
    using assms(1) and_not_mask_unat [of t 12] by simp
  then have "t AND NOT (mask 12) = t" by (simp add: word_unat_eq_iff)
  moreover have "take_bit 48 (unat t) = unat t" using assms(2) by (rule take_bit_nat_eq_self)
  then have "take_bit 48 t = t" by (simp add: word_unat_eq_iff unsigned_take_bit_eq)
  ultimately show ?thesis
    unfolding PADDR_MASK_bits by (metis and.assoc take_bit_eq_mask)
qed

lemma table_pageI:
  assumes "hhdm_ok L" and "region_ok (get_hhdm L) (t, 1)"
  shows "table_page (get_hhdm L) t"
proof -
  have "0xffff800000000000 \<le> unat (get_hhdm L)" using assms(1) by (simp add: hhdm_ok_def word_le_nat_alt)
  then have "unat t < 2 ^ 48" "4096 dvd unat t" using assms(2) by (auto simp: region_ok_def)
  then show ?thesis using assms(2) masked_address by (simp add: table_page_def)
qed

lemma linked_entry:
  assumes "table_page h n" and "f \<in> {PRESENT OR WRITEABLE, PRESENT OR (WRITEABLE OR USER)}"
  shows "present (n OR f)" and "child (n OR f) = n"
proof -
  have f: "f AND PADDR_MASK = 0" "f AND PRESENT = PRESENT"
    using assms(2) by (auto simp: PRESENT_def WRITEABLE_def USER_def PADDR_MASK_def)
  then show "child (n OR f) = n"
    using assms(1) by (simp add: child_def table_page_def bit.conj_disj_distrib2)
  have "(n OR f) AND PRESENT = (n AND PRESENT) OR PRESENT" using f by (simp add: bit.conj_disj_distrib2)
  moreover have "(n AND PRESENT) OR PRESENT = PRESENT" by (rule bit_word_eqI) (auto simp: bit_simps)
  ultimately show "present (n OR f)" by (simp add: present_def PRESENT_def)
qed

definition table_bytes :: "(u64 \<Rightarrow> nat option) \<Rightarrow> u64 set" where
  "table_bytes lv = (\<Union>t \<in> dom lv. page t)"

definition vm_inv :: "limine \<Rightarrow> 'a pmm_scheme \<Rightarrow> u64 set \<Rightarrow> (u64 \<Rightarrow> nat option) \<Rightarrow> bool" where
  "vm_inv L s F lv \<longleftrightarrow> hhdm_ok L \<and> pmm_has_free L s F \<and> tables_ok (get_hhdm L) (memory s) F lv"

text \<open>One state extends another if tables were only added, from free pages, and no translation changed.\<close>

definition same_looks :: "u64 \<Rightarrow> mem \<Rightarrow> mem \<Rightarrow> (u64 \<Rightarrow> nat option) \<Rightarrow> bool" where
  "same_looks h m m' lv \<longleftrightarrow> (\<forall>t js j. lv t = Some (Suc (length js)) \<longrightarrow> (\<forall>j \<in> set js. unat j < 512)
     \<longrightarrow> unat j < 512 \<longrightarrow> look m' h t js j = look m h t js j)"

definition links_kept :: "u64 \<Rightarrow> mem \<Rightarrow> mem \<Rightarrow> (u64 \<Rightarrow> nat option) \<Rightarrow> bool" where
  "links_kept h m m' lv \<longleftrightarrow> (\<forall>t i. lv t \<noteq> None \<longrightarrow> unat i < 512 \<longrightarrow> present (ent m h t i)
     \<longrightarrow> ent m' h t i = ent m h t i)"

definition vm_ext ::
  "limine \<Rightarrow> 'a pmm_scheme \<Rightarrow> u64 set \<Rightarrow> (u64 \<Rightarrow> nat option) \<Rightarrow> 'a pmm_scheme \<Rightarrow> u64 set \<Rightarrow> (u64 \<Rightarrow> nat option) \<Rightarrow> bool" where
  "vm_ext L s F lv s' F' lv' \<longleftrightarrow> vm_inv L s' F' lv' \<and> F' \<subseteq> F \<and> lv \<subseteq>\<^sub>m lv'
     \<and> table_bytes lv' \<union> F' \<subseteq> table_bytes lv \<union> F \<and> pmm_rest s s'
     \<and> same_looks (get_hhdm L) (memory s) (memory s') lv \<and> links_kept (get_hhdm L) (memory s) (memory s') lv
     \<and> same_on (beyond (get_hhdm L) (F \<union> table_bytes lv)) (memory s) (memory s')"

lemma vm_ext_refl: "vm_inv L s F lv \<Longrightarrow> vm_ext L s F lv s F lv"
  by (simp add: vm_ext_def same_looks_def links_kept_def)

lemma vm_extD:
  assumes "vm_ext L s F lv s' F' lv'"
  shows "vm_inv L s' F' lv'" "F' \<subseteq> F" "lv \<subseteq>\<^sub>m lv'" "table_bytes lv' \<union> F' \<subseteq> table_bytes lv \<union> F" "pmm_rest s s'"
    "same_looks (get_hhdm L) (memory s) (memory s') lv" "links_kept (get_hhdm L) (memory s) (memory s') lv"
    "same_on (beyond (get_hhdm L) (F \<union> table_bytes lv)) (memory s) (memory s')"
  using assms by (simp_all add: vm_ext_def)

lemma vm_ext_level: "vm_ext L s F lv s' F' lv' \<Longrightarrow> lv t = Some l \<Longrightarrow> lv' t = Some l"
  by (auto dest!: vm_extD(3) simp: map_le_def dom_def)

lemma links_kept_trans:
  assumes "links_kept h m m' lv" and "links_kept h m' m'' lv'" and "\<And>t l. lv t = Some l \<Longrightarrow> lv' t = Some l"
  shows "links_kept h m m'' lv"
  unfolding links_kept_def
proof (intro allI impI)
  fix t i
  assume a: "lv t \<noteq> None" "unat i < 512" "present (ent m h t i)"
  then have "ent m' h t i = ent m h t i" using assms(1) by (simp add: links_kept_def)
  moreover have "lv' t \<noteq> None" using a(1) assms(3) by (cases "lv t") auto
  ultimately show "ent m'' h t i = ent m h t i" using a assms(2) by (simp add: links_kept_def)
qed

lemma vm_ext_trans:
  assumes a: "vm_ext L s F lv s' F' lv'" and b: "vm_ext L s' F' lv' s'' F'' lv''"
  shows "vm_ext L s F lv s'' F'' lv''"
proof -
  note A = vm_extD [OF a] and B = vm_extD [OF b]
  have looks: "same_looks (get_hhdm L) (memory s) (memory s'') lv"
    using A(6) B(6) vm_ext_level [OF a] by (simp add: same_looks_def)
  have "beyond (get_hhdm L) (F \<union> table_bytes lv) \<subseteq> beyond (get_hhdm L) (F' \<union> table_bytes lv')"
    using A(4) by (intro beyond_antimono) auto
  then have "same_on (beyond (get_hhdm L) (F \<union> table_bytes lv)) (memory s) (memory s'')"
    using same_on_trans [OF A(8)] same_on_mono [OF B(8)] by blast
  then show ?thesis
    unfolding vm_ext_def
    using B(1) subset_trans [OF B(2) A(2)] map_le_trans [OF A(3) B(3)] subset_trans [OF B(4) A(4)]
      pmm_rest_trans [OF A(5) B(5)] looks links_kept_trans [OF A(7) B(7) vm_ext_level [OF a]]
    by (intro conjI)
qed

lemma card_span: "n \<le> 2 ^ 64 \<Longrightarrow> card (span a n) = n"
proof -
  assume n: "n \<le> 2 ^ 64"
  have "span a n = (\<lambda>k. a + of_nat k) ` {..<n}"
  proof (intro set_eqI iffI)
    fix x assume "x \<in> span a n"
    then have "unat (x - a) \<in> {..<n}" "x = a + of_nat (unat (x - a))" by (simp_all add: span_def)
    then show "x \<in> (\<lambda>k. a + of_nat k) ` {..<n}" by blast
  next
    fix x assume "x \<in> (\<lambda>k. a + of_nat k) ` {..<n}"
    then show "x \<in> span a n" using n by (auto simp: span_def unat_of_nat_small)
  qed
  moreover have "inj_on (\<lambda>k. a + of_nat k) {..<n}"
  proof (rule inj_onI)
    fix j k assume a: "j \<in> {..<n}" "k \<in> {..<n}" "a + (of_nat j :: u64) = a + of_nat k"
    have "unat (of_nat j :: u64) = j" "unat (of_nat k :: u64) = k"
      using a(1,2) n by (simp_all add: unat_of_nat_small)
    then show "j = k" using a(3) by (metis add_left_cancel)
  qed
  ultimately show ?thesis by (simp add: card_image)
qed

lemma card_page: "card (page t) = 4096"
  by (simp add: region_bytes_def card_span)

lemma page_beyond: "page t \<inter> F = {} \<Longrightarrow> span (t + h) 4096 \<subseteq> beyond h F"
  by (auto simp: page_span beyond_def)

lemma pages_same:
  assumes "page t \<inter> page t' = {}" and "unat i < 512"
  shows "ent (memset m (t' + h) 0 4096) h t i = ent m h t i"
  using assms by (intro ent_same same_on_mono [OF memset_page_same]) (auto simp: page_span)

text \<open>What \<open>get_next_level\<close> does with the page \<open>n\<close> it took from the free bytes \<open>F\<close>.\<close>

lemma fresh_table_added:
  assumes ok: "tables_ok h m F lv" and t: "lv t = Some (Suc (Suc l))" "unat i < 512" "\<not> present (ent m h t i)"
    and m1: "same_on (beyond h F) m m1" and n: "table_page h n" "page n \<subseteq> F"
    and e: "present e" "child e = n"
  shows "table_added h m (write64 (memset m1 (n + h) 0 4096) (t + h + 8 * i) e) F (F - page n) lv t i n l"
proof -
  let ?m2 = "memset m1 (n + h) 0 4096" and ?m3 = "write64 (memset m1 (n + h) 0 4096) (t + h + 8 * i) e"
  have tab: "region_ok h (t', 1)" "page t' \<inter> F = {}" if "lv t' \<noteq> None" for t'
    using tables_ok_page [OF ok] that by (auto simp: table_page_def)
  have ok_n: "region_ok h (n, 1)" using n by (simp add: table_page_def)
  have "n \<in> page n" using region_ok_start [OF ok_n] by simp
  then have fresh: "lv n = None" using tab(2) [of n] n(2) by (cases "lv n") auto
  then have nt: "n \<noteq> t" using t(1) by auto
  have others: "ent ?m3 h t' j = ent m h t' j" if "lv t' \<noteq> None" "unat j < 512" "(t', j) \<noteq> (t, i)" for t' j
  proof -
    have "ent ?m3 h t' j = ent ?m2 h t' j"
      using ent_write_other [OF tab(1) [of t] tab(1) [OF that(1)] t(2) that(2) not_sym [OF that(3)]] t(1) by simp
    also have "\<dots> = ent m1 h t' j" using tab(2) [OF that(1)] n(2) that(2) by (intro pages_same) auto
    also have "\<dots> = ent m h t' j"
      using page_beyond [OF tab(2) [OF that(1)]] that(2) by (intro ent_same same_on_mono [OF m1])
    finally show ?thesis .
  qed
  have cleared: "ent ?m3 h n j = 0" if "unat j < 512" for j
    using ent_write_other [OF tab(1) [of t] ok_n t(2) that] t(1) nt ent_cleared [OF that] by simp
  have "\<forall>t' j. lv t' \<noteq> None \<longrightarrow> unat j < 512 \<longrightarrow> (t', j) \<noteq> (t, i) \<longrightarrow> ent ?m3 h t' j = ent m h t' j"
    "\<forall>j. unat j < 512 \<longrightarrow> ent ?m3 h n j = 0" "page n \<inter> (F - page n) = {}" "F - page n \<subseteq> F"
    using others cleared by blast+
  then show ?thesis
    unfolding table_added_def ent_write_same using ok t fresh n(1) e by (intro conjI)
qed

lemma get_next_level_present:
  assumes "t + get_hhdm L \<noteq> 0" and "present (ent (memory s) (get_hhdm L) t i)"
  shows "get_next_level L (t + get_hhdm L) i flags a s
    = ret (child (ent (memory s) (get_hhdm L) t i) + get_hhdm L, s)"
  using assms by (simp add: get_next_level_def present_def child_def Let_def)

lemma table_nonnull: "tables_ok h m F lv \<Longrightarrow> lv t = Some l \<Longrightarrow> t + h \<noteq> 0"
  using node_nonnull [of h "(t, 1)"] tables_ok_page [of h m F lv t l] by (simp add: table_page_def)

lemma table_added_ext:
  assumes added: "table_added (get_hhdm L) (memory s) (memory s') F (F - page n) lv t i n l"
    and "hhdm_ok L" and "pmm_has_free L s' (F - page n)" and "pmm_rest s s'" and "page n \<subseteq> F"
    and "same_on (beyond (get_hhdm L) (F \<union> table_bytes lv)) (memory s) (memory s')"
  shows "vm_ext L s F lv s' (F - page n) (lv(n \<mapsto> Suc l))"
proof -
  have "same_looks (get_hhdm L) (memory s) (memory s') lv"
    using look_kept [OF added] by (simp add: same_looks_def)
  moreover have "links_kept (get_hhdm L) (memory s) (memory s') lv"
    unfolding links_kept_def
  proof (intro allI impI)
    fix t' j
    assume a: "lv t' \<noteq> None" "unat j < 512" "present (ent (memory s) (get_hhdm L) t' j)"
    then have "(t', j) \<noteq> (t, i)" using table_added_level(3) [OF added] by auto
    then show "ent (memory s') (get_hhdm L) t' j = ent (memory s) (get_hhdm L) t' j"
      using table_added_others [OF added a(1,2)] by blast
  qed
  moreover have "lv \<subseteq>\<^sub>m lv(n \<mapsto> Suc l)" using table_added_new(1) [OF added] by (auto simp: map_le_def)
  moreover have "table_bytes (lv(n \<mapsto> Suc l)) \<union> (F - page n) \<subseteq> table_bytes lv \<union> F"
    using assms(5) by (auto simp: table_bytes_def)
  ultimately show ?thesis
    using table_added_tables_ok [OF added] assms by (simp add: vm_ext_def vm_inv_def)
qed

lemma get_next_level_absent:
  assumes inv: "vm_inv L s F lv" and t: "lv t = Some (Suc (Suc l))" and i: "unat i < 512"
    and "\<not> present (ent (memory s) (get_hhdm L) t i)" and "F \<noteq> {}"
  obtains n s' where "get_next_level L (t + get_hhdm L) i flags True s = ret (n + get_hhdm L, s')"
    "vm_ext L s F lv s' (F - page n) (lv(n \<mapsto> Suc l))" "page n \<subseteq> F"
    "present (ent (memory s') (get_hhdm L) t i)" "child (ent (memory s') (get_hhdm L) t i) = n"
proof -
  let ?h = "get_hhdm L"
  have hh: "hhdm_ok L" and free: "pmm_has_free L s F" and ok: "tables_ok ?h (memory s) F lv"
    using inv by (simp_all add: vm_inv_def)
  obtain n s1 where n: "alloc L 1 s = ret (n, s1)" "n \<noteq> 0" "region_ok ?h (n, 1)" "page n \<subseteq> F"
    "pmm_has_free L s1 (F - page n)" "same_on (beyond ?h F) (memory s) (memory s1)" "pmm_rest s s1"
    using alloc_one_page [OF free assms(5)] by metis
  have tp: "table_page ?h n" using table_pageI [OF hh n(3)] .
  define f where "f = (if flags AND USER \<noteq> 0 then PRESENT OR (WRITEABLE OR USER) else PRESENT OR WRITEABLE)"
  have e: "present (n OR f)" "child (n OR f) = n" using linked_entry [OF tp] by (simp_all add: f_def)
  define m where "m = write64 (memset (memory s1) (n + ?h) 0 4096) (t + ?h + 8 * i) (n OR f)"
  define s' where "s' = s1\<lparr>memory := m\<rparr>"
  have call: "get_next_level L (t + ?h) i flags True s = ret (n + ?h, s')"
    using assms(4) n(1,2) table_nonnull [OF ok t]
    by (simp add: get_next_level_def present_def Let_def set_entry_def s'_def m_def f_def PAGE_SIZE_def or.assoc)
  have added: "table_added ?h (memory s) (memory s') F (F - page n) lv t i n l"
    using fresh_table_added [OF ok t i assms(4) n(6) tp n(4) e] by (simp add: s'_def m_def)
  have tF: "page t \<inter> F = {}" using tables_ok_page [OF ok t] by simp
  have "same_on (- span (n + ?h) 4096 \<inter> - span (t + ?h) 4096) (memory s1) m"
    unfolding m_def using entry_in_page [OF i, of t ?h]
    by (intro same_on_write64_after same_on_mono [OF memset_page_same]) auto
  then have "same_on (- beyond ?h (F - page n)) (memory s1) m" "same_on (beyond ?h (F \<union> table_bytes lv)) (memory s1) m"
    using tF n(4) t by (auto elim!: same_on_mono simp: page_span beyond_def table_bytes_def)
  then have "pmm_has_free L s' (F - page n)" "same_on (beyond ?h (F \<union> table_bytes lv)) (memory s) m"
    using store_law [OF n(5)] same_on_trans [OF same_on_mono [OF n(6) beyond_antimono]] by (auto simp: s'_def)
  then have "vm_ext L s F lv s' (F - page n) (lv(n \<mapsto> Suc l))"
    using table_added_ext [OF added hh] n(4,7) by (simp add: s'_def)
  then show thesis using that [OF call] n(4) table_added_linked [OF added] by blast
qed

lemma get_next_level_exhausted:
  assumes inv: "vm_inv L s {} lv" and t: "lv t = Some l"
    and "\<not> present (ent (memory s) (get_hhdm L) t i)"
  shows "get_next_level L (t + get_hhdm L) i flags True s
    = halt (Panic ''Pmm::alloc(1) failed in get_next_level() -- out of physical memory'')"
proof -
  have "pmm_has_free L s {}" "tables_ok (get_hhdm L) (memory s) {} lv" using inv by (simp_all add: vm_inv_def)
  then show ?thesis
    using alloc_no_page [of L s] table_nonnull [of "get_hhdm L" "memory s" "{}" lv t l] t assms(3)
    by (auto simp: get_next_level_def present_def Let_def)
qed

text \<open>One level down, whether the table was there or had to be made.\<close>

lemma get_next_level_down:
  assumes inv: "vm_inv L s F lv" and t: "lv t = Some (Suc (Suc l))" and i: "unat i < 512" and "F \<noteq> {}"
  obtains p s' F' lv' where "get_next_level L (t + get_hhdm L) i flags True s = ret (p + get_hhdm L, s')"
    "vm_ext L s F lv s' F' lv'" "lv' p = Some (Suc l)" "card F \<le> card F' + 4096"
    "present (ent (memory s') (get_hhdm L) t i)" "child (ent (memory s') (get_hhdm L) t i) = p"
proof (cases "present (ent (memory s) (get_hhdm L) t i)")
  case True
  have ok: "tables_ok (get_hhdm L) (memory s) F lv" using inv by (simp add: vm_inv_def)
  show thesis
    using that [OF get_next_level_present [OF table_nonnull [OF ok t] True] vm_ext_refl [OF inv]
        tables_ok_child [OF ok t i True]] True by simp
next
  case False
  obtain n s' where n: "get_next_level L (t + get_hhdm L) i flags True s = ret (n + get_hhdm L, s')"
    "vm_ext L s F lv s' (F - page n) (lv(n \<mapsto> Suc l))" "page n \<subseteq> F"
    "present (ent (memory s') (get_hhdm L) t i)" "child (ent (memory s') (get_hhdm L) t i) = n"
    using get_next_level_absent [OF inv t i False assms(4)] by blast
  have "card F \<le> card (F - page n) + 4096"
    using card_Un_le [of "F - page n" "page n"] n(3) by (simp add: card_page Un_absorb2)
  then show thesis using that [OF n(1,2) _ _ n(4,5)] by simp
qed

text \<open>What a whole operation may do: add tables taken from the free pages, and write to tables.\<close>

definition vm_grow ::
  "limine \<Rightarrow> 'a pmm_scheme \<Rightarrow> u64 set \<Rightarrow> (u64 \<Rightarrow> nat option) \<Rightarrow> 'a pmm_scheme \<Rightarrow> u64 set \<Rightarrow> (u64 \<Rightarrow> nat option) \<Rightarrow> bool" where
  "vm_grow L s F lv s' F' lv' \<longleftrightarrow> vm_inv L s' F' lv' \<and> F' \<subseteq> F \<and> lv \<subseteq>\<^sub>m lv'
     \<and> table_bytes lv' \<union> F' \<subseteq> table_bytes lv \<union> F \<and> pmm_rest s s'
     \<and> same_on (beyond (get_hhdm L) (F \<union> table_bytes lv)) (memory s) (memory s')"

lemma vm_ext_grow: "vm_ext L s F lv s' F' lv' \<Longrightarrow> vm_grow L s F lv s' F' lv'"
  by (simp add: vm_ext_def vm_grow_def)

lemma vm_grow_refl: "vm_inv L s F lv \<Longrightarrow> vm_grow L s F lv s F lv"
  by (simp add: vm_grow_def)

lemma vm_growD:
  assumes "vm_grow L s F lv s' F' lv'"
  shows "vm_inv L s' F' lv'" "F' \<subseteq> F" "lv \<subseteq>\<^sub>m lv'" "table_bytes lv' \<union> F' \<subseteq> table_bytes lv \<union> F" "pmm_rest s s'"
    "same_on (beyond (get_hhdm L) (F \<union> table_bytes lv)) (memory s) (memory s')"
  using assms by (simp_all add: vm_grow_def)

lemma vm_grow_trans:
  assumes a: "vm_grow L s F lv s' F' lv'" and b: "vm_grow L s' F' lv' s'' F'' lv''"
  shows "vm_grow L s F lv s'' F'' lv''"
proof -
  note A = vm_growD [OF a] and B = vm_growD [OF b]
  have "beyond (get_hhdm L) (F \<union> table_bytes lv) \<subseteq> beyond (get_hhdm L) (F' \<union> table_bytes lv')"
    using A(4) by (intro beyond_antimono) auto
  then have "same_on (beyond (get_hhdm L) (F \<union> table_bytes lv)) (memory s) (memory s'')"
    using same_on_trans [OF A(6)] same_on_mono [OF B(6)] by blast
  then show ?thesis
    unfolding vm_grow_def
    using B(1) subset_trans [OF B(2) A(2)] map_le_trans [OF A(3) B(3)] subset_trans [OF B(4) A(4)]
      pmm_rest_trans [OF A(5) B(5)] by (intro conjI)
qed

lemma vm_grow_level: "vm_grow L s F lv s' F' lv' \<Longrightarrow> lv t = Some l \<Longrightarrow> lv' t = Some l"
  by (auto dest!: vm_growD(3) simp: map_le_def dom_def)

text \<open>Writing a leaf entry.\<close>

definition leaf_value :: "u64 \<Rightarrow> u64 option" where
  "leaf_value e = (if present e then Some e else None)"

lemma set_leaf:
  fixes e :: u64
  assumes inv: "vm_inv L s F lv" and r: "lv r = Some 4" and p: "reach (memory s) (get_hhdm L) r (table_path va) = Some p"
  defines "s' \<equiv> set_entry (p + get_hhdm L) (pt_entry va) e s"
  shows "vm_grow L s F lv s' F lv"
    and "translation (memory s') (get_hhdm L) r v
      = (if vpn v = vpn va then leaf_value e else translation (memory s) (get_hhdm L) r v)"
    and "p + get_hhdm L \<noteq> 0"
    and "reach (memory s') (get_hhdm L) r (table_path v) = reach (memory s) (get_hhdm L) r (table_path v)"
proof -
  let ?h = "get_hhdm L"
  have ok: "tables_ok ?h (memory s) F lv" and free: "pmm_has_free L s F" using inv by (simp_all add: vm_inv_def)
  have r3: "lv r = Some (Suc (length (table_path w)))" for w using r by simp
  have lvp: "lv p = Some 1" using reach_level [OF ok _ _ p, of 0] r3 by simp
  have tab: "region_ok ?h (t, 1)" if "lv t \<noteq> None" for t
    using tables_ok_page [OF ok] that by (auto simp: table_page_def)
  have "ent (memory s') ?h t j = ent (memory s) ?h t j"
    if "lv t \<noteq> None" "unat j < 512" "(t, j) \<noteq> (p, pt_entry va)" for t j
    using ent_write_other [OF tab [of p] tab [OF that(1)] index_less(4) that(2) not_sym [OF that(3)]] lvp
    by (simp add: s'_def set_entry_def)
  then have w: "leaf_written ?h (memory s) (memory s') lv p (pt_entry va) e"
    using lvp by (simp add: leaf_written_def s'_def set_entry_def)
  have sm: "same_on (- span (p + ?h) 4096) (memory s) (memory s')"
    unfolding s'_def set_entry_def using entry_in_page [OF index_less(4) [of va], of p ?h] by (auto intro!: same_on_write64)
  have pF: "page p \<inter> F = {}" using tables_ok_page [OF ok lvp] by simp
  have "- beyond ?h F \<subseteq> - span (p + ?h) 4096" "beyond ?h (F \<union> table_bytes lv) \<subseteq> - span (p + ?h) 4096"
    using pF lvp by (auto simp: page_span beyond_def table_bytes_def)
  then have "pmm_has_free L s' F" "same_on (beyond ?h (F \<union> table_bytes lv)) (memory s) (memory s')"
    using store_law [OF free] same_on_mono [OF sm] by (auto simp: s'_def set_entry_def)
  then show "vm_grow L s F lv s' F lv"
    using leaf_written_tables_ok [OF w ok] inv by (simp add: vm_grow_def vm_inv_def s'_def set_entry_def)
  show "translation (memory s') ?h r v = (if vpn v = vpn va then leaf_value e else translation (memory s) ?h r v)"
    using leaf_written_look [OF w ok r3 p, of "table_path v" "pt_entry v"]
    by (auto simp: translation_def same_vpn leaf_value_def)
  show "p + ?h \<noteq> 0" using table_nonnull [OF ok lvp] .
  show "reach (memory s') ?h r (table_path v) = reach (memory s) ?h r (table_path v)"
    using leaf_written_reach [OF w ok r3] by simp
qed

lemma map_page_grows:
  assumes inv: "vm_inv L s F lv" and r: "lv r = Some 4" and room: "12288 \<le> card F"
  shows "\<exists>s' F' lv'. map_page L (r + get_hhdm L) cur_pa cur_va flags s = ret s'
    \<and> vm_grow L s F lv s' F' lv' \<and> card F \<le> card F' + 12288
    \<and> (\<forall>v. translation (memory s') (get_hhdm L) r v
      = (if vpn v = vpn cur_va then leaf_value (cur_pa OR flags) else translation (memory s) (get_hhdm L) r v))"
proof -
  let ?h = "get_hhdm L"
  have ne: "G \<noteq> {}" if "0 < card G" for G :: "u64 set" using that by auto
  have r': "lv r = Some (Suc (Suc 2))" using r by simp
  have "F \<noteq> {}" using room by (intro ne) simp
  then obtain p3 s1 F1 lv1 where d1: "get_next_level L (r + ?h) (pml4_entry cur_va) flags True s = ret (p3 + ?h, s1)"
    "vm_ext L s F lv s1 F1 lv1" "lv1 p3 = Some (Suc 2)" "card F \<le> card F1 + 4096"
    "present (ent (memory s1) ?h r (pml4_entry cur_va))" "child (ent (memory s1) ?h r (pml4_entry cur_va)) = p3"
    using get_next_level_down [OF inv r' index_less(1)] by metis
  have "F1 \<noteq> {}" using room d1(4) by (intro ne) simp
  moreover have "lv1 p3 = Some (Suc (Suc 1))" using d1(3) by simp
  ultimately obtain p2 s2 F2 lv2 where d2: "get_next_level L (p3 + ?h) (pdpt_entry cur_va) flags True s1 = ret (p2 + ?h, s2)"
    "vm_ext L s1 F1 lv1 s2 F2 lv2" "lv2 p2 = Some (Suc 1)" "card F1 \<le> card F2 + 4096"
    "present (ent (memory s2) ?h p3 (pdpt_entry cur_va))" "child (ent (memory s2) ?h p3 (pdpt_entry cur_va)) = p2"
    using get_next_level_down [OF vm_extD(1) [OF d1(2)] _ index_less(2)] by metis
  have "F2 \<noteq> {}" using room d1(4) d2(4) by (intro ne) simp
  moreover have "lv2 p2 = Some (Suc (Suc 0))" using d2(3) by simp
  ultimately obtain p1 s3 F3 lv3 where d3: "get_next_level L (p2 + ?h) (pd_entry cur_va) flags True s2 = ret (p1 + ?h, s3)"
    "vm_ext L s2 F2 lv2 s3 F3 lv3" "lv3 p1 = Some (Suc 0)" "card F2 \<le> card F3 + 4096"
    "present (ent (memory s3) ?h p2 (pd_entry cur_va))" "child (ent (memory s3) ?h p2 (pd_entry cur_va)) = p1"
    using get_next_level_down [OF vm_extD(1) [OF d2(2)] _ index_less(3)] by metis
  have e1: "vm_ext L s1 F1 lv1 s3 F3 lv3" using vm_ext_trans [OF d2(2) d3(2)] .
  have e: "vm_ext L s F lv s3 F3 lv3" using vm_ext_trans [OF d1(2) e1] .
  have "ent (memory s3) ?h r (pml4_entry cur_va) = ent (memory s1) ?h r (pml4_entry cur_va)"
    using vm_extD(7) [OF e1] d1(5) vm_ext_level [OF d1(2) r] by (simp add: links_kept_def)
  moreover have "ent (memory s3) ?h p3 (pdpt_entry cur_va) = ent (memory s2) ?h p3 (pdpt_entry cur_va)"
    using vm_extD(7) [OF d3(2)] d2(5) vm_ext_level [OF d2(2) d1(3)] by (simp add: links_kept_def)
  ultimately have reach: "reach (memory s3) ?h r (table_path cur_va) = Some p1"
    using d1(5,6) d2(5,6) d3(5,6) by simp
  note hyps = vm_extD(1) [OF e] vm_ext_level [OF e r] reach
  note leaf = set_leaf(1,2) [OF hyps, where e = "cur_pa OR flags"] set_leaf(3) [OF hyps]
  have "translation (memory s3) ?h r v = translation (memory s) ?h r v" for v
    using vm_extD(6) [OF e] r by (simp add: same_looks_def translation_def)
  then show ?thesis
    using vm_grow_trans [OF vm_ext_grow [OF e] leaf(1)] leaf d1(1,4) d2(1,4) d3(1,4)
    by (intro exI [of _ "set_entry (p1 + ?h) (pt_entry cur_va) (cur_pa OR flags) s3"] exI [of _ F3] exI [of _ lv3])
      (simp add: map_page_def)
qed

section \<open>Ranges of pages\<close>

lemma unat_vpn: "unat (vpn v) = unat v div 4096 mod 2 ^ 36"
  by (simp only: vpn_def unsigned_take_bit_eq unat_drop_bit_eq) (simp add: take_bit_eq_mod drop_bit_eq_div)

lemma vpn_align_down: "vpn (align_down v PAGE_SIZE) = vpn v"
  by (simp add: word_unat_eq_iff unat_vpn unat_align_down_page)

lemma mod_mult_div: "x mod (a * b) div a = x div a mod (b :: nat)"
  by (cases "a = 0") (simp_all add: mod_mult2_eq)

lemma unat_vpn_plus: "unat (vpn (v + of_nat (4096 * j))) = (unat v div 4096 + j) mod 2 ^ 36"
proof -
  have "unat (v + of_nat (4096 * j)) = (unat v + 4096 * j) mod (4096 * 2 ^ 52)"
    by (simp add: unat_word_ariths unat_of_nat take_bit_eq_mod mod_simps)
  then have "unat (v + of_nat (4096 * j)) div 4096 = (unat v + 4096 * j) div 4096 mod 2 ^ 52"
    by (simp only: mod_mult_div)
  moreover have "(x mod 2 ^ 52) mod 2 ^ 36 = x mod 2 ^ 36" for x :: nat
    by (rule mod_mod_cancel) (simp add: le_imp_power_dvd)
  ultimately show ?thesis unfolding unat_vpn by (simp add: add.commute)
qed

lemma mod_shift_inj:
  fixes j k n :: nat
  assumes "(a + j) mod n = (a + k) mod n" and "j < n" and "k < n"
  shows "j = k"
proof -
  have "j \<le> k" if "(a + j) mod n = (a + k) mod n" "j < n" for j k
  proof (rule ccontr)
    assume "\<not> j \<le> k"
    then have "n dvd (a + j) - (a + k)" using that(1) mod_eq_dvd_iff_nat [of "a + k" "a + j" n] by simp
    then show False using \<open>\<not> j \<le> k\<close> that(2) dvd_imp_le [of n "j - k"] by simp
  qed
  from this [of j k] this [of k j] show ?thesis using assms by simp
qed

lemma vpn_distinct:
  assumes "j < 2 ^ 36" and "k < 2 ^ 36" and "vpn (v + of_nat (4096 * j)) = vpn (v + of_nat (4096 * k))"
  shows "j = k"
proof (rule mod_shift_inj [OF _ assms(1,2)])
  show "(unat v div 4096 + j) mod 2 ^ 36 = (unat v div 4096 + k) mod 2 ^ 36"
    using assms(3) unfolding unat_vpn_plus [symmetric] by simp
qed

lemma vpn_first:
  assumes "Suc j < 2 ^ 36"
  shows "vpn v \<noteq> vpn (v + of_nat (4096 * Suc j))"
proof
  assume "vpn v = vpn (v + of_nat (4096 * Suc j))"
  moreover have "v + of_nat (4096 * 0) = v" by simp
  ultimately have "vpn (v + of_nat (4096 * Suc j)) = vpn (v + of_nat (4096 * 0))" by argo
  moreover have "(0 :: nat) < 2 ^ 36" by (rule zero_less_power) simp
  ultimately have "Suc j = 0" using vpn_distinct [OF assms] by blast
  then show False by simp
qed

text \<open>
  \<open>pages_left len off n\<close>: a loop that advances \<open>off\<close> by a page until it
  reaches \<open>len\<close> has \<open>n\<close> passes left, and does not wrap.
\<close>

definition pages_left :: "u64 \<Rightarrow> u64 \<Rightarrow> nat \<Rightarrow> bool" where
  "pages_left len off n \<longleftrightarrow> unat off + 4096 * n < 2 ^ 64 \<and> unat len \<le> unat off + 4096 * n
     \<and> (n = 0 \<or> unat off + 4096 * (n - 1) < unat len)"

lemma pages_left_0: "pages_left len off 0 \<Longrightarrow> \<not> off < len"
  by (simp add: pages_left_def word_less_nat_alt)

lemma pages_left_Suc:
  assumes "pages_left len off (Suc n)"
  shows "off < len" and "pages_left len (off + PAGE_SIZE) n"
proof -
  have "unat (off + PAGE_SIZE) = unat off + 4096"
    using assms unat_add_nowrap [of off PAGE_SIZE] by (simp add: pages_left_def)
  then show "off < len" "pages_left len (off + PAGE_SIZE) n"
    using assms by (cases n; simp add: pages_left_def word_less_nat_alt)+
qed

lemma pages_left_start:
  assumes "unat len < 2 ^ 64 - 4096"
  shows "pages_left len 0 ((unat len + 4095) div 4096)"
proof -
  define n where "n = (unat len + 4095) div 4096"
  have "4096 * n \<le> unat len + 4095" "unat len \<le> 4096 * n" unfolding n_def by simp_all
  then show ?thesis using assms by (auto simp: pages_left_def n_def [symmetric])
qed

abbreviation nth_page :: "u64 \<Rightarrow> nat \<Rightarrow> u64" where
  "nth_page va j \<equiv> va + of_nat (4096 * j)"

lemma next_page: "va + (off + PAGE_SIZE) + of_nat (4096 * j) = va + off + of_nat (4096 * Suc j)"
  by (simp add: PAGE_SIZE_def algebra_simps)

lemma map_loop_grows:
  assumes "vm_inv L s F lv" and "lv r = Some 4" and "12288 * n \<le> card F"
    and "pages_left len off n" and "n \<le> 2 ^ 36"
  shows "\<exists>s' F' lv'. map_loop L (r + get_hhdm L) pa va len flags off s = ret s'
    \<and> vm_grow L s F lv s' F' lv' \<and> card F \<le> card F' + 12288 * n
    \<and> (\<forall>j<n. translation (memory s') (get_hhdm L) r (nth_page (va + off) j)
          = leaf_value (align_down (nth_page (pa + off) j) PAGE_SIZE OR flags))
    \<and> (\<forall>v. (\<forall>j<n. vpn v \<noteq> vpn (nth_page (va + off) j))
          \<longrightarrow> translation (memory s') (get_hhdm L) r v = translation (memory s) (get_hhdm L) r v)"
  using assms
proof (induction n arbitrary: s F lv off)
  case 0
  then show ?case
    using vm_grow_refl [OF 0(1)] pages_left_0 [OF 0(4)]
    by (intro exI [of _ s] exI [of _ F] exI [of _ lv]) (simp add: map_loop.simps)
next
  case (Suc n)
  let ?h = "get_hhdm L"
  note left = pages_left_Suc [OF Suc.prems(4)]
  have "12288 \<le> card F" using Suc.prems(3) by simp
  then obtain s1 F1 lv1 where s1: "map_page L (r + ?h) (align_down (pa + off) PAGE_SIZE) (align_down (va + off) PAGE_SIZE) flags s = ret s1"
    "vm_grow L s F lv s1 F1 lv1" "card F \<le> card F1 + 12288"
    "\<forall>v. translation (memory s1) ?h r v = (if vpn v = vpn (va + off) then leaf_value (align_down (pa + off) PAGE_SIZE OR flags)
       else translation (memory s) ?h r v)"
    using map_page_grows [OF Suc.prems(1,2), of "align_down (pa + off) PAGE_SIZE" "align_down (va + off) PAGE_SIZE" flags]
    unfolding vpn_align_down by blast
  have "12288 * n \<le> card F1" "n \<le> 2 ^ 36" 
    using Suc.prems(3,5) s1(3) by simp_all
  then obtain s' F' lv' where s': "map_loop L (r + ?h) pa va len flags (off + PAGE_SIZE) s1 = ret s'"
    "vm_grow L s1 F1 lv1 s' F' lv'" "card F1 \<le> card F' + 12288 * n"
    "\<forall>j<n. translation (memory s') ?h r (nth_page (va + (off + PAGE_SIZE)) j)
       = leaf_value (align_down (nth_page (pa + (off + PAGE_SIZE)) j) PAGE_SIZE OR flags)"
    "\<forall>v. (\<forall>j<n. vpn v \<noteq> vpn (nth_page (va + (off + PAGE_SIZE)) j))
       \<longrightarrow> translation (memory s') ?h r v = translation (memory s1) ?h r v"
    using Suc.IH [OF vm_growD(1) [OF s1(2)] vm_grow_level [OF s1(2) Suc.prems(2)] _ left(2)] by blast
  have run: "map_loop L (r + ?h) pa va len flags off s = ret s'"
    using left(1) s1(1) s'(1) by (subst map_loop.simps) simp
  note later = s'(4,5) [unfolded next_page]
  have "vpn (va + off) \<noteq> vpn (nth_page (va + off) (Suc j))" if "j < n" for j
    using that Suc.prems(5) by (intro vpn_first) linarith
  then have first: "translation (memory s') ?h r (va + off) = leaf_value (align_down (pa + off) PAGE_SIZE OR flags)"
    using later(2) s1(4) by simp
  show ?case
  proof (intro exI conjI)
    show "map_loop L (r + ?h) pa va len flags off s = ret s'" by (rule run)
    show "vm_grow L s F lv s' F' lv'" using vm_grow_trans [OF s1(2) s'(2)] .
    show "card F \<le> card F' + 12288 * Suc n" using s1(3) s'(3) by simp
    show "\<forall>j<Suc n. translation (memory s') ?h r (nth_page (va + off) j)
        = leaf_value (align_down (nth_page (pa + off) j) PAGE_SIZE OR flags)"
      using first later(1) unfolding All_less_Suc2 by simp
    show "\<forall>v. (\<forall>j<Suc n. vpn v \<noteq> vpn (nth_page (va + off) j))
        \<longrightarrow> translation (memory s') ?h r v = translation (memory s) ?h r v"
      using later(2) s1(4) unfolding All_less_Suc2 by simp
  qed
qed

section \<open>Reading the tables\<close>

text \<open>The three calls of \<open>get_next_level\<close> without allocation, in \<open>unmap\<close> and \<open>va_to_pa\<close>.\<close>

lemma get_next_level_missing:
  "t + get_hhdm L \<noteq> 0 \<Longrightarrow> \<not> present (ent (memory s) (get_hhdm L) t i)
    \<Longrightarrow> get_next_level L (t + get_hhdm L) i flags False s = ret (null, s)"
  by (simp add: get_next_level_def present_def Let_def)

lemma get_next_level_null: "get_next_level L null i flags a s = halt NullDeref"
  by (simp add: get_next_level_def)

lemma get_path:
  assumes ok: "tables_ok (get_hhdm L) (memory s) F lv" and r: "lv r = Some 4" and null: "K null s = halt NullDeref"
  shows "ebind (get_next_level L (r + get_hhdm L) (pml4_entry va) 0 False s) (\<lambda>(pdpt, s).
     ebind (get_next_level L pdpt (pdpt_entry va) 0 False s) (\<lambda>(pd, s).
     ebind (get_next_level L pd (pd_entry va) 0 False s) (\<lambda>(pt, s). K pt s)))
    = (case reach (memory s) (get_hhdm L) r (table_path va) of
         None \<Rightarrow> halt NullDeref | Some p \<Rightarrow> K (p + get_hhdm L) s)"
proof -
  let ?h = "get_hhdm L" and ?m = "memory s"
  let ?e4 = "ent ?m ?h r (pml4_entry va)"
  let ?e3 = "ent ?m ?h (child ?e4) (pdpt_entry va)"
  let ?e2 = "ent ?m ?h (child ?e3) (pd_entry va)"
  have r': "lv r = Some (Suc (Suc 2))" using r by simp
  have nn: "r + ?h \<noteq> 0" using table_nonnull [OF ok r] .
  note missing = get_next_level_missing [where s = s and flags = 0] and found = get_next_level_present [where s = s and flags = 0 and a = False]
  show ?thesis
  proof (cases "present ?e4")
    case False
    then show ?thesis by (simp add: missing [OF nn] get_next_level_null)
  next
    case p4: True
    have l3: "lv (child ?e4) = Some (Suc (Suc 1))" using tables_ok_child [OF ok r' index_less(1) p4] by simp
    note nn3 = table_nonnull [OF ok l3]
    show ?thesis
    proof (cases "present ?e3")
      case False
      then show ?thesis by (simp add: p4 found [OF nn] missing [OF nn3] get_next_level_null)
    next
      case p3: True
      have l2: "lv (child ?e3) = Some (Suc (Suc 0))" using tables_ok_child [OF ok l3 index_less(2) p3] by simp
      note nn2 = table_nonnull [OF ok l2]
      show ?thesis
        using null p4 p3 by (cases "present ?e2") (simp_all add: found [OF nn] found [OF nn3] found [OF nn2] missing [OF nn2])
    qed
  qed
qed

abbreviation directory :: "limine \<Rightarrow> u64 \<Rightarrow> PageDirectory" where
  "directory L r \<equiv> \<lparr>pml4 = r + get_hhdm L, pml4_pa = r\<rparr>"

lemma va_to_pa_eq:
  assumes "vm_inv L s F lv" and "lv r = Some 4"
  shows "va_to_pa L (directory L r) va s = (case reach (memory s) (get_hhdm L) r (table_path va) of
     None \<Rightarrow> halt NullDeref
   | Some p \<Rightarrow> ret ((ent (memory s) (get_hhdm L) p (pt_entry va) AND PADDR_MASK) OR (va AND OFFMASK)))"
proof -
  have ok: "tables_ok (get_hhdm L) (memory s) F lv" using assms(1) by (simp add: vm_inv_def)
  have "p + get_hhdm L \<noteq> 0" if "reach (memory s) (get_hhdm L) r (table_path va) = Some p" for p
    using set_leaf(3) [OF assms that] .
  then show ?thesis
    using get_path [OF ok assms(2), of "\<lambda>pt s. if pt = null then halt NullDeref
        else ret ((get_entry (memory s) pt (pt_entry va) AND PADDR_MASK) OR (va AND OFFMASK))" va]
    by (simp add: va_to_pa_def split: option.splits)
qed

lemma unmap_page_eq:
  assumes "vm_inv L s F lv" and "lv r = Some 4"
  shows "unmap_page L (r + get_hhdm L) va s = (case reach (memory s) (get_hhdm L) r (table_path va) of
     None \<Rightarrow> halt NullDeref | Some p \<Rightarrow> ret (set_entry (p + get_hhdm L) (pt_entry va) 0 s))"
proof -
  have ok: "tables_ok (get_hhdm L) (memory s) F lv" using assms(1) by (simp add: vm_inv_def)
  have "p + get_hhdm L \<noteq> 0" if "reach (memory s) (get_hhdm L) r (table_path va) = Some p" for p
    using set_leaf(3) [OF assms that] .
  then show ?thesis
    using get_path [OF ok assms(2), of "\<lambda>pt s. if pt = null then halt NullDeref else ret (set_entry pt (pt_entry va) 0 s)" va]
    by (simp add: unmap_page_def split: option.splits)
qed

lemma va_to_pa_translation:
  assumes "vm_inv L s F lv" and "lv r = Some 4" and "translation (memory s) (get_hhdm L) r va = Some e"
  shows "va_to_pa L (directory L r) va s = ret ((e AND PADDR_MASK) OR (va AND OFFMASK))"
  using assms(3) unfolding va_to_pa_eq [OF assms(1,2)]
  by (auto simp: translation_def look_def leaf_def split: option.splits if_splits Option.bind_splits)

section \<open>Addresses inside a mapped range\<close>

lemma page_aligned_and: "4096 dvd unat t \<Longrightarrow> t AND NOT (mask 12) = t"
  using and_not_mask_unat [of t 12] by (simp add: word_unat_eq_iff)

lemma leaf_address:
  assumes "4096 dvd unat P" and "unat P < 2 ^ 48" and "flags AND PADDR_MASK = 0"
  shows "(align_down P PAGE_SIZE OR flags) AND PADDR_MASK = P"
  using assms masked_address [OF assms(1,2)] page_aligned_and [OF assms(1)]
  by (simp add: align_down_def page_mask bit.conj_disj_distrib2)

lemma page_plus_offset:
  assumes "4096 dvd unat P"
  shows "P OR (v AND OFFMASK) = P + of_nat (unat v mod 4096)"
proof -
  have m: "OFFMASK = mask 12" by (simp add: OFFMASK_def mask_eq_exp_minus_1)
  have "P AND (v AND mask 12) = (P AND NOT (mask 12)) AND (v AND mask 12)" using page_aligned_and [OF assms] by simp
  also have "\<dots> = 0" by (rule bit_word_eqI) (auto simp: bit_simps)
  finally have "P + (v AND mask 12) = P OR (v AND mask 12)" by (rule disjunctive_add_eq_or)
  moreover have "v AND mask 12 = of_nat (unat v mod 4096)"
    by (simp add: word_unat_eq_iff unat_of_nat_small flip: take_bit_eq_mask) (simp add: take_bit_eq_mod unat_mod)
  ultimately show ?thesis by (simp add: m)
qed

lemma word_page_split: "(x :: u64) = of_nat (4096 * (unat x div 4096)) + of_nat (unat x mod 4096)"
proof -
  have "of_nat (4096 * (unat x div 4096)) + of_nat (unat x mod 4096) = (of_nat (4096 * (unat x div 4096) + unat x mod 4096) :: u64)"
    by (simp only: of_nat_add)
  also have "\<dots> = of_nat (unat x)" by (simp only: mult_div_mod_eq)
  finally show ?thesis by simp
qed

lemma aligned_plus_mod:
  fixes va x :: u64
  assumes "4096 dvd unat va"
  shows "unat (va + x) mod 4096 = unat x mod 4096" and "unat (va + x) div 4096 mod 2 ^ 52 = (unat va div 4096 + unat x div 4096) mod 2 ^ 52"
proof -
  have u: "unat (va + x) = (unat va + unat x) mod (4096 * 2 ^ 52)" by (simp add: unat_word_ariths)
  have "(unat va + unat x) mod (4096 * 2 ^ 52) mod 4096 = (unat va + unat x) mod 4096"
    by (simp add: mod_mod_cancel)
  then show "unat (va + x) mod 4096 = unat x mod 4096" using assms u by (auto elim!: dvdE)
  show "unat (va + x) div 4096 mod 2 ^ 52 = (unat va div 4096 + unat x div 4096) mod 2 ^ 52"
    unfolding u mod_mult_div using assms by (auto elim!: dvdE simp: add.commute)
qed

lemma vpn_in_range:
  assumes "4096 dvd unat va"
  shows "vpn (va + x) = vpn (nth_page va (unat x div 4096))"
proof -
  have c: "(y mod 2 ^ 52) mod 2 ^ 36 = y mod 2 ^ 36" for y :: nat
    by (rule mod_mod_cancel) (simp add: le_imp_power_dvd)
  have "unat (vpn (va + x)) = unat (va + x) div 4096 mod 2 ^ 52 mod 2 ^ 36" by (simp only: unat_vpn c)
  also have "\<dots> = (unat va div 4096 + unat x div 4096) mod 2 ^ 36" by (simp only: aligned_plus_mod(2) [OF assms] c)
  finally show ?thesis by (simp only: word_unat_eq_iff unat_vpn_plus)
qed

text \<open>A page of the range: from the leaf entry back to the physical address of any byte in it.\<close>

lemma mapped_address:
  assumes al: "4096 dvd unat va" "4096 dvd unat pa" and flags: "flags AND PADDR_MASK = 0"
    and x: "unat pa + unat x < 2 ^ 48"
  shows "((align_down (nth_page pa (unat x div 4096)) PAGE_SIZE OR flags) AND PADDR_MASK) OR ((va + x) AND OFFMASK) = pa + x"
proof -
  let ?j = "unat x div 4096"
  let ?P = "nth_page pa ?j"
  have "unat (of_nat (4096 * ?j) :: u64) = 4096 * ?j"
    using u64_less_2p64 [of x] by (intro unat_of_nat_small) simp
  then have P: "unat ?P = unat pa + 4096 * ?j" using x by (subst unat_add_nowrap) simp_all
  then have "4096 dvd unat ?P" "unat ?P < 2 ^ 48" using al(2) x by simp_all
  then have "((align_down ?P PAGE_SIZE OR flags) AND PADDR_MASK) OR ((va + x) AND OFFMASK)
      = ?P + of_nat (unat (va + x) mod 4096)"
    using leaf_address [OF _ _ flags] page_plus_offset by simp
  also have "\<dots> = pa + (of_nat (4096 * ?j) + of_nat (unat x mod 4096))"
    by (simp only: aligned_plus_mod(1) [OF al(1)] add.assoc)
  also have "\<dots> = pa + x" using word_page_split [of x] by argo
  finally show ?thesis .
qed

end
