(* ===== verification/Virtual_Memory.thy ===== *)
theory Virtual_Memory
  imports Page_Walk
begin

text \<open>
  The properties of the virtual memory manager: what \<open>map\<close>, \<open>unmap\<close> and \<open>va_to_pa\<close> do to
  a page directory, how a new directory shares the kernel half, and what \<open>free_table\<close> leaves behind.
\<close>

lemma map_range_translates:
  assumes inv: "vm_inv L s F lv" and r: "lv r = Some 4"
    and n: "n = (unat len + 4095) div 4096" "n \<le> 2 ^ 36" "12288 * n \<le> card F"
    and al: "4096 dvd unat va" "4096 dvd unat pa" and pa: "unat pa + unat len \<le> 2 ^ 48"
    and flags: "flags AND PADDR_MASK = 0" "flags AND PRESENT \<noteq> 0"
  shows "\<exists>s' F' lv'. map_range L (r + get_hhdm L) pa va len flags s = ret s' \<and> vm_grow L s F lv s' F' lv'
    \<and> (\<forall>x<len. va_to_pa L (directory L r) (va + x) s' = ret (pa + x))
    \<and> (\<forall>v. (\<forall>x<len. vpn v \<noteq> vpn (va + x))
          \<longrightarrow> translation (memory s') (get_hhdm L) r v = translation (memory s) (get_hhdm L) r v)"
proof -
  let ?h = "get_hhdm L"
  have "unat len < 2 ^ 64 - 4096" using pa by simp
  from pages_left_start [OF this] have left: "pages_left len 0 n" unfolding n(1) .
  obtain s' F' lv' where s': "map_range L (r + ?h) pa va len flags s = ret s'" "vm_grow L s F lv s' F' lv'"
    "\<forall>j<n. translation (memory s') ?h r (nth_page va j) = leaf_value (align_down (nth_page pa j) PAGE_SIZE OR flags)"
    "\<forall>v. (\<forall>j<n. vpn v \<noteq> vpn (nth_page va j)) \<longrightarrow> translation (memory s') ?h r v = translation (memory s) ?h r v"
    using map_loop_grows [OF inv r n(3) left n(2), of pa va flags] by (auto simp: map_range_def)
  have in_range: "unat x div 4096 < n" if "x < len" for x
    using that n(1) by (simp add: word_less_nat_alt div_less_iff_less_mult)
  have "va_to_pa L (directory L r) (va + x) s' = ret (pa + x)" if x: "x < len" for x
  proof -
    let ?e = "align_down (nth_page pa (unat x div 4096)) PAGE_SIZE OR flags"
    have "present ?e" using flags(2) by (simp add: present_def [of flags, symmetric])
    moreover have "translation (memory s') ?h r (va + x) = translation (memory s') ?h r (nth_page va (unat x div 4096))"
      using vpn_in_range [OF al(1), of x] by (simp add: translation_def same_vpn)
    ultimately have "translation (memory s') ?h r (va + x) = Some ?e"
      using s'(3) in_range [OF x] by (simp add: leaf_value_def)
    moreover have "unat pa + unat x < 2 ^ 48" using pa x by (simp add: word_less_nat_alt)
    ultimately show ?thesis
      using va_to_pa_translation [OF vm_growD(1) [OF s'(2)] vm_grow_level [OF s'(2) r]]
        mapped_address [OF al flags(1)] by simp
  qed
  moreover have "translation (memory s') ?h r v = translation (memory s) ?h r v" if "\<forall>x<len. vpn v \<noteq> vpn (va + x)" for v
  proof -
    have "vpn v \<noteq> vpn (nth_page va j)" if "j < n" for j
    proof -
      have "4096 * j < unat len" using that left by (cases n) (auto simp: pages_left_def)
      then have "unat (of_nat (4096 * j) :: u64) < unat len"
        using u64_less_2p64 [of len] by (subst unat_of_nat_small) simp_all
      then show ?thesis using \<open>\<forall>x<len. vpn v \<noteq> vpn (va + x)\<close> by (simp add: word_less_nat_alt)
    qed
    then show ?thesis using s'(4) by blast
  qed
  ultimately show ?thesis using s'(1,2) by blast
qed

section \<open>Unmapping\<close>

lemma aligned_indices:
  "pml4_entry (align_down v PAGE_SIZE) = pml4_entry v" "pdpt_entry (align_down v PAGE_SIZE) = pdpt_entry v"
  "pd_entry (align_down v PAGE_SIZE) = pd_entry v" "pt_entry (align_down v PAGE_SIZE) = pt_entry v"
  using vpn_align_down [of v] by (simp_all add: same_vpn)

lemma unmap_loop_clears:
  assumes "vm_inv L s F lv" and "lv r = Some 4" and "pages_left len off n"
    and "\<forall>j<n. reach (memory s) (get_hhdm L) r (table_path (nth_page (va + off) j)) \<noteq> None"
  shows "\<exists>s'. unmap_loop L (r + get_hhdm L) va len off s = ret s' \<and> vm_grow L s F lv s' F lv
    \<and> (\<forall>v. translation (memory s') (get_hhdm L) r v
         = (if \<exists>j<n. vpn v = vpn (nth_page (va + off) j) then None else translation (memory s) (get_hhdm L) r v))"
  using assms
proof (induction n arbitrary: s off)
  case 0
  then show ?case
    using vm_grow_refl [OF 0(1)] pages_left_0 [OF 0(3)] by (intro exI [of _ s]) (simp add: unmap_loop.simps)
next
  case (Suc n)
  let ?h = "get_hhdm L"
  note left = pages_left_Suc [OF Suc.prems(3)]
  obtain p where p: "reach (memory s) ?h r (table_path (align_down (va + off) PAGE_SIZE)) = Some p"
    using Suc.prems(4) [rule_format, of 0] unfolding aligned_indices by auto
  define s1 where "s1 = set_entry (p + ?h) (pt_entry (align_down (va + off) PAGE_SIZE)) 0 s"
  have page: "unmap_page L (r + ?h) (align_down (va + off) PAGE_SIZE) s = ret s1"
    unfolding unmap_page_eq [OF Suc.prems(1,2)] p s1_def by simp
  note leaf = set_leaf(1,2,4) [OF Suc.prems(1,2) p, where e = 0, folded s1_def]
  have "\<forall>j<n. reach (memory s1) ?h r (table_path (nth_page (va + (off + PAGE_SIZE)) j)) \<noteq> None"
    using Suc.prems(4) unfolding next_page leaf(3) All_less_Suc2 by simp
  then obtain s' where s': "unmap_loop L (r + ?h) va len (off + PAGE_SIZE) s1 = ret s'" "vm_grow L s1 F lv s' F lv"
    "\<forall>v. translation (memory s') ?h r v = (if \<exists>j<n. vpn v = vpn (nth_page (va + off) (Suc j)) then None
       else translation (memory s1) ?h r v)"
    using Suc.IH [OF vm_growD(1) [OF leaf(1)] Suc.prems(2) left(2)] unfolding next_page by blast
  have "unmap_loop L (r + ?h) va len off s = ret s'"
    using left(1) page s'(1) by (subst unmap_loop.simps) simp
  moreover have "translation (memory s1) ?h r v = (if vpn v = vpn (va + off) then None else translation (memory s) ?h r v)" for v
    using leaf(2) [of v] by (simp add: vpn_align_down leaf_value_def present_bit)
  then have "translation (memory s') ?h r v = (if \<exists>j<Suc n. vpn v = vpn (nth_page (va + off) j) then None
      else translation (memory s) ?h r v)" for v
    using s'(3) [rule_format, of v] unfolding Ex_less_Suc2 by auto
  ultimately show ?case using vm_grow_trans [OF leaf(1) s'(2)] by blast
qed

section \<open>A new directory\<close>

lemma new_pagemap_empty:
  assumes "hhdm_ok L" and "pmm_has_free L s F" and "F \<noteq> {}"
  shows "\<exists>r s'. new_pagemap L s = ret (directory L r, s') \<and> vm_inv L s' (F - page r) [r \<mapsto> 4] \<and> page r \<subseteq> F
    \<and> (\<forall>i. unat i < 512 \<longrightarrow> ent (memory s') (get_hhdm L) r i = 0) \<and> pmm_rest s s'
    \<and> same_on (beyond (get_hhdm L) F) (memory s) (memory s')"
proof -
  let ?h = "get_hhdm L"
  obtain r s1 where r: "alloc L 1 s = ret (r, s1)" "r \<noteq> 0" "region_ok ?h (r, 1)" "page r \<subseteq> F"
    "pmm_has_free L s1 (F - page r)" "same_on (beyond ?h F) (memory s) (memory s1)" "pmm_rest s s1"
    using alloc_one_page [OF assms(2,3)] by metis
  define s' where "s' = s1\<lparr>memory := memset (memory s1) (r + ?h) 0 4096\<rparr>"
  have z: "ent (memory s') ?h r i = 0" if "unat i < 512" for i using ent_cleared [OF that] by (simp add: s'_def)
  have sm: "same_on (- span (r + ?h) 4096) (memory s1) (memory s')" using memset_page_same by (simp add: s'_def)
  have "same_on (- beyond ?h (F - page r)) (memory s1) (memory s')" "same_on (beyond ?h F) (memory s1) (memory s')"
    using r(4) by (auto intro!: same_on_mono [OF sm] simp: page_span beyond_def)
  then have free: "pmm_has_free L s' (F - page r)" and frame: "same_on (beyond ?h F) (memory s) (memory s')"
    using store_law [OF r(5)] same_on_trans [OF r(6)] by (auto simp: s'_def)
  have "tables_ok ?h (memory s') (F - page r) [r \<mapsto> 4]"
    using table_pageI [OF assms(1) r(3)] z
    by (auto simp: tables_ok_def tables_outside_def tables_down_def tables_apart_def present_bit split: if_splits)
  then have "vm_inv L s' (F - page r) [r \<mapsto> 4]" using assms(1) free by (simp add: vm_inv_def)
  moreover have "new_pagemap L s = ret (directory L r, s')"
    using r(1,2) by (simp add: new_pagemap_def s'_def get_hhdm_def Let_def)
  ultimately show ?thesis using r(4,7) z frame by (auto simp: s'_def)
qed

lemma cleared_directory:
  "\<forall>i. unat i < 512 \<longrightarrow> ent m h r i = 0 \<Longrightarrow> translation m h r v = None"
  by (simp add: translation_def look_leaf present_bit)

section \<open>Properties\<close>


lemma small_map_hhdm: "hhdm_ok small_map"
  by (simp add: hhdm_ok_def get_hhdm_def small_map_def)

lemma small_map_free:
  "pmm_has_free small_map (init_pmm small_map blank_pmm) (region_bytes (0x10000, 4))"
  using small_map_rep by (auto simp: pmm_has_free_def init_pmm_keeps blank_pmm_ok)

lemma small_map_directory:
  obtains r s where "new_pagemap small_map (init_pmm small_map blank_pmm) = ret (directory small_map r, s)"
    "vm_inv small_map s (region_bytes (0x10000, 4) - page r) [r \<mapsto> 4]"
    "12288 \<le> card (region_bytes (0x10000, 4) - page r)"
proof -
  have "card (region_bytes (0x10000, 4)) = 16384" by (simp add: region_bytes_def card_span)
  moreover from this have "region_bytes (0x10000, 4) \<noteq> {}" by (metis card.empty zero_neq_numeral)
  ultimately obtain r s where r: "new_pagemap small_map (init_pmm small_map blank_pmm) = ret (directory small_map r, s)"
    "vm_inv small_map s (region_bytes (0x10000, 4) - page r) [r \<mapsto> 4]" "page r \<subseteq> region_bytes (0x10000, 4)"
    using new_pagemap_empty [OF small_map_hhdm small_map_free] by blast
  moreover have "card (region_bytes (0x10000, 4) - page r) = 12288"
    using card_Diff_subset [OF _ r(3)] \<open>card (region_bytes (0x10000, 4)) = 16384\<close> by (simp add: card_page)
  ultimately show thesis using that by simp
qed


text \<open>
  Claim C14. Unmapping a range whose tables exist succeeds: afterwards no page of the range is
  translated, every other address translates as before, and the tables are well formed.
\<close>

theorem unmap_removes_translation:
  assumes "vm_inv L s F lv" and "lv r = Some 4" and "unat len < 2 ^ 64 - 4096"
    and "\<forall>j < (unat len + 4095) div 4096. reach (memory s) (get_hhdm L) r (table_path (nth_page va j)) \<noteq> None"
  shows "\<exists>s'. unmap L (r + get_hhdm L) va len s = ret s' \<and> vm_inv L s' F lv
    \<and> (\<forall>v. translation (memory s') (get_hhdm L) r v
         = (if \<exists>j < (unat len + 4095) div 4096. vpn v = vpn (nth_page va j) then None
            else translation (memory s) (get_hhdm L) r v))"
  using unmap_loop_clears [OF assms(1,2) pages_left_start [OF assms(3)], of va] assms(4)
  by (auto simp: unmap_def dest: vm_growD(1))

lemma small_map_one_page:
  obtains r s s' F' lv' where "new_pagemap small_map (init_pmm small_map blank_pmm) = ret (directory small_map r, s)"
    "map_range small_map (r + get_hhdm small_map) 0x7000 0x400000 0x1000 (PRESENT OR WRITEABLE) s = ret s'"
    "vm_inv small_map s' F' lv'" "lv' r = Some 4" "va_to_pa small_map (directory small_map r) 0x400000 s' = ret 0x7000"
proof -
  obtain r s where r: "new_pagemap small_map (init_pmm small_map blank_pmm) = ret (directory small_map r, s)"
    "vm_inv small_map s (region_bytes (0x10000, 4) - page r) [r \<mapsto> 4]"
    "12288 \<le> card (region_bytes (0x10000, 4) - page r)"
    using small_map_directory .
  have "\<exists>s' F' lv'. map_range small_map (r + get_hhdm small_map) 0x7000 0x400000 0x1000 (PRESENT OR WRITEABLE) s = ret s'
      \<and> vm_grow small_map s (region_bytes (0x10000, 4) - page r) [r \<mapsto> 4] s' F' lv'
      \<and> (\<forall>x<0x1000. va_to_pa small_map (directory small_map r) (0x400000 + x) s' = ret (0x7000 + x))
      \<and> (\<forall>v. (\<forall>x<0x1000. vpn v \<noteq> vpn (0x400000 + x)) \<longrightarrow> translation (memory s') (get_hhdm small_map) r v
           = translation (memory s) (get_hhdm small_map) r v)"
    by (rule map_range_translates [OF r(2), where n = 1])
      (use r(3) in \<open>simp_all add: PRESENT_def WRITEABLE_def PADDR_MASK_def\<close>)
  then obtain s' F' lv' where s': "map_range small_map (r + get_hhdm small_map) 0x7000 0x400000 0x1000 (PRESENT OR WRITEABLE) s = ret s'"
    "vm_grow small_map s (region_bytes (0x10000, 4) - page r) [r \<mapsto> 4] s' F' lv'"
    "\<forall>x<0x1000. va_to_pa small_map (directory small_map r) (0x400000 + x) s' = ret (0x7000 + x)"
    by blast
  have "va_to_pa small_map (directory small_map r) 0x400000 s' = ret 0x7000"
    using s'(3) [rule_format, of 0] by simp
  then show thesis using that [OF r(1) s'(1) vm_growD(1) [OF s'(2)] vm_grow_level [OF s'(2)]] by simp
qed

theorem unmap_removes_translation_witness:
  "\<exists>d s s' s''. new_pagemap small_map (init_pmm small_map blank_pmm) = ret (d, s)
     \<and> map_range small_map (pml4 d) 0x7000 0x400000 0x1000 (PRESENT OR WRITEABLE) s = ret s'
     \<and> va_to_pa small_map d 0x400000 s' = ret 0x7000
     \<and> unmap small_map (pml4 d) 0x400000 0x1000 s' = ret s''
     \<and> translation (memory s'') (get_hhdm small_map) (pml4_pa d) 0x400000 = None"
proof -
  obtain r s s' F' lv' where r: "new_pagemap small_map (init_pmm small_map blank_pmm) = ret (directory small_map r, s)"
    "map_range small_map (r + get_hhdm small_map) 0x7000 0x400000 0x1000 (PRESENT OR WRITEABLE) s = ret s'"
    "vm_inv small_map s' F' lv'" "lv' r = Some 4" "va_to_pa small_map (directory small_map r) 0x400000 s' = ret 0x7000"
    by (rule small_map_one_page)
  have "reach (memory s') (get_hhdm small_map) r (table_path 0x400000) \<noteq> None"
    using r(5) unfolding va_to_pa_eq [OF r(3,4)] by (auto simp del: reach.simps split: option.splits)
  then obtain s'' where "unmap small_map (r + get_hhdm small_map) 0x400000 0x1000 s' = ret s''"
    "translation (memory s'') (get_hhdm small_map) r 0x400000 = None"
    using unmap_removes_translation [OF r(3,4), of "0x1000" "0x400000"] by (auto simp del: reach.simps)
  then show ?thesis using r(1,2,5) by fastforce
qed

text \<open>
  Claim C32. \<open>va_to_pa\<close> and \<open>unmap\<close> do not tolerate an address whose tables were never made: both follow
  the null pointer that \<open>get_next_level\<close> returns for a missing level and fault. A fresh directory has this
  for every address.
\<close>

theorem missing_table_faults:
  assumes "vm_inv L s F lv" and "lv r = Some 4" and "reach (memory s) (get_hhdm L) r (table_path va) = None"
  shows "va_to_pa L (directory L r) va s = halt NullDeref
    \<and> (0 < len \<longrightarrow> unmap L (r + get_hhdm L) va len s = halt NullDeref)"
proof -
  have "reach (memory s) (get_hhdm L) r (table_path (align_down va PAGE_SIZE)) = None"
    using assms(3) by (simp only: aligned_indices)
  then have "unmap_page L (r + get_hhdm L) (align_down va PAGE_SIZE) s = halt NullDeref"
    unfolding unmap_page_eq [OF assms(1,2)] by simp
  then show ?thesis
    using assms(3) unfolding va_to_pa_eq [OF assms(1,2)] unmap_def by (simp add: unmap_loop.simps)
qed

theorem missing_table_faults_witness:
  "\<exists>d s. new_pagemap small_map (init_pmm small_map blank_pmm) = ret (d, s)
     \<and> va_to_pa small_map d 0x400000 s = halt NullDeref \<and> unmap small_map (pml4 d) 0x400000 0x1000 s = halt NullDeref"
proof -
  have "region_bytes (0x10000, 4) \<noteq> {}" using region_start [of "(0x10000, 4)"] by auto
  then obtain r s where r: "new_pagemap small_map (init_pmm small_map blank_pmm) = ret (directory small_map r, s)"
    "vm_inv small_map s (region_bytes (0x10000, 4) - page r) [r \<mapsto> 4]"
    "\<forall>i. unat i < 512 \<longrightarrow> ent (memory s) (get_hhdm small_map) r i = 0"
    using new_pagemap_empty [OF small_map_hhdm small_map_free] by blast
  have "reach (memory s) (get_hhdm small_map) r (table_path 0x400000) = None"
    using r(3) by (simp add: present_bit)
  from missing_table_faults [OF r(2) _ this, of "0x1000"] show ?thesis using r(1) by fastforce
qed

section \<open>Sharing the kernel half\<close>

text \<open>The loop of \<open>process_fill_kernel_entries\<close>, entry by entry.\<close>

lemma copy_entries:
  fixes s :: "'a vmm_scheme"
  assumes "region_ok h (r, 1)" and "region_ok h (k, 1)" and "r \<noteq> k" and "pml4 (g_kernel_page_directory s) = k + h"
    and "n \<le> 512" and "256 \<le> n"
  defines "s' \<equiv> fold (\<lambda>i s. set_entry (r + h) (of_nat i)
      (get_entry (memory s) (pml4 (g_kernel_page_directory s)) (of_nat i)) s) [256..<n] s"
  shows "(\<forall>i. unat i < 512 \<longrightarrow> ent (memory s') h r i = (if 256 \<le> unat i \<and> unat i < n then ent (memory s) h k i else ent (memory s) h r i))
    \<and> same_on (- span (r + h) 4096) (memory s) (memory s')
    \<and> pml4 (g_kernel_page_directory s') = k + h"
  unfolding s'_def using assms(6,5)
proof (induction n rule: dec_induct)
  case base
  then show ?case using assms(4) by auto
next
  case (step n)
  let ?f = "\<lambda>i s. set_entry (r + h) (of_nat i) (get_entry (memory s) (pml4 (g_kernel_page_directory s)) (of_nat i)) s"
  define t where "t = fold ?f [256..<n] s"
  have n: "unat (of_nat n :: u64) = n" "n < 512" using step by (simp_all add: unat_of_nat_small)
  have IH: "\<forall>i. unat i < 512 \<longrightarrow> ent (memory t) h r i = (if 256 \<le> unat i \<and> unat i < n then ent (memory s) h k i else ent (memory s) h r i)"
    "same_on (- span (r + h) 4096) (memory s) (memory t)" "pml4 (g_kernel_page_directory t) = k + h"
    using step n unfolding t_def by simp_all
  have "span (k + h) 4096 \<subseteq> - span (r + h) 4096" using pages_apart [OF assms(1,2,3)] by (auto simp: page_span)
  then have kn: "ent (memory t) h k (of_nat n) = ent (memory s) h k (of_nat n)"
    using n by (intro ent_same same_on_mono [OF IH(2)]) simp_all
  have m: "memory (?f n t) = write64 (memory t) (r + h + 8 * of_nat n) (ent (memory s) h k (of_nat n))"
    using kn IH(3) by (simp add: set_entry_def)
  have "ent (memory (?f n t)) h r i = (if 256 \<le> unat i \<and> unat i < Suc n then ent (memory s) h k i else ent (memory s) h r i)"
    if "unat i < 512" for i
  proof (cases "i = of_nat n")
    case True
    then show ?thesis unfolding m using n step by simp
  next
    case False
    then have "unat i \<noteq> n" using n(1) by (auto simp: word_unat_eq_iff)
    moreover have "ent (memory (?f n t)) h r i = ent (memory t) h r i"
      unfolding m using ent_write_other [OF assms(1,1) _ that, of "of_nat n"] n False by simp
    ultimately show ?thesis using IH(1) that by auto
  qed
  moreover have "same_on (- span (r + h) 4096) (memory s) (memory (?f n t))"
    unfolding m using entry_in_page [of "of_nat n" r h] n by (intro same_on_write64_after [OF IH(2)]) auto
  moreover have "pml4 (g_kernel_page_directory (?f n t)) = k + h" using IH(3) by (simp add: set_entry_def)
  ultimately show ?case using step by (simp add: t_def)
qed

lemma kernel_half_shared:
  fixes s :: "'a vmm_scheme"
  assumes inv: "vm_inv L s F lv" and k: "lv k = Some 4" and "lv r = None" and "region_ok (get_hhdm L) (r, 1)"
    and "g_kernel_page_directory s = directory L k"
  defines "s' \<equiv> process_fill_kernel_entries (directory L r) s"
  shows "256 \<le> unat (pml4_entry v) \<Longrightarrow> translation (memory s') (get_hhdm L) r v = translation (memory s) (get_hhdm L) k v"
    and "unat i < 256 \<Longrightarrow> ent (memory s') (get_hhdm L) r i = ent (memory s) (get_hhdm L) r i"
    and "same_on (- span (r + get_hhdm L) 4096) (memory s) (memory s')"
proof -
  let ?h = "get_hhdm L"
  have ok: "tables_ok ?h (memory s) F lv" using inv by (simp add: vm_inv_def)
  have rk: "r \<noteq> k" "region_ok ?h (k, 1)" using assms(3) k tables_ok_page [OF ok k] by (auto simp: table_page_def)
  have dk: "pml4 (g_kernel_page_directory s) = k + ?h" using assms(5) by simp
  have fill: "s' = fold (\<lambda>i s. set_entry (r + ?h) (of_nat i)
      (get_entry (memory s) (pml4 (g_kernel_page_directory s)) (of_nat i)) s) [256..<512] s"
    by (simp only: s'_def process_fill_kernel_entries_def PageDirectory.select_convs)
  note copied = copy_entries [OF assms(4) rk(2,1) dk order.refl, folded fill]
  have c: "\<forall>i. unat i < 512 \<longrightarrow> ent (memory s') ?h r i = (if 256 \<le> unat i then ent (memory s) ?h k i else ent (memory s) ?h r i)"
    and sm: "same_on (- span (r + ?h) 4096) (memory s) (memory s')"
    using copied by simp_all
  show "same_on (- span (r + ?h) 4096) (memory s) (memory s')" by (rule sm)
  show "unat i < 256 \<Longrightarrow> ent (memory s') ?h r i = ent (memory s) ?h r i" using c by simp
  have "span (t + ?h) 4096 \<subseteq> - span (r + ?h) 4096" if "lv t \<noteq> None" for t
  proof -
    have "t \<noteq> r" "region_ok ?h (t, 1)" using that assms(3) tables_ok_page [OF ok] by (auto simp: table_page_def)
    then have "page t \<inter> page r = {}" using pages_apart [OF _ assms(4)] by blast
    then show ?thesis by (auto simp: page_span)
  qed
  from same_entries_look [OF same_entriesI [OF sm this] ok]
  have look: "look (memory s') ?h t is j = look (memory s) ?h t is j"
    if "lv t = Some (Suc (length is))" "\<forall>i \<in> set is. unat i < 512" "unat j < 512" for t "is" j
    using that by blast
  show "translation (memory s') ?h r v = translation (memory s) ?h k v" if "256 \<le> unat (pml4_entry v)"
  proof -
    let ?e = "ent (memory s) ?h k (pml4_entry v)"
    have e: "ent (memory s') ?h r (pml4_entry v) = ?e" using c that by simp
    have "lv (child ?e) = Some (Suc (length [pdpt_entry v, pd_entry v]))" if "present ?e"
      using tables_ok_child [OF ok, of k 2 "pml4_entry v"] k that by simp
    then show ?thesis
      using look [of "child ?e" "[pdpt_entry v, pd_entry v]" "pt_entry v"]
      by (simp add: translation_def look_leaf(2) [of _ _ _ "pml4_entry v"] e)
  qed
qed

text \<open>
  Claim C18. A process directory made by \<open>new_pagemap\<close> and \<open>process_fill_kernel_entries\<close> translates every
  address of the upper half exactly as the kernel's directory does, and no address of the lower
  half; the kernel's own tables are not changed.
\<close>

theorem process_directory_shares_kernel_half:
  fixes s :: "'a vmm_scheme"
  assumes "vm_inv L s F lv" and "lv k = Some 4" and "g_kernel_page_directory s = directory L k" and "F \<noteq> {}"
  shows "\<exists>d s1. new_pagemap L s = ret (d, s1)
    \<and> (\<forall>v. translation (memory (process_fill_kernel_entries d s1)) (get_hhdm L) (pml4_pa d) v
         = (if 256 \<le> unat (pml4_entry v) then translation (memory s) (get_hhdm L) k v else None))
    \<and> same_on (beyond (get_hhdm L) F) (memory s) (memory (process_fill_kernel_entries d s1))"
proof -
  let ?h = "get_hhdm L"
  have hh: "hhdm_ok L" and free: "pmm_has_free L s F" and ok: "tables_ok ?h (memory s) F lv"
    using assms(1) by (simp_all add: vm_inv_def)
  obtain r s1 where r: "new_pagemap L s = ret (directory L r, s1)" "vm_inv L s1 (F - page r) [r \<mapsto> 4]" "page r \<subseteq> F"
    "\<forall>i. unat i < 512 \<longrightarrow> ent (memory s1) ?h r i = 0" "pmm_rest s s1" "same_on (beyond ?h F) (memory s) (memory s1)"
    using new_pagemap_empty [OF hh free assms(4)] by blast
  let ?s2 = "process_fill_kernel_entries (directory L r) s1"
  have rok: "region_ok ?h (r, 1)" using r(2) tables_ok_page [of ?h "memory s1" "F - page r" "[r \<mapsto> 4]" r 4]
    by (simp add: vm_inv_def table_page_def)
  have "span (t + ?h) 4096 \<subseteq> beyond ?h F" if "lv t \<noteq> None" for t
    using page_beyond [of t F ?h] tables_ok_page [OF ok] that by auto
  from same_entriesI [OF r(6) this] have se: "same_entries ?h (memory s) (memory s1) lv" .
  have inv1: "vm_inv L s1 (F - page r) lv"
    using same_entries_tables_ok [OF se ok] r(2) by (auto simp: vm_inv_def)
  have fresh: "lv r = None"
    using tables_ok_page [OF ok, of r] region_ok_start [OF rok] r(3) by (cases "lv r") auto
  have dir: "g_kernel_page_directory s1 = directory L k"
    using r(5) assms(3) by (cases s; cases s1) (simp add: pmm_rest_def)
  note shared = kernel_half_shared [OF inv1 assms(2) fresh rok dir]
  have "translation (memory s1) ?h k v = translation (memory s) ?h k v" for v
    using same_entries_look [OF se ok, of k "table_path v" "pt_entry v"] assms(2) by (simp add: translation_def)
  moreover have "translation (memory ?s2) ?h r v = None" if "unat (pml4_entry v) < 256" for v
    using shared(2) [OF that] r(4) by (simp add: translation_def look_leaf(2) present_bit)
  ultimately have "translation (memory ?s2) ?h r v = (if 256 \<le> unat (pml4_entry v) then translation (memory s) ?h k v else None)" for v
    using shared(1) [of v] by (simp add: not_le)
  moreover have "beyond ?h F \<subseteq> - span (r + ?h) 4096" using r(3) by (auto simp: page_span beyond_def)
  then have "same_on (beyond ?h F) (memory s) (memory ?s2)"
    using same_on_trans [OF r(6)] same_on_mono [OF shared(3)] by blast
  ultimately show ?thesis using r(1) by fastforce
qed

definition blank_vmm :: vmm where
  "blank_vmm = \<lparr>rflags = 0x202, memory = (\<lambda>_. 0),
     g_pmm_irq_lock = \<lparr>lock_flags = 0, inner = fresh_lock\<rparr>, g_ref_alloc = 0, freelist_head = null,
     g_kernel_page_directory = \<lparr>pml4 = null, pml4_pa = 0\<rparr>, cr3 = 0, msr = (\<lambda>_. 0)\<rparr>"

theorem process_directory_shares_kernel_half_witness:
  "\<exists>k s d s1. new_pagemap small_map (init_pmm small_map blank_vmm) = ret (k, s)
     \<and> new_pagemap small_map (s\<lparr>g_kernel_page_directory := k\<rparr>) = ret (d, s1)
     \<and> translation (memory (process_fill_kernel_entries d s1)) (get_hhdm small_map) (pml4_pa d) 0x400000 = None"
proof -
  have free: "pmm_has_free small_map (init_pmm small_map blank_vmm) (region_bytes (0x10000, 4))"
  proof -
    have "pmm_rep small_map (init_pmm small_map blank_vmm) [(0x10000, 4)]"
      using init_pmm_rep [OF small_map_ok, of blank_vmm]
      by (simp add: blank_vmm_def small_map_def entry_region_def PAGE_SIZE_def)
    then show ?thesis by (auto simp: pmm_has_free_def init_pmm_keeps blank_vmm_def fresh_lock_def)
  qed
  have card: "card (region_bytes (0x10000, 4)) = 16384" by (simp add: region_bytes_def card_span)
  then have "region_bytes (0x10000, 4) \<noteq> {}" by (metis card.empty zero_neq_numeral)
  then obtain k s where k: "new_pagemap small_map (init_pmm small_map blank_vmm) = ret (directory small_map k, s)"
    "vm_inv small_map s (region_bytes (0x10000, 4) - page k) [k \<mapsto> 4]" "page k \<subseteq> region_bytes (0x10000, 4)"
    using new_pagemap_empty [OF small_map_hhdm free] by blast
  let ?s = "s\<lparr>g_kernel_page_directory := directory small_map k\<rparr>"
  have "vm_inv small_map ?s (region_bytes (0x10000, 4) - page k) [k \<mapsto> 4]"
    using k(2) by (simp add: vm_inv_def pmm_has_free_def pmm_rep_def)
  moreover have "card (region_bytes (0x10000, 4) - page k) = 12288"
    using card_Diff_subset [OF _ k(3)] card by (simp add: card_page)
  then have "region_bytes (0x10000, 4) - page k \<noteq> {}" by (metis card.empty zero_neq_numeral)
  ultimately have "\<exists>d s1. new_pagemap small_map ?s = ret (d, s1)
     \<and> translation (memory (process_fill_kernel_entries d s1)) (get_hhdm small_map) (pml4_pa d) 0x400000 = None"
    using process_directory_shares_kernel_half [of small_map ?s _ "[k \<mapsto> 4]" k]
    by (fastforce simp: index_bits)
  then show ?thesis using k(1) by blast
qed

section \<open>Tearing down\<close>

lemma free_table_no_entry:
  assumes "\<forall>i < 256. \<not> present (get_entry (memory s) table (of_nat i))" and "n \<le> 256"
  shows "for_each (free_table_entry L level lower table) [0..<n] s = ret s"
  using assms(2)
proof (induction n)
  case (Suc n)
  then show ?case using assms(1) by (simp add: for_each_append free_table_entry_def present_def Let_def)
qed simp



end
