(* ===== verification/Elf_Image.thy ===== *)
theory Elf_Image
  imports Virtual_Memory
begin

text \<open>
  The ELF64 format as the loader reads it, \<^verbatim>\<open>src/src/include/exe/elf.hpp\<close>, and the first half
  of \<^verbatim>\<open>src/src/kernel/exe/elf_loader.cpp\<close>: the header checks and the pass over the program headers that
  decides whether an image is accepted. The image is a range of memory; every field is read from its bytes.
\<close>

section \<open>The format\<close>

definition ELFMACHINE :: u16 where "ELFMACHINE = 0x3e"
definition EI_NIDENT :: nat where "EI_NIDENT = 16"
definition ELFMAG0 :: u8 where "ELFMAG0 = 0x7F"
definition ELFMAG1 :: u8 where "ELFMAG1 = 0x45"
definition ELFMAG2 :: u8 where "ELFMAG2 = 0x4C"
definition ELFMAG3 :: u8 where "ELFMAG3 = 0x46"
definition ELFCLASS32 :: u8 where "ELFCLASS32 = 1"
definition ELFCLASS64 :: u8 where "ELFCLASS64 = 2"
definition ELFDATA2LSB :: u8 where "ELFDATA2LSB = 1"
definition ELFDATA2MSB :: u8 where "ELFDATA2MSB = 2"
definition EV_CURRENT :: u8 where "EV_CURRENT = 1"
definition PF_X :: u8 where "PF_X = 0x1"
definition PF_W :: u8 where "PF_W = 0x2"
definition PF_R :: u8 where "PF_R = 0x4"

text \<open>The enumerations have a fixed underlying type, and a field may hold any value of it.\<close>

type_synonym ElfType = u16
definition ElfType_None :: ElfType where "ElfType_None = 0"
definition ElfType_Rel :: ElfType where "ElfType_Rel = 1"
definition ElfType_Exec :: ElfType where "ElfType_Exec = 2"
definition ElfType_Dynx :: ElfType where "ElfType_Dynx = 3"

type_synonym ProgramType = u32
definition ProgramType_Null :: ProgramType where "ProgramType_Null = 0"
definition ProgramType_Load :: ProgramType where "ProgramType_Load = 1"
definition ProgramType_Dynamic :: ProgramType where "ProgramType_Dynamic = 2"
definition ProgramType_Phdr :: ProgramType where "ProgramType_Phdr = 6"

definition EI_MAG0 :: nat where "EI_MAG0 = 0"
definition EI_MAG1 :: nat where "EI_MAG1 = 1"
definition EI_MAG2 :: nat where "EI_MAG2 = 2"
definition EI_MAG3 :: nat where "EI_MAG3 = 3"
definition EI_CLASS :: nat where "EI_CLASS = 4"
definition EI_DATA :: nat where "EI_DATA = 5"
definition EI_VERSION :: nat where "EI_VERSION = 6"

record Elf64_Header =
  e_ident :: "u8 list"
  e_type :: ElfType
  e_machine :: u16
  e_version :: u32
  e_entry :: u64
  e_phoff :: u64
  e_shoff :: u64
  e_flags :: u32
  e_ehsize :: u16
  e_phentsize :: u16
  e_phnum :: u16
  e_shentsize :: u16
  e_shnum :: u16
  e_shstrndx :: u16

record Elf64_Phdr =
  p_type :: ProgramType
  p_flags :: u32
  p_offset :: u64
  p_vaddr :: u64
  p_paddr :: u64
  p_filesz :: u64
  p_memsz :: u64
  p_align :: u64

definition sizeof_Elf64_Header :: u64 where "sizeof_Elf64_Header = 64"
definition sizeof_Elf64_Phdr :: u64 where "sizeof_Elf64_Phdr = 56"

section \<open>Fields in memory\<close>

definition read16 :: "mem \<Rightarrow> u64 \<Rightarrow> u16" where
  "read16 m a = ucast (m a) OR push_bit 8 (ucast (m (a + 1)))"

definition read32 :: "mem \<Rightarrow> u64 \<Rightarrow> u32" where
  "read32 m a = ucast (read16 m a) OR push_bit 16 (ucast (read16 m (a + 2)))"

definition header_at :: "mem \<Rightarrow> ptr \<Rightarrow> Elf64_Header" where
  "header_at m p =
     \<lparr>e_ident = map (\<lambda>j. m (p + of_nat j)) [0..<EI_NIDENT], e_type = read16 m (p + 16), e_machine = read16 m (p + 18),
      e_version = read32 m (p + 20), e_entry = read64 m (p + 24), e_phoff = read64 m (p + 32),
      e_shoff = read64 m (p + 40), e_flags = read32 m (p + 48), e_ehsize = read16 m (p + 52),
      e_phentsize = read16 m (p + 54), e_phnum = read16 m (p + 56), e_shentsize = read16 m (p + 58),
      e_shnum = read16 m (p + 60), e_shstrndx = read16 m (p + 62)\<rparr>"

definition phdr_at :: "mem \<Rightarrow> ptr \<Rightarrow> Elf64_Phdr" where
  "phdr_at m p =
     \<lparr>p_type = read32 m p, p_flags = read32 m (p + 4), p_offset = read64 m (p + 8), p_vaddr = read64 m (p + 16),
      p_paddr = read64 m (p + 24), p_filesz = read64 m (p + 32), p_memsz = read64 m (p + 40), p_align = read64 m (p + 48)\<rparr>"

text \<open>The address of the program header \<open>i\<close>.\<close>

definition phdr_ptr :: "ptr \<Rightarrow> Elf64_Header \<Rightarrow> u64 \<Rightarrow> ptr" where
  "phdr_ptr bytes ehdr i = bytes + e_phoff ehdr + i * ucast (e_phentsize ehdr)"

section \<open>The checks\<close>

definition elf_check_file :: "Elf64_Header \<Rightarrow> bool" where
  "elf_check_file elf_hdr =
     (if e_ident elf_hdr ! EI_MAG0 \<noteq> ELFMAG0 then False
      else if e_ident elf_hdr ! EI_MAG1 \<noteq> ELFMAG1 then False
      else if e_ident elf_hdr ! EI_MAG2 \<noteq> ELFMAG2 then False
      else if e_ident elf_hdr ! EI_MAG3 \<noteq> ELFMAG3 then False
      else True)"

definition UINT32_MAX :: u64 where "UINT32_MAX = 0xFFFFFFFF"

definition elf_check_supported :: "Elf64_Header \<Rightarrow> bool" where
  "elf_check_supported elf_hdr =
     (if e_ident elf_hdr ! EI_CLASS \<noteq> ELFCLASS64 then False
      else if e_ident elf_hdr ! EI_DATA \<noteq> ELFDATA2LSB then False
      else if e_machine elf_hdr \<noteq> ELFMACHINE then False
      else if e_type elf_hdr \<noteq> ElfType_Exec \<and> e_type elf_hdr \<noteq> ElfType_Rel then False
      else if e_phnum elf_hdr \<ge> 512 then False
      else if e_phentsize elf_hdr \<ge> 512 then False
      else if e_phoff elf_hdr \<ge> UINT32_MAX then False
      else True)"

datatype ElfLoadError = Invalid | NoMemory

text \<open>The variables of the first pass.\<close>

record scan =
  image_base :: u64
  base_found :: bool
  image_end :: u64
  prev_page_end :: u64

definition scan_start :: scan where
  "scan_start = \<lparr>image_base = 0, base_found = False, image_end = 0, prev_page_end = 0\<rparr>"

definition scan_phdr :: "u64 \<Rightarrow> Elf64_Phdr \<Rightarrow> scan \<Rightarrow> ElfLoadError + scan" where
  "scan_phdr sz phdr v =
     (if p_type phdr \<noteq> ProgramType_Load then Inr v
      else if p_filesz phdr > p_memsz phdr then Inl Invalid
      else if p_offset phdr > sz \<or> p_filesz phdr > sz - p_offset phdr then Inl Invalid
      else if p_vaddr phdr < PAGE_SIZE \<or> p_memsz phdr > USER_ADDR_END - p_vaddr phdr then Inl Invalid
      else
        (let page_start = align_down (p_vaddr phdr) PAGE_SIZE;
             page_end = align_up (p_vaddr phdr + p_memsz phdr) PAGE_SIZE in
         if base_found v \<and> page_start < prev_page_end v then Inl Invalid
         else
           (let v = v\<lparr>prev_page_end := page_end\<rparr>;
                v = (if \<not> base_found v then v\<lparr>image_base := p_vaddr phdr, base_found := True\<rparr> else v);
                v = (if p_vaddr phdr + p_memsz phdr > image_end v then v\<lparr>image_end := p_vaddr phdr + p_memsz phdr\<rparr> else v)
            in Inr v)))"

primrec scan_phdrs :: "u64 \<Rightarrow> Elf64_Phdr list \<Rightarrow> scan \<Rightarrow> ElfLoadError + scan" where
  "scan_phdrs sz [] v = Inr v"
| "scan_phdrs sz (phdr # phdrs) v =
     (case scan_phdr sz phdr v of Inl e \<Rightarrow> Inl e | Inr v \<Rightarrow> scan_phdrs sz phdrs v)"

text \<open>The program headers in the order of the loop.\<close>

definition phdrs_at :: "mem \<Rightarrow> ptr \<Rightarrow> Elf64_Phdr list" where
  "phdrs_at m bytes =
     (let ehdr = header_at m bytes
      in map (\<lambda>i. phdr_at m (phdr_ptr bytes ehdr (of_nat i))) [0..<unat (e_phnum ehdr)])"

definition elf_scan :: "mem \<Rightarrow> ptr \<Rightarrow> u64 \<Rightarrow> ElfLoadError + scan" where
  "elf_scan m bytes sz =
     (if sz < sizeof_Elf64_Header then Inl Invalid
      else
        (let ehdr = header_at m bytes in
         if \<not> elf_check_file ehdr then Inl Invalid
         else if \<not> elf_check_supported ehdr then Inl Invalid
         else if ucast (e_phentsize ehdr) < sizeof_Elf64_Phdr
              \<or> e_phoff ehdr + ucast (e_phnum ehdr) * ucast (e_phentsize ehdr) > sz then Inl Invalid
         else
           (case scan_phdrs sz (phdrs_at m bytes) scan_start of
              Inl e \<Rightarrow> Inl e
            | Inr v \<Rightarrow>
                if \<not> base_found v \<or> e_entry ehdr < image_base v \<or> e_entry ehdr \<ge> image_end v then Inl Invalid
                else Inr v)))"

section \<open>The test suite's specification of a valid image\<close>

text \<open>\<^verbatim>\<open>src/src/kernel/tests/elf_tests.cpp\<close> keeps an executable specification of what the loader must reject.\<close>

definition validate_header :: "mem \<Rightarrow> ptr \<Rightarrow> u64 \<Rightarrow> bool" where
  "validate_header m bytes sz =
     (if sz < sizeof_Elf64_Header then False
      else
        (let header = header_at m bytes in
         if e_ident header ! EI_MAG0 \<noteq> ELFMAG0 \<or> e_ident header ! EI_MAG1 \<noteq> ELFMAG1
            \<or> e_ident header ! EI_MAG2 \<noteq> ELFMAG2 \<or> e_ident header ! EI_MAG3 \<noteq> ELFMAG3 then False
         else if e_ident header ! EI_CLASS \<noteq> ELFCLASS64 then False
         else if e_ident header ! EI_DATA \<noteq> ELFDATA2LSB then False
         else if e_ident header ! EI_VERSION \<noteq> EV_CURRENT then False
         else if e_machine header \<noteq> ELFMACHINE then False
         else if e_type header \<noteq> ElfType_Exec then False
         else if ucast (e_phentsize header) \<noteq> sizeof_Elf64_Phdr then False
         else True))"

definition validate_phdr :: "u64 \<Rightarrow> Elf64_Phdr \<Rightarrow> bool" where
  "validate_phdr sz phdr =
     (if p_type phdr \<noteq> ProgramType_Load then True
      else if p_filesz phdr > p_memsz phdr then False
      else if p_offset phdr > sz \<or> p_filesz phdr > sz - p_offset phdr then False
      else True)"

definition validate_phdrs :: "mem \<Rightarrow> ptr \<Rightarrow> u64 \<Rightarrow> bool" where
  "validate_phdrs m bytes sz =
     (if \<not> validate_header m bytes sz then False
      else
        (let header = header_at m bytes in
         if e_phoff header > sz
            \<or> ucast (e_phnum header) > (sz - e_phoff header) div sizeof_Elf64_Phdr then False
         else list_all (\<lambda>i. validate_phdr sz (phdr_at m (bytes + e_phoff header + of_nat i * sizeof_Elf64_Phdr)))
                [0..<unat (e_phnum header)]))"

section \<open>Reading stays inside the image\<close>

lemma span_field: "j + k \<le> n \<Longrightarrow> n \<le> 2 ^ 64 \<Longrightarrow> k \<noteq> 0 \<Longrightarrow> span (p + of_nat j) k \<subseteq> span p n"
  using span_sub [of "of_nat j :: u64" k n p] by (simp add: unat_of_nat_small)

lemma unat_ucast_16 [simp]: "unat (ucast (x :: u16) :: u64) = unat x"
proof -
  have "unat x < 2 ^ LENGTH(16)" by (rule unsigned_less)
  then have "unat x < 2 ^ 64" by simp
  then show ?thesis by (simp add: unsigned_ucast_eq take_bit_nat_eq_self)
qed

lemma same_on_byte: "same_on A m m' \<Longrightarrow> x \<in> A \<Longrightarrow> m' x = m x"
  by (simp add: same_on_def)

lemma read16_same:
  assumes "same_on A m m'" and "span a 2 \<subseteq> A"
  shows "read16 m' a = read16 m a"
proof -
  have "a \<in> A" "a + 1 \<in> A" using assms(2) span_start [of 2 a] span_add_mem [of 1 2 a] by auto
  then show ?thesis by (simp add: read16_def same_on_byte [OF assms(1)])
qed

lemma read32_same:
  assumes "same_on A m m'" and "span a 4 \<subseteq> A"
  shows "read32 m' a = read32 m a"
proof -
  have "span a 2 \<subseteq> A" "span (a + 2) 2 \<subseteq> A"
    using assms(2) span_mono [of 2 4 a] span_sub [of 2 2 4 a] by auto
  then show ?thesis using read16_same [OF assms(1)] by (simp add: read32_def)
qed

lemma header_at_same:
  assumes "same_on (span p n) m m'" and "64 \<le> n" and "n \<le> 2 ^ 64"
  shows "header_at m' p = header_at m p"
proof -
  have f: "span (p + k) l \<subseteq> span p n" if "unat k + l \<le> 64" for k l
    using span_sub [of k l n p] that assms(2,3) by simp
  have "m' (p + of_nat j) = m (p + of_nat j)" if "j < 16" for j
    using span_add_mem [of "of_nat j" n p] that assms by (intro same_on_byte [OF assms(1)]) (simp add: unat_of_nat_small)
  then show ?thesis
    unfolding header_at_def EI_NIDENT_def
    by (simp add: read16_same [OF assms(1)] read32_same [OF assms(1)] same_on_read64 [OF assms(1)] f)
qed

lemma phdr_at_same:
  assumes "same_on A m m'" and "span p 56 \<subseteq> A"
  shows "phdr_at m' p = phdr_at m p"
proof -
  have f: "span (p + k) l \<subseteq> A" if "unat k + l \<le> 56" for k l
    using span_sub [of k l 56 p] that assms(2) by auto
  then have "span p 4 \<subseteq> A" using f [of 0 4] by simp
  then show ?thesis
    unfolding phdr_at_def by (simp add: read32_same [OF assms(1)] same_on_read64 [OF assms(1)] f)
qed

text \<open>What the checks before the first pass establish about the table of program headers.\<close>

definition table_fits :: "u64 \<Rightarrow> Elf64_Header \<Rightarrow> bool" where
  "table_fits sz ehdr \<longleftrightarrow> unat (e_phoff ehdr) < 2 ^ 32 \<and> unat (e_phnum ehdr) < 512 \<and> 56 \<le> unat (e_phentsize ehdr)
     \<and> unat (e_phentsize ehdr) < 512
     \<and> unat (e_phoff ehdr) + unat (e_phnum ehdr) * unat (e_phentsize ehdr) \<le> unat sz"

lemma checks_table_fits:
  assumes "elf_check_supported ehdr" and "\<not> ucast (e_phentsize ehdr) < sizeof_Elf64_Phdr"
    and "\<not> e_phoff ehdr + ucast (e_phnum ehdr) * ucast (e_phentsize ehdr) > sz"
  shows "table_fits sz ehdr"
proof -
  let ?n = "unat (e_phnum ehdr)" and ?e = "unat (e_phentsize ehdr)" and ?o = "unat (e_phoff ehdr)"
  have c: "?n < 512" "?e < 512" "?o < 2 ^ 32"
    using assms(1) by (auto simp: elf_check_supported_def UINT32_MAX_def word_less_nat_alt not_le split: if_splits)
  have e: "56 \<le> ?e"
    using assms(2) by (simp add: sizeof_Elf64_Phdr_def word_less_nat_alt)
  have "?n * ?e \<le> 511 * 511" using c by (intro mult_le_mono) simp_all
  then have "unat (ucast (e_phnum ehdr) * ucast (e_phentsize ehdr) :: u64) = ?n * ?e"
    by (subst unat_mult_nowrap) simp_all
  then have "unat (e_phoff ehdr + ucast (e_phnum ehdr) * ucast (e_phentsize ehdr)) = ?o + ?n * ?e"
    using c \<open>?n * ?e \<le> 511 * 511\<close> by (subst unat_add_nowrap) simp_all
  then show ?thesis using c e assms(3) by (simp add: table_fits_def word_less_nat_alt)
qed

lemma phdr_in_image:
  assumes "table_fits sz ehdr" and "i < unat (e_phnum ehdr)"
  shows "span (phdr_ptr bytes ehdr (of_nat i)) 56 \<subseteq> span bytes (unat sz)"
proof -
  let ?e = "unat (e_phentsize ehdr)" and ?o = "unat (e_phoff ehdr)"
  have t: "?o < 2 ^ 32" "unat (e_phnum ehdr) < 512" "56 \<le> ?e" "?e < 512" "?o + unat (e_phnum ehdr) * ?e \<le> unat sz"
    using assms(1) by (simp_all add: table_fits_def)
  have "i * ?e \<le> 511 * 511" using t assms(2) by (intro mult_le_mono) simp_all
  then have "unat (of_nat i * ucast (e_phentsize ehdr) :: u64) = i * ?e"
    using t assms(2) by (subst unat_mult_nowrap) (simp_all add: unat_of_nat_small)
  then have u: "unat (e_phoff ehdr + of_nat i * ucast (e_phentsize ehdr)) = ?o + i * ?e"
    using t \<open>i * ?e \<le> 511 * 511\<close> by (subst unat_add_nowrap) simp_all
  have "Suc i * ?e \<le> unat (e_phnum ehdr) * ?e" using assms(2) by (intro mult_le_mono) simp_all
  then have "?o + i * ?e + 56 \<le> unat sz" using t by simp
  then show ?thesis
    using span_sub [of "e_phoff ehdr + of_nat i * ucast (e_phentsize ehdr)" 56 "unat sz" bytes] u u64_less_2p64 [of sz]
    by (simp add: phdr_ptr_def add.assoc)
qed

lemma phdrs_same:
  assumes "same_on (span bytes (unat sz)) m m'" and "table_fits sz (header_at m bytes)" and "header_at m' bytes = header_at m bytes"
  shows "phdrs_at m' bytes = phdrs_at m bytes"
  using phdr_at_same [OF assms(1) phdr_in_image [OF assms(2)]] assms(3) by (auto simp: phdrs_at_def Let_def)

lemma elf_scan_same:
  assumes "same_on (span bytes (unat sz)) m m'"
  shows "elf_scan m' bytes sz = elf_scan m bytes sz"
proof (cases "64 \<le> unat sz")
  case True
  have "unat sz \<le> 2 ^ 64" using u64_less_2p64 [of sz] by simp
  then have h: "header_at m' bytes = header_at m bytes" by (rule header_at_same [OF assms True])
  then show ?thesis
    using checks_table_fits [of "header_at m bytes" sz] phdrs_same [OF assms _ h] by (auto simp: elf_scan_def Let_def)
next
  case False
  then show ?thesis by (simp add: elf_scan_def sizeof_Elf64_Header_def word_less_nat_alt)
qed

text \<open>The segments the loader maps, and the pages each of them covers.\<close>

abbreviation loads :: "Elf64_Phdr list \<Rightarrow> Elf64_Phdr list" where
  "loads \<equiv> filter (\<lambda>p. p_type p = ProgramType_Load)"

abbreviation seg_start :: "Elf64_Phdr \<Rightarrow> u64" where
  "seg_start p \<equiv> align_down (p_vaddr p) PAGE_SIZE"

abbreviation seg_end :: "Elf64_Phdr \<Rightarrow> u64" where
  "seg_end p \<equiv> align_up (p_vaddr p + p_memsz p) PAGE_SIZE"

definition seg_valid :: "u64 \<Rightarrow> Elf64_Phdr \<Rightarrow> bool" where
  "seg_valid sz p \<longleftrightarrow> p_filesz p \<le> p_memsz p \<and> p_offset p \<le> sz \<and> p_filesz p \<le> sz - p_offset p
     \<and> PAGE_SIZE \<le> p_vaddr p \<and> p_memsz p \<le> USER_ADDR_END - p_vaddr p"

lemma scan_phdr_load:
  assumes "p_type p = ProgramType_Load"
  shows "scan_phdr sz p v = Inr v' \<longleftrightarrow> seg_valid sz p \<and> (base_found v \<longrightarrow> prev_page_end v \<le> seg_start p)
    \<and> v' = \<lparr>image_base = if base_found v then image_base v else p_vaddr p, base_found = True,
            image_end = max (image_end v) (p_vaddr p + p_memsz p), prev_page_end = seg_end p\<rparr>"
  unfolding scan_phdr_def seg_valid_def Let_def max_def not_less [symmetric]
  using assms by (cases v; cases "base_found v") auto

lemma scan_phdr_other: "p_type p \<noteq> ProgramType_Load \<Longrightarrow> scan_phdr sz p v = Inr v"
  by (simp add: scan_phdr_def)

lemma scan_phdrs_valid: "scan_phdrs sz ps v = Inr v' \<Longrightarrow> \<forall>p \<in> set (loads ps). seg_valid sz p"
proof (induction ps arbitrary: v)
  case (Cons p ps)
  then obtain w where "scan_phdr sz p v = Inr w" "scan_phdrs sz ps w = Inr v'"
    by (auto split: sum.splits)
  then show ?case using Cons.IH scan_phdr_load [of p sz v w] by auto
qed simp

lemma scan_phdrs_ordered:
  assumes "scan_phdrs sz ps v = Inr v'" and "\<forall>p \<in> set (loads ps). seg_start p \<le> seg_end p"
  shows "sorted_wrt (\<lambda>p q. seg_end p \<le> seg_start q) (loads ps)
    \<and> (base_found v \<longrightarrow> (\<forall>p \<in> set (loads ps). prev_page_end v \<le> seg_start p))"
  using assms
proof (induction ps arbitrary: v)
  case (Cons p ps)
  then obtain w where w: "scan_phdr sz p v = Inr w" "scan_phdrs sz ps w = Inr v'"
    by (auto split: sum.splits)
  show ?case
  proof (cases "p_type p = ProgramType_Load")
    case True
    note step = scan_phdr_load [OF True, THEN iffD1, OF w(1)]
    have ih: "sorted_wrt (\<lambda>p q. seg_end p \<le> seg_start q) (loads ps)" "\<forall>q \<in> set (loads ps). seg_end p \<le> seg_start q"
      using Cons.IH [OF w(2)] Cons.prems(2) step True by auto
    moreover have "prev_page_end v \<le> seg_start q" if "base_found v" "q \<in> set (loads ps)" for q
    proof -
      have "prev_page_end v \<le> seg_start p" "seg_start p \<le> seg_end p" "seg_end p \<le> seg_start q"
        using that step ih(2) Cons.prems(2) True by auto
      then show ?thesis by (meson order.trans)
    qed
    ultimately show ?thesis using True step by auto
  next
    case False
    then show ?thesis using Cons.IH [OF w(2)] Cons.prems(2) w(1) scan_phdr_other [of p sz v] by auto
  qed
qed simp

lemma elf_scan_accepts:
  assumes "elf_scan m bytes sz = Inr v"
  defines "ehdr \<equiv> header_at m bytes"
  shows "64 \<le> unat sz" "elf_check_file ehdr" "elf_check_supported ehdr" "table_fits sz ehdr"
    "scan_phdrs sz (phdrs_at m bytes) scan_start = Inr v" "base_found v" "image_base v \<le> e_entry ehdr" "e_entry ehdr < image_end v"
  using assms(1) checks_table_fits [of ehdr sz]
  by (auto simp: elf_scan_def ehdr_def Let_def sizeof_Elf64_Header_def word_less_nat_alt word_le_nat_alt not_less not_le
      split: if_splits sum.splits)

lemma file_bytes_in_image:
  assumes "seg_valid sz p"
  shows "span (bytes + p_offset p) (unat (p_filesz p)) \<subseteq> span bytes (unat sz)"
proof (rule span_sub)
  show "unat (p_offset p) + unat (p_filesz p) \<le> unat sz"
    using assms by (auto simp: seg_valid_def word_le_nat_alt unat_sub_le)
  show "unat sz \<le> 2 ^ 64" using u64_less_2p64 [of sz] by simp
qed

text \<open>A small executable: one segment of 16 bytes at \<open>0x400000\<close>.\<close>

definition tiny_bytes :: "u8 list" where
  "tiny_bytes =
     [0x7F, 0x45, 0x4C, 0x46, 2, 1, 1, 0, 0, 0, 0, 0, 0, 0, 0, 0, 2, 0, 0x3E, 0, 1, 0, 0, 0,
      0, 0, 0x40, 0, 0, 0, 0, 0, 64, 0, 0, 0, 0, 0, 0, 0, 0, 0, 0, 0, 0, 0, 0, 0,
      0, 0, 0, 0, 64, 0, 56, 0, 1, 0, 0, 0, 0, 0, 0, 0]
     @ [1, 0, 0, 0, 5, 0, 0, 0, 120, 0, 0, 0, 0, 0, 0, 0, 0, 0, 0x40, 0, 0, 0, 0, 0,
        0, 0, 0x40, 0, 0, 0, 0, 0, 16, 0, 0, 0, 0, 0, 0, 0, 16, 0, 0, 0, 0, 0, 0, 0, 0, 0x10, 0, 0, 0, 0, 0, 0]
     @ replicate 16 0x90"

definition tiny_elf :: "ptr \<Rightarrow> mem" where
  "tiny_elf base x = (if x - base < 136 then tiny_bytes ! unat (x - base) else 0)"

lemma upt_8_16: "[0..<8] = [0, 1, 2, 3, 4, 5, 6, 7 :: nat]"
  "[0..<16] = [0, 1, 2, 3, 4, 5, 6, 7, 8, 9, 10, 11, 12, 13, 14, 15 :: nat]"
  by (simp_all add: upt_rec)

lemmas tiny_fields = header_at_def phdr_at_def EI_NIDENT_def upt_8_16 read16_def read32_def read64_def tiny_elf_def
  tiny_bytes_def push_bit_eq_mult

lemma tiny_elf_header:
  "header_at (tiny_elf 0x1000) 0x1000 =
     \<lparr>e_ident = [0x7F, 0x45, 0x4C, 0x46, 2, 1, 1, 0, 0, 0, 0, 0, 0, 0, 0, 0], e_type = 2, e_machine = 0x3E,
      e_version = 1, e_entry = 0x400000, e_phoff = 64, e_shoff = 0, e_flags = 0, e_ehsize = 64, e_phentsize = 56,
      e_phnum = 1, e_shentsize = 0, e_shnum = 0, e_shstrndx = 0\<rparr>"
  by (simp add: tiny_fields)

lemma tiny_elf_phdr:
  "phdr_at (tiny_elf 0x1000) 0x1040 = \<lparr>p_type = 1, p_flags = 5, p_offset = 120, p_vaddr = 0x400000,
      p_paddr = 0x400000, p_filesz = 16, p_memsz = 16, p_align = 0x1000\<rparr>"
  by (simp add: tiny_fields)

lemmas tiny_checks = elf_scan_def phdrs_at_def phdr_ptr_def scan_phdr_def scan_start_def elf_check_file_def
  elf_check_supported_def EI_MAG0_def EI_MAG1_def EI_MAG2_def EI_MAG3_def EI_CLASS_def EI_DATA_def ELFMAG0_def ELFMAG1_def
  ELFMAG2_def ELFMAG3_def ELFCLASS64_def ELFDATA2LSB_def ELFMACHINE_def ElfType_Exec_def ElfType_Rel_def UINT32_MAX_def
  sizeof_Elf64_Header_def sizeof_Elf64_Phdr_def ProgramType_Load_def PAGE_SIZE_def USER_ADDR_END_def align_up_def align_down_def

lemma tiny_elf_accepted:
  "elf_scan (tiny_elf 0x1000) 0x1000 136
     = Inr \<lparr>image_base = 0x400000, base_found = True, image_end = 0x400010, prev_page_end = 0x401000\<rparr>"
  by (simp add: tiny_checks tiny_elf_header tiny_elf_phdr word_le_nat_alt word_less_nat_alt Let_def)

lemma tiny_elf_relocatable:
  defines "img \<equiv> (tiny_elf 0x1000)(0x1010 := 1)"
  shows "header_at img 0x1000 = (header_at (tiny_elf 0x1000) 0x1000)\<lparr>e_type := 1\<rparr>"
    and "elf_scan img 0x1000 136
      = Inr \<lparr>image_base = 0x400000, base_found = True, image_end = 0x400010, prev_page_end = 0x401000\<rparr>"
proof -
  show h: "header_at img 0x1000 = (header_at (tiny_elf 0x1000) 0x1000)\<lparr>e_type := 1\<rparr>"
    unfolding img_def by (simp add: tiny_fields)
  have "phdr_at img 0x1040 = phdr_at (tiny_elf 0x1000) 0x1040"
    by (rule phdr_at_same [of "span 0x1040 56"]) (auto simp: same_on_def span_nowrap img_def)
  then show "elf_scan img 0x1000 136
      = Inr \<lparr>image_base = 0x400000, base_found = True, image_end = 0x400010, prev_page_end = 0x401000\<rparr>"
    by (simp add: tiny_checks h tiny_elf_header tiny_elf_phdr word_le_nat_alt word_less_nat_alt Let_def)
qed

section \<open>Properties\<close>

text \<open>
  Claim C10. The decision to accept an image depends on nothing outside it: on two memories that agree on the image
  the checks give the same answer, whatever the header says. In an accepted image every program header and the
  file bytes of every segment to load lie inside the image.
\<close>

theorem elf_scan_stays_in_image:
  shows "(same_on (span bytes (unat sz)) m m' \<longrightarrow> elf_scan m' bytes sz = elf_scan m bytes sz)
    \<and> (\<forall>v. elf_scan m bytes sz = Inr v \<longrightarrow>
         (\<forall>i < unat (e_phnum (header_at m bytes)).
            span (phdr_ptr bytes (header_at m bytes) (of_nat i)) 56 \<subseteq> span bytes (unat sz))
         \<and> (\<forall>p \<in> set (loads (phdrs_at m bytes)).
            span (bytes + p_offset p) (unat (p_filesz p)) \<subseteq> span bytes (unat sz)))"
proof (intro conjI impI allI)
  assume "same_on (span bytes (unat sz)) m m'"
  then show "elf_scan m' bytes sz = elf_scan m bytes sz" by (rule elf_scan_same)
next
  fix v i assume v: "elf_scan m bytes sz = Inr v" and i: "i < unat (e_phnum (header_at m bytes))"
  show "span (phdr_ptr bytes (header_at m bytes) (of_nat i)) 56 \<subseteq> span bytes (unat sz)"
    using phdr_in_image [OF elf_scan_accepts(4) [OF v] i] .
next
  fix v assume v: "elf_scan m bytes sz = Inr v"
  show "\<forall>p \<in> set (loads (phdrs_at m bytes)). span (bytes + p_offset p) (unat (p_filesz p)) \<subseteq> span bytes (unat sz)"
  proof
    fix p assume "p \<in> set (loads (phdrs_at m bytes))"
    then have "seg_valid sz p" using scan_phdrs_valid [OF elf_scan_accepts(5) [OF v]] by blast
    then show "span (bytes + p_offset p) (unat (p_filesz p)) \<subseteq> span bytes (unat sz)" by (rule file_bytes_in_image)
  qed
qed

theorem elf_scan_stays_in_image_witness:
  "span (0x1000 + 64) 56 \<subseteq> span (0x1000 :: u64) 136
   \<and> elf_scan ((tiny_elf 0x1000)(0x5000 := 1)) 0x1000 136 = elf_scan (tiny_elf 0x1000) 0x1000 136"
proof -
  have "same_on (span 0x1000 (unat (136 :: u64))) (tiny_elf 0x1000) ((tiny_elf 0x1000)(0x5000 := 1))"
    by (auto simp: same_on_def span_nowrap)
  moreover have "unat (e_phnum (header_at (tiny_elf 0x1000) 0x1000)) = 1"
    "phdr_ptr 0x1000 (header_at (tiny_elf 0x1000) 0x1000) 0 = 0x1000 + 64"
    by (simp_all add: tiny_elf_header phdr_ptr_def)
  ultimately show ?thesis
    using elf_scan_stays_in_image [of "0x1000" "136" "tiny_elf 0x1000" "(tiny_elf 0x1000)(0x5000 := 1)"] tiny_elf_accepted
    by fastforce
qed



lemma scan_phdrs_validate: "scan_phdrs sz ps v = Inr v' \<Longrightarrow> list_all (validate_phdr sz) ps"
  using scan_phdrs_valid [of sz ps v v'] by (auto simp: list_all_iff validate_phdr_def seg_valid_def not_less)

text \<open>
  Claim C23. The loader against the specification in the test suite: an image that the loader accepts satisfies the
  specification exactly when it is an executable (not a relocatable object), states the current version and
  has headers of the standard size. These three are all that the loader lets through beyond the specification.
\<close>

theorem accepted_images_against_test_specification:
  assumes "elf_scan m bytes sz = Inr v"
  shows "validate_phdrs m bytes sz \<longleftrightarrow>
     e_type (header_at m bytes) = ElfType_Exec \<and> e_ident (header_at m bytes) ! EI_VERSION = EV_CURRENT
     \<and> e_phentsize (header_at m bytes) = 56"
proof -
  define h where "h = header_at m bytes"
  note acc = elf_scan_accepts [OF assms, folded h_def]
  have sz: "\<not> sz < sizeof_Elf64_Header" using acc(1) by (simp add: sizeof_Elf64_Header_def word_less_nat_alt)
  have e56: "ucast (e_phentsize h) = sizeof_Elf64_Phdr \<longleftrightarrow> e_phentsize h = 56"
    using unat_ucast_16 [of "e_phentsize h"] by (auto simp: sizeof_Elf64_Phdr_def word_unat_eq_iff)
  have head: "validate_header m bytes sz \<longleftrightarrow>
      e_type h = ElfType_Exec \<and> e_ident h ! EI_VERSION = EV_CURRENT \<and> e_phentsize h = 56"
    using acc(2,3) sz e56
    by (auto simp: validate_header_def Let_def elf_check_file_def elf_check_supported_def h_def [symmetric] split: if_splits)
  have "validate_phdrs m bytes sz" if e: "e_phentsize h = 56" and v: "validate_header m bytes sz"
  proof -
    have fit: "unat (e_phoff h) + unat (e_phnum h) * 56 \<le> unat sz" using acc(4) e by (simp add: table_fits_def)
    then have o: "e_phoff h \<le> sz" by (simp add: word_le_nat_alt)
    have "unat (e_phnum h) \<le> unat ((sz - e_phoff h) div sizeof_Elf64_Phdr)"
      using fit unat_sub_le [OF o] by (simp add: unat_div sizeof_Elf64_Phdr_def less_eq_div_iff_mult_less_eq)
    moreover have "phdrs_at m bytes = map (\<lambda>i. phdr_at m (bytes + e_phoff h + of_nat i * sizeof_Elf64_Phdr)) [0..<unat (e_phnum h)]"
      using e by (simp add: phdrs_at_def h_def [symmetric] phdr_ptr_def Let_def sizeof_Elf64_Phdr_def)
    ultimately show ?thesis
      using v o scan_phdrs_validate [OF acc(5)]
      by (simp add: validate_phdrs_def Let_def h_def [symmetric] list.pred_map comp_def not_less word_le_nat_alt)
  qed
  then show ?thesis unfolding h_def [symmetric] using head by (auto simp: validate_phdrs_def)
qed

theorem accepted_images_against_test_specification_witness:
  "validate_phdrs (tiny_elf 0x1000) 0x1000 136
   \<and> \<not> validate_phdrs ((tiny_elf 0x1000)(0x1010 := 1)) 0x1000 136"
  using accepted_images_against_test_specification [OF tiny_elf_accepted]
    accepted_images_against_test_specification [OF tiny_elf_relocatable(2)]
  by (simp add: tiny_elf_relocatable(1) tiny_elf_header ElfType_Exec_def EI_VERSION_def EV_CURRENT_def)

end
