(* ===== verification/Port_IO.thy ===== *)
theory Port_IO
  imports Virtual_Memory
begin

text \<open>
  Port input and output, \<^verbatim>\<open>src/src/include/arch/x86-64/arch/io.hpp\<close>. What the
  processor exchanged with the devices is a log. The devices themselves are not part of the repository:
  the byte that a read returns is a parameter, a function of the port and of everything exchanged so far.
\<close>

datatype io_event = Out u16 u8 | In u16 u8

type_synonym device = "u16 \<Rightarrow> io_event list \<Rightarrow> u8"

record io = vmm +
  io_log :: "io_event list"

definition outb :: "u16 \<Rightarrow> u8 \<Rightarrow> 'a io_scheme \<Rightarrow> 'a io_scheme" where
  "outb port val s = s\<lparr>io_log := io_log s @ [Out port val]\<rparr>"

definition inb :: "device \<Rightarrow> u16 \<Rightarrow> 'a io_scheme \<Rightarrow> u8 \<times> 'a io_scheme" where
  "inb D port s = (let val = D port (io_log s) in (val, s\<lparr>io_log := io_log s @ [In port val]\<rparr>))"

lemma outb_log [simp]: "io_log (outb p v s) = io_log s @ [Out p v]"
  by (simp add: outb_def)

text \<open>What was written to the ports, in order.\<close>

fun writes :: "io_event list \<Rightarrow> (u16 \<times> u8) list" where
  "writes [] = []"
| "writes (Out p v # es) = (p, v) # writes es"
| "writes (In p v # es) = writes es"

lemma writes_append [simp]: "writes (xs @ ys) = writes xs @ writes ys"
  by (induction xs rule: writes.induct) simp_all

text \<open>
  A latched data port reads back the last byte written to it, which is how the interrupt controllers
  answer reads of their mask register once they are initialised.
\<close>

definition last_written :: "u16 \<Rightarrow> u8 \<Rightarrow> io_event list \<Rightarrow> u8" where
  "last_written p dflt es = (case map_of (rev (writes es)) p of None \<Rightarrow> dflt | Some v \<Rightarrow> v)"

lemma last_written_Out [simp]:
  "last_written p d (es @ [Out q v]) = (if q = p then v else last_written p d es)"
  by (simp add: last_written_def)

lemma last_written_In [simp]: "last_written p d (es @ [In q v]) = last_written p d es"
  by (simp add: last_written_def)

lemma last_written_Nil [simp]: "last_written p d [] = d"
  by (simp add: last_written_def)

end
