(* ===== verification/Kernel_Log.thy ===== *)
theory Kernel_Log
  imports Port_IO
begin

text \<open>
  The kernel log: \<open>vsnprintf\<close>, \<open>klog\<close> and \<open>klog_panic\<close> of
  \<^verbatim>\<open>src/src/kernel/util/kernel_logger.cpp\<close>, the frame buffer terminal of
  \<^verbatim>\<open>src/src/kernel/drivers/fbtty.cpp\<close> that it writes to, and the character classes of
  \<^verbatim>\<open>src/src/libc/ctype.cpp\<close>. The terminal emulator is not part of the repository: what
  is passed to it is collected in a log.
\<close>

section \<open>Character classes\<close>

text \<open>The argument and result are \<open>int\<close>; a result is used as a truth value.\<close>

definition isdigit :: "int \<Rightarrow> bool" where "isdigit c \<longleftrightarrow> c \<ge> 48 \<and> c \<le> 57"
definition isupper :: "int \<Rightarrow> bool" where "isupper c \<longleftrightarrow> c \<ge> 65 \<and> c \<le> 90"
definition islower :: "int \<Rightarrow> bool" where "islower c \<longleftrightarrow> c \<ge> 97 \<and> c \<le> 122"
definition isalpha :: "int \<Rightarrow> bool" where "isalpha c \<longleftrightarrow> isupper c \<or> islower c"
definition isalnum :: "int \<Rightarrow> bool" where "isalnum c \<longleftrightarrow> isalpha c \<or> isdigit c"
definition isspace :: "int \<Rightarrow> bool" where "isspace c \<longleftrightarrow> c = 32 \<or> (c \<ge> 9 \<and> c \<le> 13)"
definition isxdigit :: "int \<Rightarrow> bool" where
  "isxdigit c \<longleftrightarrow> isdigit c \<or> (c \<ge> 97 \<and> c \<le> 102) \<or> (c \<ge> 65 \<and> c \<le> 70)"
definition iscntrl :: "int \<Rightarrow> bool" where "iscntrl c \<longleftrightarrow> (c \<ge> 0 \<and> c < 0x20) \<or> c = 0x7f"
definition isprint :: "int \<Rightarrow> bool" where "isprint c \<longleftrightarrow> c \<ge> 0x20 \<and> c < 0x7f"
definition isgraph :: "int \<Rightarrow> bool" where "isgraph c \<longleftrightarrow> c > 0x20 \<and> c < 0x7f"
definition ispunct :: "int \<Rightarrow> bool" where "ispunct c \<longleftrightarrow> isprint c \<and> \<not> isalnum c \<and> c \<noteq> 32"
definition tolower :: "int \<Rightarrow> int" where "tolower c = (if isupper c then c + (97 - 65) else c)"
definition toupper :: "int \<Rightarrow> int" where "toupper c = (if islower c then c - (97 - 65) else c)"

lemmas ctype_defs = isdigit_def isupper_def islower_def isalpha_def isalnum_def isspace_def isxdigit_def
  iscntrl_def isprint_def isgraph_def ispunct_def tolower_def toupper_def

section \<open>Formatting\<close>

text \<open>
  The loops that fill \<open>tmp\<close> with the digits of an unsigned value, least significant first; the code has a
  copy of them per conversion and width. The loop that follows copies \<open>tmp\<close> from its end.
\<close>

definition nibble_char :: "nat \<Rightarrow> char" where
  "nibble_char nibble = (if nibble < 10 then char_of (48 + nibble) else char_of (97 + nibble - 10))"

fun dec_loop :: "nat \<Rightarrow> char list \<Rightarrow> char list" where
  "dec_loop val tmp = (if val > 0 then dec_loop (val div 10) (tmp @ [char_of (48 + val mod 10)]) else tmp)"

fun hex_loop :: "nat \<Rightarrow> char list \<Rightarrow> char list" where
  "hex_loop val tmp = (if val > 0 then hex_loop (val div 16) (tmp @ [nibble_char (val mod 16)]) else tmp)"

declare dec_loop.simps [simp del] hex_loop.simps [simp del]

definition print_dec :: "nat \<Rightarrow> char list" where
  "print_dec val = rev (if val = 0 then ''0'' else dec_loop val [])"

definition print_hex :: "nat \<Rightarrow> char list" where
  "print_hex val = rev (if val = 0 then ''0'' else hex_loop val [])"

text \<open>The conversion \<open>%d\<close> negates in 32 bits, where the least value is its own negation.\<close>

definition print_int :: "u32 \<Rightarrow> char list" where
  "print_int val =
     (let (sign, val) = (if sint val < 0 then (''-'', - val) else ([], val))
      in sign @ (if val = 0 then ''0'' else if sint val > 0 then rev (dec_loop (nat (sint val)) []) else []))"

text \<open>The variable arguments, and the formatting loop; the end of the list is the terminating zero.\<close>

datatype va = IntArg u32 | LongArg u64 | StrArg "char list option"

abbreviation bad_va_arg :: stop where "bad_va_arg \<equiv> Halted ''va_arg does not match the argument''"
abbreviation past_the_format :: stop where "past_the_format \<equiv> Halted ''read past the end of the format''"

definition prepend :: "char list \<Rightarrow> char list exec \<Rightarrow> char list exec" where
  "prepend xs m = ebind m (\<lambda>ys. ret (xs @ ys))"

lemma prepend_simps [simp]:
  "prepend xs (ret ys) = ret (xs @ ys)" "prepend xs (halt e) = halt e" "prepend [] m = m"
  "prepend xs (prepend ys m) = prepend (xs @ ys) m"
  by (auto simp: prepend_def ebind_def split: option.splits sum.splits)

fun vsnprintf :: "char list \<Rightarrow> va list \<Rightarrow> char list exec" where
  "vsnprintf [] args = ret []"
| "vsnprintf (c # fmt) args =
     (if c \<noteq> CHR ''%'' then
        prepend (if c = CHR 0x0A then [CHR 0x0D, c] else [c]) (vsnprintf fmt args)
      else (case fmt of
          [] \<Rightarrow> ret ''%''
        | f # rest \<Rightarrow>
            if f = CHR ''s'' then
              (case args of
                 StrArg s # args \<Rightarrow> prepend (case s of None \<Rightarrow> [] | Some s \<Rightarrow> s) (vsnprintf rest args)
               | _ \<Rightarrow> halt bad_va_arg)
            else if f = CHR ''d'' then
              (case args of IntArg v # args \<Rightarrow> prepend (print_int v) (vsnprintf rest args) | _ \<Rightarrow> halt bad_va_arg)
            else if f = CHR ''u'' then
              (case args of IntArg v # args \<Rightarrow> prepend (print_dec (unat v)) (vsnprintf rest args) | _ \<Rightarrow> halt bad_va_arg)
            else if f = CHR ''x'' then
              (case args of IntArg v # args \<Rightarrow> prepend (print_hex (unat v)) (vsnprintf rest args) | _ \<Rightarrow> halt bad_va_arg)
            else if f = CHR ''l'' then
              (case rest of
                 [] \<Rightarrow> ret []
               | f1 # rest1 \<Rightarrow>
                   if f1 = CHR ''l'' then
                     (case rest1 of
                        [] \<Rightarrow> halt past_the_format
                      | g # rest2 \<Rightarrow>
                          if g = CHR ''x'' then
                            (case args of LongArg v # args \<Rightarrow> prepend (print_hex (unat v)) (vsnprintf rest2 args) | _ \<Rightarrow> halt bad_va_arg)
                          else if g = CHR ''u'' then
                            (case args of LongArg v # args \<Rightarrow> prepend (print_dec (unat v)) (vsnprintf rest2 args) | _ \<Rightarrow> halt bad_va_arg)
                          else vsnprintf rest2 args)
                   else vsnprintf rest args)
            else if f = CHR ''%'' then prepend ''%'' (vsnprintf rest args)
            else prepend [CHR ''%'', f] (vsnprintf rest args)))"

section \<open>The terminal and the log\<close>

record FbTty =
  m_fb :: ptr
  ft_ctx :: ptr

text \<open>\<open>g_tty\<close> is null before the terminal is set up; \<open>flanterm_out\<close> is what was passed to \<open>flanterm_write\<close>.\<close>

record console = io +
  g_tty :: "FbTty option"
  flanterm_out :: "char list"

definition write_terminal :: "char list \<Rightarrow> 'a console_scheme \<Rightarrow> 'a console_scheme exec" where
  "write_terminal str s =
     (case g_tty s of
        None \<Rightarrow> halt NullDeref
      | Some tty \<Rightarrow> ret (if ft_ctx tty \<noteq> null then s\<lparr>flanterm_out := flanterm_out s @ str\<rparr> else s))"

text \<open>\<open>klog\<close> formats into a buffer of 1024 bytes, terminating zero included, that \<open>vsnprintf\<close> does not know.\<close>

definition klog :: "char list \<Rightarrow> va list \<Rightarrow> 'a console_scheme \<Rightarrow> 'a console_scheme exec" where
  "klog fmt args s =
     ebind (vsnprintf fmt args) (\<lambda>buf.
       if length buf < 1024 then write_terminal buf s else halt (Halted ''write past the end of buf''))"

definition BOLD :: "char list" where "BOLD = CHR 0x1B # ''[1m''"
definition GREEN :: "char list" where "GREEN = CHR 0x1B # ''[32m''"
definition BLUE :: "char list" where "BLUE = CHR 0x1B # ''[34m''"
definition RED :: "char list" where "RED = CHR 0x1B # ''[31m''"
definition RESET :: "char list" where "RESET = CHR 0x1B # ''[0m''"

text \<open>\<open>klog_panic\<close> never returns: it prints, masks interrupts and halts the processor for ever.\<close>

definition klog_panic :: "char list \<Rightarrow> 'a console_scheme \<Rightarrow> 'b exec" where
  "klog_panic fmt s =
     ebind (klog (''%s%s[kernel]: PANIC%s'' @ [CHR 0x0A]) [StrArg (Some BOLD), StrArg (Some RED), StrArg (Some RESET)] s) (\<lambda>s.
     ebind (klog ''%s'' [StrArg (Some fmt)] s) (\<lambda>s.
     halt (Panic fmt)))"

section \<open>Registers in the log\<close>

record IrqFrame =
  r15 :: u64
  r14 :: u64
  r13 :: u64
  r12 :: u64
  r11 :: u64
  r10 :: u64
  r9 :: u64
  r8 :: u64
  rbp :: u64
  rsi :: u64
  rdi :: u64
  rdx :: u64
  rcx :: u64
  rbx :: u64
  rax :: u64
  frame_error :: u64
  rip :: u64
  cs :: u64
  frame_rflags :: u64
  rsp :: u64
  ss :: u64

definition dump_registers :: "char list \<Rightarrow> IrqFrame \<Rightarrow> 'a console_scheme \<Rightarrow> 'a console_scheme exec" where
  "dump_registers label r s =
     ebind (klog (''%s registers:'' @ [CHR 0x0A]) [StrArg (Some label)] s) (\<lambda>s.
     ebind (klog (''  rax=%llx rbx=%llx rcx=%llx rdx=%llx'' @ [CHR 0x0A])
              (map LongArg [rax r, rbx r, rcx r, rdx r]) s) (\<lambda>s.
     ebind (klog (''  rsi=%llx rdi=%llx rbp=%llx rsp=%llx'' @ [CHR 0x0A])
              (map LongArg [rsi r, rdi r, rbp r, rsp r]) s) (\<lambda>s.
     ebind (klog (''  r8 =%llx r9 =%llx r10=%llx r11=%llx'' @ [CHR 0x0A])
              (map LongArg [r8 r, r9 r, r10 r, r11 r]) s) (\<lambda>s.
     ebind (klog (''  r12=%llx r13=%llx r14=%llx r15=%llx'' @ [CHR 0x0A])
              (map LongArg [r12 r, r13 r, r14 r, r15 r]) s) (\<lambda>s.
     ebind (klog (''  rip=%llx cs=%llx ss=%llx rflags=%llx'' @ [CHR 0x0A])
              (map LongArg [rip r, cs r, ss r, frame_rflags r]) s) (\<lambda>s.
     klog (''  error=%llx'' @ [CHR 0x0A]) [LongArg (frame_error r)] s))))))"

section \<open>Reading numbers back\<close>

definition digit_of :: "char \<Rightarrow> nat" where
  "digit_of c = (let n = of_char c in if n < 58 then n - 48 else n - 87)"

definition number_of :: "nat \<Rightarrow> char list \<Rightarrow> nat" where
  "number_of b ds = foldl (\<lambda>n c. b * n + digit_of c) 0 ds"

text \<open>The digits of a number, least significant first, that both loops produce.\<close>

fun digits :: "nat \<Rightarrow> nat \<Rightarrow> nat list" where
  "digits b n = (if n = 0 \<or> b < 2 then [] else n mod b # digits b (n div b))"

declare digits.simps [simp del]

lemma dec_loop_digits: "dec_loop val tmp = tmp @ map (\<lambda>d. char_of (48 + d)) (digits 10 val)"
  by (induction val tmp rule: dec_loop.induct) (subst dec_loop.simps, subst digits.simps, auto simp: digits.simps [of 10 0])

lemma hex_loop_digits: "hex_loop val tmp = tmp @ map nibble_char (digits 16 val)"
  by (induction val tmp rule: hex_loop.induct) (subst hex_loop.simps, subst digits.simps, auto simp: digits.simps [of 16 0])

lemma digit_of_0: "digit_of CHR ''0'' = 0"
  by (simp add: digit_of_def)

lemma digit_of_dec: "n < 10 \<Longrightarrow> digit_of (char_of (48 + n)) = n"
  by (simp add: digit_of_def)

lemma digit_of_nibble: "n < 16 \<Longrightarrow> digit_of (nibble_char n) = n"
  by (simp add: digit_of_def nibble_char_def)

lemma digits_0 [simp]: "digits b 0 = []"
  by (simp add: digits.simps)

lemma digits_step: "2 \<le> b \<Longrightarrow> 0 < n \<Longrightarrow> digits b n = n mod b # digits b (n div b)"
  by (subst digits.simps) simp

lemma digits_less:
  assumes "2 \<le> b" and "d \<in> set (digits b n)"
  shows "d < b"
  using assms(2)
proof (induction n rule: less_induct)
  case (less n)
  with assms(1) less.IH [of "n div b"] show ?case by (cases "n = 0") (auto simp: digits_step)
qed

lemma length_digits: "2 \<le> b \<Longrightarrow> n < b ^ k \<Longrightarrow> length (digits b n) \<le> k"
proof (induction k arbitrary: n)
  case (Suc k)
  then have "n div b < b ^ k" by (simp add: less_mult_imp_div_less mult.commute)
  with Suc show ?case by (cases "n = 0") (simp_all add: digits_step)
qed simp

lemma digits_nonzero_last:
  assumes "2 \<le> b" and "0 < n"
  shows "digits b n \<noteq> [] \<and> last (digits b n) \<noteq> 0"
  using assms(2)
proof (induction n rule: less_induct)
  case (less n)
  show ?case
  proof (cases "n div b = 0")
    case True
    with assms(1) less show ?thesis by (simp add: digits_step div_eq_0_iff)
  next
    case False
    with assms(1) less.IH [of "n div b"] less.prems show ?thesis by (simp add: digits_step)
  qed
qed

lemma number_of_digits:
  assumes "2 \<le> b" and "\<And>d. d < b \<Longrightarrow> digit_of (f d) = d"
  shows "number_of b (rev (map f (digits b n))) = n"
proof (induction n rule: less_induct)
  case (less n)
  show ?case
  proof (cases "n = 0")
    case False
    then have "number_of b (rev (map f (digits b (n div b)))) = n div b" using assms(1) by (intro less.IH) simp
    moreover have "digit_of (f (n mod b)) = n mod b" using assms by simp
    ultimately show ?thesis using False assms(1) by (simp add: number_of_def digits_step)
  qed (simp add: number_of_def)
qed

lemma print_dec_digits: "print_dec n = (if n = 0 then ''0'' else rev (map (\<lambda>d. char_of (48 + d)) (digits 10 n)))"
  by (simp add: print_dec_def dec_loop_digits)

lemma print_hex_digits: "print_hex n = (if n = 0 then ''0'' else rev (map nibble_char (digits 16 n)))"
  by (simp add: print_hex_def hex_loop_digits)

lemma print_dec_value: "number_of 10 (print_dec n) = n"
  using number_of_digits [of 10 "\<lambda>d. char_of (48 + d)" n] digit_of_dec
  by (auto simp: print_dec_digits number_of_def digit_of_def)

lemma print_hex_value: "number_of 16 (print_hex n) = n"
  using number_of_digits [of 16 nibble_char n] digit_of_nibble
  by (auto simp: print_hex_digits number_of_def digit_of_def)

text \<open>Canonical: a leading zero only for zero itself.\<close>

lemma print_dec_hd: "(hd (print_dec n) = CHR ''0'') = (n = 0)"
proof (cases "n = 0")
  case False
  then have d: "digits 10 n \<noteq> []" "last (digits 10 n) \<noteq> 0" using digits_nonzero_last [of 10 n] by auto
  then have "last (digits 10 n) < 10" using digits_less [of 10] last_in_set by auto
  then have "char_of (48 + last (digits 10 n)) \<noteq> CHR ''0''"
    using d(2) digit_of_dec [of "last (digits 10 n)"] by (metis digit_of_0)
  with False d(1) show ?thesis by (simp add: print_dec_digits hd_rev last_map)
qed (simp add: print_dec_digits)

lemma print_hex_hd: "(hd (print_hex n) = CHR ''0'') = (n = 0)"
proof (cases "n = 0")
  case False
  then have d: "digits 16 n \<noteq> []" "last (digits 16 n) \<noteq> 0" using digits_nonzero_last [of 16 n] by auto
  then have "last (digits 16 n) < 16" using digits_less [of 16] last_in_set by auto
  then have "nibble_char (last (digits 16 n)) \<noteq> CHR ''0''"
    using d(2) digit_of_nibble [of "last (digits 16 n)"] by (metis digit_of_0)
  with False d(1) show ?thesis by (simp add: print_hex_digits hd_rev last_map)
qed (simp add: print_hex_digits)

lemma print_dec_length: "n < 10 ^ k \<Longrightarrow> 0 < k \<Longrightarrow> length (print_dec n) \<le> k"
  using length_digits [of 10 n k] by (simp add: print_dec_digits)

lemma print_hex_length: "n < 16 ^ k \<Longrightarrow> 0 < k \<Longrightarrow> length (print_hex n) \<le> k"
  using length_digits [of 16 n k] by (simp add: print_hex_digits)

text \<open>A console with an open terminal, for concrete runs.\<close>

definition test_console :: console where
  "test_console = io.extend (vmm.extend blank_vmm \<lparr>io_log = []\<rparr>)
     \<lparr>g_tty = Some \<lparr>m_fb = 0x1000, ft_ctx = 0x2000\<rparr>, flanterm_out = []\<rparr>"

section \<open>Properties\<close>


text \<open>The text of a format: line feeds become carriage return and line feed.\<close>

definition crlf :: "char list \<Rightarrow> char list" where
  "crlf t = concat (map (\<lambda>c. if c = CHR 0x0A then [CHR 0x0D, CHR 0x0A] else [c]) t)"

lemma vsnprintf_text: "CHR ''%'' \<notin> set t \<Longrightarrow> vsnprintf (t @ fmt) args = prepend (crlf t) (vsnprintf fmt args)"
  by (induction t) (auto simp: crlf_def)

text \<open>
  Claim C27. Formatting is compositional on text: text without a percent sign is copied, with every line
  feed turned into carriage return and line feed, and a string argument is inserted as it is, so
  a message of a prefix, a string and a suffix that fits the 1024 byte buffer reaches an open terminal
  unchanged but for the line ends.
\<close>

theorem klog_text_reaches_terminal:
  assumes "CHR ''%'' \<notin> set pre" and "CHR ''%'' \<notin> set suf"
    and "length (crlf pre @ str @ crlf suf) < 1024" and "g_tty s = Some tty" and "ft_ctx tty \<noteq> null"
  shows "klog (pre @ ''%s'' @ suf) [StrArg (Some str)] s
    = ret (s\<lparr>flanterm_out := flanterm_out s @ crlf pre @ str @ crlf suf\<rparr>)"
proof -
  have "vsnprintf suf [] = ret (crlf suf)" using vsnprintf_text [OF assms(2), of "[]" "[]"] by simp
  then show ?thesis using vsnprintf_text [OF assms(1)] assms(3-5) by (simp add: klog_def write_terminal_def)
qed

theorem klog_text_reaches_terminal_witness:
  "klog (''irq: '' @ ''%s'' @ [CHR 0x0A]) [StrArg (Some ''ok'')] test_console
     = ret (test_console\<lparr>flanterm_out := ''irq: ok'' @ [CHR 0x0D, CHR 0x0A]\<rparr>)"
  using klog_text_reaches_terminal [of "''irq: ''" "[CHR 0x0A]" "''ok''" test_console "\<lparr>m_fb = 0x1000, ft_ctx = 0x2000\<rparr>"]
  by (simp add: crlf_def test_console_def io.defs)



end
