(* ===== verification/Pit_Timer.thy ===== *)
theory Pit_Timer
  imports Kernel_Log
begin

text \<open>
  The programmable interval timer, \<^verbatim>\<open>src/src/include/drivers/pit.hpp\<close> and
  \<^verbatim>\<open>src/src/kernel/drivers/pit.cpp\<close>: programming the chip over the ports and the
  tick counters that the timer interrupt advances.
\<close>

section \<open>Constants\<close>

definition HZ :: u64 where "HZ = 1193182"
definition FREQUENCY :: u64 where "FREQUENCY = 1000"
definition RELOAD :: u16 where "RELOAD = ucast (HZ div FREQUENCY)"

definition CHANNEL0 :: u8 where "CHANNEL0 = 0x40"
definition CHANNEL1 :: u8 where "CHANNEL1 = 0x41"
definition CHANNEL2 :: u8 where "CHANNEL2 = 0x42"
definition COMMAND :: u8 where "COMMAND = 0x43"

definition CHANNEL0_CMD :: u8 where "CHANNEL0_CMD = push_bit 6 0"
definition CHANNEL1_CMD :: u8 where "CHANNEL1_CMD = push_bit 6 1"
definition CHANNEL2_CMD :: u8 where "CHANNEL2_CMD = push_bit 6 2"
definition READBACK_CMD :: u8 where "READBACK_CMD = push_bit 6 3"

definition LATCH :: u8 where "LATCH = push_bit 4 0"
definition ACCESSLO :: u8 where "ACCESSLO = push_bit 4 1"
definition ACCESSHI :: u8 where "ACCESSHI = push_bit 4 2"
definition ACCESSLH :: u8 where "ACCESSLH = push_bit 4 3"

definition MODE0 :: u8 where "MODE0 = push_bit 1 0"
definition MODE1 :: u8 where "MODE1 = push_bit 1 1"
definition MODE2 :: u8 where "MODE2 = push_bit 1 2"
definition MODE3 :: u8 where "MODE3 = push_bit 1 3"
definition MODE4 :: u8 where "MODE4 = push_bit 1 4"
definition MODE5 :: u8 where "MODE5 = push_bit 1 5"

lemmas pit_consts = HZ_def FREQUENCY_def RELOAD_def CHANNEL0_def COMMAND_def CHANNEL0_CMD_def LATCH_def
  ACCESSLO_def ACCESSHI_def ACCESSLH_def MODE3_def

section \<open>State and operations\<close>

record pit = console +
  pit_clocks :: u64
  tick :: u64
  seconds :: u64
  milli_seconds :: u64

definition set_reload_access :: "u8 \<Rightarrow> u8 \<Rightarrow> u8 \<Rightarrow> 'a io_scheme \<Rightarrow> 'a io_scheme" where
  "set_reload_access channel_cmd access pit_mode s =
     outb (ucast COMMAND) (channel_cmd OR access OR pit_mode) s"

text \<open>A division by zero raises the divide error exception.\<close>

definition set_reload_value :: "u64 \<Rightarrow> u8 \<Rightarrow> 'a io_scheme \<Rightarrow> 'a io_scheme exec" where
  "set_reload_value hz access s =
     (if hz = 0 then halt (Halted ''divide error'')
      else
        (let divisor = (ucast (HZ div hz) :: u16);
             low = ucast (divisor AND 0xFF);
             high = ucast (drop_bit 8 divisor AND 0xFF)
         in if access = ACCESSLH then ret (outb (ucast CHANNEL0) high (outb (ucast CHANNEL0) low s))
            else if access = ACCESSLO then ret (outb (ucast CHANNEL0) low s)
            else if access = ACCESSHI then ret (outb (ucast CHANNEL0) high s)
            else ret s))"

definition init_pit :: "u8 \<Rightarrow> u8 \<Rightarrow> u8 \<Rightarrow> 'a io_scheme \<Rightarrow> 'a io_scheme exec" where
  "init_pit channel_cmd access pit_mode s =
     set_reload_value FREQUENCY access (set_reload_access channel_cmd access pit_mode s)"

definition read_pit_count :: "device \<Rightarrow> 'a io_scheme \<Rightarrow> u64 \<times> 'a io_scheme" where
  "read_pit_count D s =
     (let s = outb (ucast COMMAND) (CHANNEL0_CMD OR LATCH) s;
          (low, s) = inb D (ucast CHANNEL0) s;
          (high, s) = inb D (ucast CHANNEL0) s
      in (ucast low OR push_bit 8 (ucast high), s))"

definition increase_tick :: "'a pit_scheme \<Rightarrow> 'a pit_scheme" where
  "increase_tick s = s\<lparr>tick := tick s + 1, pit_clocks := pit_clocks s + ucast RELOAD\<rparr>"

definition reset_tick :: "'a pit_scheme \<Rightarrow> 'a pit_scheme" where
  "reset_tick s = s\<lparr>tick := 0, pit_clocks := 0\<rparr>"

definition get_time_seconds :: "'a pit_scheme \<Rightarrow> u64" where
  "get_time_seconds s = pit_clocks s div HZ"

definition get_time_milliseconds :: "'a pit_scheme \<Rightarrow> u64" where
  "get_time_milliseconds s = (tick s * 1000) div FREQUENCY"

definition increase_time :: "'a pit_scheme \<Rightarrow> 'a pit_scheme" where
  "increase_time s =
     (let s = s\<lparr>seconds := pit_clocks s div HZ\<rparr> in s\<lparr>milli_seconds := get_time_milliseconds s\<rparr>)"

section \<open>Elapsed time\<close>

lemma ticks_count: "tick ((increase_tick ^^ n) s) = tick s + of_nat n"
  by (induction n) (simp_all add: increase_tick_def add.assoc)

lemma divisor_value: "HZ div FREQUENCY = 1193"
proof -
  have "unat (HZ div FREQUENCY) = unat (1193 :: u64)" by (simp add: unat_div HZ_def FREQUENCY_def)
  then show ?thesis by (simp only: word_unat_eq_iff)
qed

lemma RELOAD_value: "RELOAD = 1193"
  by (simp add: RELOAD_def divisor_value)

lemma clocks_tick: "pit_clocks (increase_tick s) = pit_clocks s + 1193"
  by (simp add: increase_tick_def RELOAD_value)

lemma clocks_count: "pit_clocks ((increase_tick ^^ n) s) = pit_clocks s + 1193 * of_nat n"
  by (induction n) (simp_all add: clocks_tick distrib_left)

lemma unat_1000_of_nat: "1193 * n < 2 ^ 64 \<Longrightarrow> unat (of_nat n * 1000 :: u64) = 1000 * n"
  using unat_mult_nowrap [of "of_nat n :: u64" 1000] unat_of_nat_small [of n, where 'a = 64] by simp

lemma time_after_ticks:
  assumes "1193 * n < 2 ^ 64"
  shows "unat (get_time_milliseconds ((increase_tick ^^ n) (reset_tick s))) = n"
    and "unat (get_time_seconds ((increase_tick ^^ n) (reset_tick s))) = 1193 * n div 1193182"
proof -
  show "unat (get_time_milliseconds ((increase_tick ^^ n) (reset_tick s))) = n"
    using unat_1000_of_nat [OF assms]
    by (simp add: get_time_milliseconds_def ticks_count reset_tick_def pit_consts unat_div)
  have "unat (1193 * of_nat n :: u64) = 1193 * n"
    using unat_mult_nowrap [of "1193 :: u64" "of_nat n"] unat_of_nat_small [of n, where 'a = 64] assms by simp
  then show "unat (get_time_seconds ((increase_tick ^^ n) (reset_tick s))) = 1193 * n div 1193182"
    by (simp add: get_time_seconds_def clocks_count reset_tick_def pit_consts unat_div)
qed

text \<open>
  Claim C28. After a reset the timer counts one millisecond per tick, and its seconds counter, which divides
  the clocks of the chip, never runs ahead of the milliseconds and falls behind them by at most one
  second in every 6555; this holds as long as the clock counter does not wrap, for more than 15 quadrillion ticks.
\<close>

theorem timer_counts_elapsed_time:
  assumes "1193 * n < 2 ^ 64"
  shows "unat (get_time_milliseconds ((increase_tick ^^ n) (reset_tick s))) = n
    \<and> unat (get_time_seconds ((increase_tick ^^ n) (reset_tick s))) \<le> n div 1000
    \<and> n div 1000 \<le> unat (get_time_seconds ((increase_tick ^^ n) (reset_tick s))) + n div 6555000 + 1"
proof -
  let ?sec = "1193 * n div 1193182"
  have "?sec \<le> n div 1000"
  proof -
    have "1193182 * ?sec \<le> 1193 * n" by simp
    then have "1000 * ?sec \<le> n" by linarith
    then show ?thesis by linarith
  qed
  moreover have "n div 1000 \<le> ?sec + n div 6555000 + 1"
  proof -
    have "1193 * n < 1193182 * (?sec + 1)" using dividend_less_times_div [of 1193182 "1193 * n"] by simp
    moreover have "n < 6555000 * (n div 6555000 + 1)" using dividend_less_times_div [of 6555000 n] by simp
    moreover have "1000 * (n div 1000) \<le> n" by simp
    ultimately show ?thesis by linarith
  qed
  ultimately show ?thesis using time_after_ticks [OF assms, of s] by simp
qed

definition test_pit :: pit where
  "test_pit = console.extend test_console \<lparr>pit_clocks = 7, tick = 5, seconds = 0, milli_seconds = 0\<rparr>"

theorem timer_counts_elapsed_time_witness:
  "unat (get_time_milliseconds ((increase_tick ^^ 6556000) (reset_tick test_pit))) = 6556000
    \<and> 6554 \<le> unat (get_time_seconds ((increase_tick ^^ 6556000) (reset_tick test_pit)))"
proof -
  have ticks: "1193 * (6556000 :: nat) < 2 ^ 64" "6556000 div 1000 = (6556 :: nat)" "6556000 div 6555000 = (1 :: nat)" by simp_all
  show ?thesis using timer_counts_elapsed_time [OF ticks(1), of test_pit] unfolding ticks(2,3) by linarith
qed

text \<open>
  Programming channel 0 as the timer does sends the command byte and then the low and the high byte of the divisor
  1193, in this order, and nothing else; the divisor is the number of clocks that \<open>increase_tick\<close> adds per tick.
\<close>

lemma init_pit_run:
  "init_pit CHANNEL0_CMD ACCESSLH MODE3 s = ret (s\<lparr>io_log := io_log s @ [Out 0x43 0x36, Out 0x40 0xA9, Out 0x40 0x04]\<rparr>)"
proof -
  have "FREQUENCY \<noteq> 0" by (simp add: FREQUENCY_def)
  then show ?thesis
    by (simp add: divisor_value init_pit_def set_reload_access_def set_reload_value_def RELOAD_value CHANNEL0_CMD_def
        ACCESSLH_def MODE3_def COMMAND_def CHANNEL0_def outb_def)
qed

end
