(* ===== verification/Threads.thy ===== *)
theory Threads
  imports Pit_Timer Single_Deque Kernel_Heap
begin

text \<open>
  Thread and process control blocks, \<^verbatim>\<open>src/src/include/arch/x86-64/proc/thread.hpp\<close>,
  \<^verbatim>\<open>src/src/include/arch/x86-64/proc/process.hpp\<close> and their sources, without
  \<open>ProcessBlock::exit\<close>, which runs the scheduler. The blocks live in two typed stores, from
  addresses to records, beside the byte memory that holds stacks and page tables; the two hooks of a
  thread are stores of their own, since the deques are linked through them.
\<close>

section \<open>Types\<close>

datatype ThreadState = ThreadReady | ThreadRunning | ThreadBlocked | ThreadSleep

record ThreadBlock =
  m_name :: string
  rsp0 :: ptr
  kernel_stack :: ptr
  t_state :: ThreadState
  thread_id :: u16
  registers :: IrqFrame
  exec_start_ms :: u64
  total_runtime_ms :: u64
  scheduled_time :: u64
  sleep_time :: u64
  userspace_time_ms :: u64
  kernelspace_time_ms :: u64
  kernel_pa :: u64
  user_stack_pa :: "u64 option"
  m_entry :: ptr
  m_process :: ptr

datatype ProcStats = ProcReady | ProcRunning | ProcBlocked | ProcSleep | ProcZombie | ProcDead

record AddressSpace =
  page_dir :: PageDirectory
  vmem :: SingleDeque

record ProcessBlock =
  p_threads :: SingleDeque
  p_curr_thread :: ptr
  parent :: ptr
  address_space :: AddressSpace
  p_status :: ProcStats
  is_user :: bool
  is_zombie :: bool
  is_dead :: bool
  is_orphaned :: bool
  exit_status :: u32
  p_name :: string
  pid :: u16
  thread_size :: u8

record procs = pit +
  thread_at :: "ptr \<Rightarrow> ThreadBlock"
  process_at :: "ptr \<Rightarrow> ProcessBlock"
  hook :: hooks
  proc_hook :: hooks
  g_total_tid :: u64
  total_pid :: u16

text \<open>Writing one field of the block at an address.\<close>

definition upd_thread :: "ptr \<Rightarrow> (ThreadBlock \<Rightarrow> ThreadBlock) \<Rightarrow> 'a procs_scheme \<Rightarrow> 'a procs_scheme" where
  "upd_thread t f s = s\<lparr>thread_at := (thread_at s)(t := f (thread_at s t))\<rparr>"

definition upd_process :: "ptr \<Rightarrow> (ProcessBlock \<Rightarrow> ProcessBlock) \<Rightarrow> 'a procs_scheme \<Rightarrow> 'a procs_scheme" where
  "upd_process p f s = s\<lparr>process_at := (process_at s)(p := f (process_at s p))\<rparr>"

definition DEFAULT_SCHEDULE_TIME_MS :: u64 where "DEFAULT_SCHEDULE_TIME_MS = 6"
definition SET_RFLAGS :: u64 where "SET_RFLAGS = 0x202"
definition THREAD_KERNEL_SIZE :: u64 where "THREAD_KERNEL_SIZE = 4 * PAGE_SIZE"

definition KERNEL_CODE :: u8 where "KERNEL_CODE = 0x08"
definition KERNEL_DATA :: u8 where "KERNEL_DATA = 0x10"
definition USER_DATA :: u8 where "USER_DATA = 0x18"
definition USER_CODE :: u8 where "USER_CODE = 0x20"

section \<open>The interrupt guard around a block\<close>

definition guarded :: "('a machine_scheme \<Rightarrow> 'a machine_scheme exec) \<Rightarrow> 'a machine_scheme \<Rightarrow> 'a machine_scheme exec" where
  "guarded body s =
     (let (saved, fl) = IrqRAIGaurd_enter (rflags s) in
      ebind (body (s\<lparr>rflags := fl\<rparr>)) (\<lambda>s. ret (s\<lparr>rflags := IrqRAIGaurd_leave saved (rflags s)\<rparr>)))"

section \<open>ThreadBlock\<close>

definition reset_scheduled_time :: "ptr \<Rightarrow> 'a procs_scheme \<Rightarrow> 'a procs_scheme" where
  "reset_scheduled_time this = upd_thread this (\<lambda>t. t\<lparr>scheduled_time := DEFAULT_SCHEDULE_TIME_MS\<rparr>)"

definition update_scheduled_time :: "ptr \<Rightarrow> u64 \<Rightarrow> 'a procs_scheme \<Rightarrow> 'a procs_scheme" where
  "update_scheduled_time this ms = upd_thread this (\<lambda>t. t\<lparr>scheduled_time := ms\<rparr>)"

definition init_kernel_stack :: "limine \<Rightarrow> ptr \<Rightarrow> 'a procs_scheme \<Rightarrow> 'a procs_scheme exec" where
  "init_kernel_stack L this = guarded (\<lambda>s.
     ebind (alloc L 4 s) (\<lambda>(pa, s).
     (let s = upd_thread this (\<lambda>t. t\<lparr>kernel_pa := pa\<rparr>) s in
      if pa = 0 then
        klog_panic (''Pmm::alloc(4) failed in init_kernel_stack() -- out of physical memory'' @ [CHR 0x0A]) s
      else
        (let k_stack = pa + get_hhdm L; top = k_stack + THREAD_KERNEL_SIZE in
         ret (upd_thread this
           (\<lambda>t. t\<lparr>kernel_stack := k_stack, rsp0 := top, registers := (registers t)\<lparr>rsp := top\<rparr>\<rparr>) s)))))"

definition zero_frame :: IrqFrame where
  "zero_frame = \<lparr>r15 = 0, r14 = 0, r13 = 0, r12 = 0, r11 = 0, r10 = 0, r9 = 0, r8 = 0, rbp = 0, rsi = 0, rdi = 0,
     rdx = 0, rcx = 0, rbx = 0, rax = 0, frame_error = 0, rip = 0, cs = 0, frame_rflags = 0, rsp = 0, ss = 0\<rparr>"

text \<open>The default member initialisers; the members without one keep what the storage held.\<close>

definition init_members :: "string \<Rightarrow> ptr \<Rightarrow> ptr \<Rightarrow> ThreadBlock \<Rightarrow> ThreadBlock" where
  "init_members name entry process t =
     t\<lparr>m_name := name, registers := zero_frame, exec_start_ms := 0, total_runtime_ms := 0, sleep_time := 0,
       userspace_time_ms := 0, kernelspace_time_ms := 0, user_stack_pa := None, m_entry := entry, m_process := process\<rparr>"

definition new_tid :: "ptr \<Rightarrow> 'a procs_scheme \<Rightarrow> 'a procs_scheme" where
  "new_tid this s =
     (let s = s\<lparr>g_total_tid := g_total_tid s + 1\<rparr>
      in upd_thread this (\<lambda>t. t\<lparr>thread_id := ucast (g_total_tid s)\<rparr>) s)"

definition ThreadBlock_new ::
  "limine \<Rightarrow> ptr \<Rightarrow> string \<Rightarrow> ptr \<Rightarrow> ptr \<Rightarrow> ptr \<Rightarrow> 'a procs_scheme \<Rightarrow> 'a procs_scheme exec" where
  "ThreadBlock_new L this name process entry args s =
     (let s = upd_thread this (init_members name entry process) s;
          s = s\<lparr>hook := (hook s)(this := null), proc_hook := (proc_hook s)(this := null)\<rparr> in
      ebind (init_kernel_stack L this s) (\<lambda>s.
      (let s = upd_thread this (\<lambda>t. t\<lparr>scheduled_time := DEFAULT_SCHEDULE_TIME_MS, t_state := ThreadReady\<rparr>) s in
       if process = null then halt NullDeref
       else
         (let s =
            (if is_user (process_at s process) then
               upd_thread this (\<lambda>t. t\<lparr>registers := (registers t)\<lparr>cs := ucast (USER_CODE OR 3), ss := ucast (USER_DATA OR 3)\<rparr>\<rparr>) s
             else
               (let s = upd_thread this (\<lambda>t. t\<lparr>registers := (registers t)
                          \<lparr>cs := ucast KERNEL_CODE, ss := ucast KERNEL_DATA, rsp := rsp (registers t) - 8\<rparr>\<rparr>) s
                in s\<lparr>memory := write64 (memory s) (rsp (registers (thread_at s this))) 0\<rparr>));
              s = upd_thread this (\<lambda>t. t\<lparr>registers := (registers t)
                    \<lparr>frame_rflags := SET_RFLAGS, rip := entry, rdi := args\<rparr>\<rparr>) s
          in ret (new_tid this s)))))"

definition ThreadBlock_default :: "limine \<Rightarrow> ptr \<Rightarrow> 'a procs_scheme \<Rightarrow> 'a procs_scheme exec" where
  "ThreadBlock_default L this s =
     (let s = upd_thread this (init_members [] null null) s;
          s = s\<lparr>hook := (hook s)(this := null), proc_hook := (proc_hook s)(this := null)\<rparr> in
      ebind (init_kernel_stack L this s) (\<lambda>s.
      (let s = upd_thread this (\<lambda>t. t\<lparr>scheduled_time := DEFAULT_SCHEDULE_TIME_MS, t_state := ThreadReady,
                 registers := (registers t)\<lparr>cs := ucast KERNEL_CODE, ss := ucast KERNEL_DATA, frame_rflags := SET_RFLAGS\<rparr>\<rparr>) s
       in ret (new_tid this s))))"

definition thread_exit :: "limine \<Rightarrow> ptr \<Rightarrow> 'a procs_scheme \<Rightarrow> 'a procs_scheme exec" where
  "thread_exit L this = guarded (\<lambda>s. free L (kernel_pa (thread_at s this)) 4 s)"

section \<open>ProcessBlock\<close>

definition new_pid :: "ptr \<Rightarrow> 'a procs_scheme \<Rightarrow> 'a procs_scheme" where
  "new_pid this s =
     (let s = upd_process this (\<lambda>p. p\<lparr>p_status := ProcReady\<rparr>) s;
          s = s\<lparr>total_pid := total_pid s + 1\<rparr>
      in upd_process this (\<lambda>p. p\<lparr>pid := total_pid s\<rparr>) s)"

text \<open>The member initialisers run first; \<open>AddressSpace()\<close> makes a page directory.\<close>

definition init_process_members :: "limine \<Rightarrow> ptr \<Rightarrow> 'a procs_scheme \<Rightarrow> 'a procs_scheme exec" where
  "init_process_members L this s =
     ebind (new_pagemap L s) (\<lambda>(dir, s).
     ret (upd_process this (\<lambda>p. p\<lparr>p_threads := empty_deque, p_curr_thread := null, parent := null,
            address_space := \<lparr>page_dir = dir, vmem = empty_deque\<rparr>, thread_size := 0\<rparr>) s))"

definition ProcessBlock_new :: "limine \<Rightarrow> ptr \<Rightarrow> string \<Rightarrow> bool \<Rightarrow> 'a procs_scheme \<Rightarrow> 'a procs_scheme exec" where
  "ProcessBlock_new L this name user s =
     ebind (init_process_members L this s) (\<lambda>s.
     (let s = upd_process this (\<lambda>p. p\<lparr>is_user := user, is_dead := False, p_name := name\<rparr>) s in
      guarded (\<lambda>s.
        (let s = process_fill_kernel_entries (page_dir (address_space (process_at s this))) s in
         ebind (if user then process_fill_user_entires L (page_dir (address_space (process_at s this))) s else ret s) (\<lambda>s.
         ret (new_pid this s)))) s))"

definition ProcessBlock_default :: "limine \<Rightarrow> ptr \<Rightarrow> 'a procs_scheme \<Rightarrow> 'a procs_scheme exec" where
  "ProcessBlock_default L this s =
     ebind (init_process_members L this s) (guarded (\<lambda>s.
       ret (new_pid this (process_fill_kernel_entries (page_dir (address_space (process_at s this))) s))))"

definition add_thread :: "ptr \<Rightarrow> ptr \<Rightarrow> 'a procs_scheme \<Rightarrow> 'a procs_scheme exec" where
  "add_thread this thread = guarded (\<lambda>s.
     (let s = upd_thread thread (\<lambda>t. t\<lparr>m_process := this\<rparr>) s;
          (nx, q) = push_tail (proc_hook s) (p_threads (process_at s this)) thread;
          s = upd_process this (\<lambda>p. p\<lparr>p_threads := q\<rparr>) (s\<lparr>proc_hook := nx\<rparr>);
          s = upd_process this (\<lambda>p. p\<lparr>thread_size := thread_size p + 1\<rparr>) s
      in ret (new_tid thread s)))"

definition remove_all_threads :: "ptr \<Rightarrow> 'a procs_scheme \<Rightarrow> 'a procs_scheme exec" where
  "remove_all_threads this = guarded (\<lambda>s.
     ret (upd_process this (\<lambda>p. p\<lparr>p_threads := clear_all (p_threads p)\<rparr>) s))"

end
