(* ===== verification/Elf_Loader.thy ===== *)
theory Elf_Loader
  imports Elf_Image Threads
begin

text \<open>
  The second half of \<^verbatim>\<open>src/src/kernel/exe/elf_loader.cpp\<close>: every segment of an accepted image gets pages,
  a mapping in the process and its bytes. The properties compose the checks of \<open>Elf_Image\<close>, the
  physical allocator, the page tables and the memory routines: after a successful load the process sees the program at
  its addresses.
\<close>

section \<open>Loading\<close>

record LoadedElf =
  entry :: u64
  elf_base :: u64
  elf_end :: u64
  phdrs_addr :: u64
  phdr_count :: u16
  phdr_size :: u16

definition seg_flags :: "Elf64_Phdr \<Rightarrow> u64" where
  "seg_flags phdr =
     (let flags = PRESENT OR USER;
          flags = (if p_flags phdr AND ucast PF_W \<noteq> 0 then flags OR WRITEABLE else flags);
          flags = (if p_flags phdr AND ucast PF_X = 0 then flags OR NX else flags)
      in flags)"

text \<open>
  The body of the second loop for a loadable header at \<open>ptr\<close>; false stands for the return with \<open>NoMemory\<close>.
  The fields that the source reads after a write to memory are read from the memory of that moment.
\<close>

definition load_segment :: "limine \<Rightarrow> ptr \<Rightarrow> ptr \<Rightarrow> ptr \<Rightarrow> 'a procs_scheme \<Rightarrow> (bool \<times> 'a procs_scheme) exec" where
  "load_segment L bytes space phdr_p s =
     (let phdr = phdr_at (memory s) phdr_p;
          flags = seg_flags phdr;
          page_offset = p_vaddr phdr mod PAGE_SIZE;
          aligned_base = p_vaddr phdr - page_offset;
          aligned_size = align_up (p_memsz phdr + page_offset) PAGE_SIZE;
          pages = aligned_size div PAGE_SIZE in
      ebind (alloc L pages s) (\<lambda>(pa, s).
      if pa = 0 then ret (False, s)
      else if space = null then halt NullDeref
      else
        ebind (map_range L (pml4 (page_dir (address_space (process_at s space)))) pa aligned_base aligned_size flags s) (\<lambda>s.
        (let dst = pa + get_hhdm L;
             s = s\<lparr>memory := memset (memory s) dst 0 aligned_size\<rparr>;
             phdr = phdr_at (memory s) phdr_p
         in ret (True, s\<lparr>memory := memcpy (memory s) (dst + page_offset) (bytes + p_offset phdr) (p_filesz phdr)\<rparr>)))))"

partial_function (option) load_loop ::
  "limine \<Rightarrow> ptr \<Rightarrow> ptr \<Rightarrow> u64 \<Rightarrow> 'a procs_scheme \<Rightarrow> (bool \<times> 'a procs_scheme) exec" where
  "load_loop L bytes space i s =
     (if i < ucast (e_phnum (header_at (memory s) bytes)) then
        (if p_type (phdr_at (memory s) (phdr_ptr bytes (header_at (memory s) bytes) i)) \<noteq> ProgramType_Load
         then load_loop L bytes space (i + 1) s
         else
           ebind (load_segment L bytes space (phdr_ptr bytes (header_at (memory s) bytes) i) s) (\<lambda>r.
           if fst r then load_loop L bytes space (i + 1) (snd r) else ret r))
      else ret (True, s))"

definition elf_load ::
  "limine \<Rightarrow> ptr \<Rightarrow> u64 \<Rightarrow> ptr \<Rightarrow> 'a procs_scheme \<Rightarrow> ((ElfLoadError + LoadedElf) \<times> 'a procs_scheme) exec" where
  "elf_load L bytes sz space s =
     (case elf_scan (memory s) bytes sz of
        Inl e \<Rightarrow> ret (Inl e, s)
      | Inr v \<Rightarrow>
          ebind (load_loop L bytes space 0 s) (\<lambda>(done, s).
          if \<not> done then ret (Inl NoMemory, s)
          else
            (let ehdr = header_at (memory s) bytes
             in ret (Inr \<lparr>entry = e_entry ehdr, elf_base = image_base v, elf_end = image_end v, phdrs_addr = 0,
                     phdr_count = e_phnum ehdr, phdr_size = e_phentsize ehdr\<rparr>, s))))"

section \<open>One segment\<close>

text \<open>A segment in user space, as numbers.\<close>

abbreviation seg_off :: "Elf64_Phdr \<Rightarrow> u64" where "seg_off p \<equiv> p_vaddr p mod PAGE_SIZE"
abbreviation seg_base :: "Elf64_Phdr \<Rightarrow> u64" where "seg_base p \<equiv> p_vaddr p - seg_off p"
abbreviation seg_size :: "Elf64_Phdr \<Rightarrow> u64" where "seg_size p \<equiv> align_up (p_memsz p + seg_off p) PAGE_SIZE"
abbreviation seg_pages :: "Elf64_Phdr \<Rightarrow> u64" where "seg_pages p \<equiv> seg_size p div PAGE_SIZE"

definition in_user_space :: "Elf64_Phdr \<Rightarrow> bool" where
  "in_user_space p \<longleftrightarrow> p_memsz p \<noteq> 0 \<and> unat (p_vaddr p) + unat (p_memsz p) \<le> 2 ^ 47"

definition page_count :: "Elf64_Phdr \<Rightarrow> nat" where
  "page_count p = (unat (p_vaddr p) mod 4096 + unat (p_memsz p) + 4095) div 4096"

lemma seg_numbers:
  assumes "in_user_space p"
  shows "unat (seg_off p) = unat (p_vaddr p) mod 4096" "unat (seg_base p) = 4096 * (unat (p_vaddr p) div 4096)"
    "unat (seg_size p) = 4096 * page_count p" "unat (seg_pages p) = page_count p"
    "unat (seg_start p) = unat (seg_base p)" "unat (seg_end p) = unat (seg_base p) + 4096 * page_count p"
    "0 < page_count p" "unat (seg_base p) + 4096 * page_count p < 2 ^ 47 + 4096"
    "unat (seg_off p) + unat (p_memsz p) \<le> 4096 * page_count p"
proof -
  let ?v = "unat (p_vaddr p)" and ?m = "unat (p_memsz p)"
  have b: "?v + ?m \<le> 2 ^ 47" "0 < ?m" using assms by (auto simp: in_user_space_def unat_gt_0)
  have m: "?v mod 4096 < 4096" "?v mod 4096 \<le> ?v" by simp_all
  show off: "unat (seg_off p) = ?v mod 4096" by (simp add: unat_mod)
  then have "seg_off p \<le> p_vaddr p" by (simp add: word_le_nat_alt)
  then have "unat (seg_base p) = ?v - ?v mod 4096" using unat_sub_le [of "seg_off p" "p_vaddr p"] off by (simp only:)
  then show base: "unat (seg_base p) = 4096 * (?v div 4096)" by (simp only: minus_mod_eq_mult_div)
  have "unat (p_memsz p + seg_off p) = ?m + ?v mod 4096"
    using off b m by (subst unat_add_nowrap) simp_all
  then show size: "unat (seg_size p) = 4096 * page_count p"
    using b m by (subst unat_align_up_page) (simp_all add: page_count_def add.commute add.left_commute)
  then show "unat (seg_pages p) = page_count p" by (simp add: unat_div)
  show "unat (seg_start p) = unat (seg_base p)" unfolding base unat_align_down_page by simp
  have "unat (p_vaddr p + p_memsz p) = ?v + ?m" using b by (intro unat_add_nowrap) simp
  then have e: "unat (seg_end p) = (?v + ?m + 4095) div 4096 * 4096"
    using b by (subst unat_align_up_page) simp_all
  have "?v + ?m + 4095 = (?v mod 4096 + ?m + 4095) + ?v div 4096 * 4096" by simp
  then have "(?v + ?m + 4095) div 4096 = page_count p + ?v div 4096"
    unfolding page_count_def by (metis div_mult_self1 add.commute zero_neq_numeral)
  then show "unat (seg_end p) = unat (seg_base p) + 4096 * page_count p" unfolding e base by simp
  show "0 < page_count p" using b by (simp add: page_count_def div_greater_zero_iff)
  have pc: "4096 * page_count p \<le> ?v mod 4096 + ?m + 4095" "?v mod 4096 + ?m \<le> 4096 * page_count p"
    unfolding page_count_def by linarith+
  moreover have "4096 * (?v div 4096) + ?v mod 4096 = ?v" by simp
  ultimately show "unat (seg_base p) + 4096 * page_count p < 2 ^ 47 + 4096"
    unfolding base using b by linarith
  show "unat (seg_off p) + ?m \<le> 4096 * page_count p" unfolding off by (rule pc(2))
qed

lemma seg_flags_bits: "seg_flags p AND PADDR_MASK = 0" "present (seg_flags p)"
  by (simp_all add: seg_flags_def Let_def PRESENT_def USER_def WRITEABLE_def NX_def PADDR_MASK_def present_bit
      bit_or_iff)

lemma rest_process: "pmm_rest s s' \<Longrightarrow> process_at s' = process_at (s :: 'a procs_scheme)"
  by (cases s; cases s') (simp add: pmm_rest_def)

text \<open>Writing to memory that is neither free nor part of a table.\<close>

lemma vm_store:
  assumes "vm_inv L s F lv" and "same_on {x. x - get_hhdm L \<in> F \<union> table_bytes lv} (memory s) m"
  shows "vm_inv L (s\<lparr>memory := m\<rparr>) F lv"
    and "lv r = Some 4 \<Longrightarrow> translation m (get_hhdm L) r v = translation (memory s) (get_hhdm L) r v"
proof -
  let ?h = "get_hhdm L"
  have inv: "hhdm_ok L" "pmm_has_free L s F" "tables_ok ?h (memory s) F lv" using assms(1) by (simp_all add: vm_inv_def)
  have "span (t + ?h) 4096 \<subseteq> {x. x - ?h \<in> F \<union> table_bytes lv}" if "lv t \<noteq> None" for t
    using that by (auto simp: page_span table_bytes_def)
  from same_entriesI [OF assms(2) this] have se: "same_entries ?h (memory s) m lv" .
  have "- beyond ?h F \<subseteq> {x. x - ?h \<in> F \<union> table_bytes lv}" by (auto simp: beyond_def)
  from store_law [OF inv(2) same_on_mono [OF assms(2) this]] have "pmm_has_free L (s\<lparr>memory := m\<rparr>) F" .
  then show "vm_inv L (s\<lparr>memory := m\<rparr>) F lv"
    using same_entries_tables_ok [OF se inv(3)] inv(1) by (simp add: vm_inv_def)
  show "lv r = Some 4 \<Longrightarrow> translation m ?h r v = translation (memory s) ?h r v"
    using same_entries_look [OF se inv(3), of r "table_path v" "pt_entry v"] by (simp add: translation_def)
qed

lemma vm_take_block:
  assumes "vm_inv L s F lv" and "0 < count" and "alloc L count s = ret (pa, s')" and "pa \<noteq> 0"
  shows "region_ok (get_hhdm L) (pa, count)" "region_bytes (pa, count) \<subseteq> F"
    "vm_grow L s F lv s' (F - region_bytes (pa, count)) lv"
    "\<And>r v. lv r = Some 4 \<Longrightarrow> translation (memory s') (get_hhdm L) r v = translation (memory s) (get_hhdm L) r v"
proof -
  let ?h = "get_hhdm L"
  have inv: "hhdm_ok L" "pmm_has_free L s F" "tables_ok ?h (memory s) F lv" using assms(1) by (simp_all add: vm_inv_def)
  have a: "region_ok ?h (pa, count)" "region_bytes (pa, count) \<subseteq> F"
    "pmm_has_free L s' (F - region_bytes (pa, count))" "same_on (beyond ?h F) (memory s) (memory s')"
    using alloc_law [OF inv(2) assms(2)] assms(3,4) by auto
  then show "region_ok ?h (pa, count)" "region_bytes (pa, count) \<subseteq> F" by simp_all
  have "span (t + ?h) 4096 \<subseteq> beyond ?h F" if "lv t \<noteq> None" for t
    using page_beyond [of t F ?h] tables_ok_page [OF inv(3)] that by auto
  from same_entriesI [OF a(4) this] have se: "same_entries ?h (memory s) (memory s') lv" .
  have "tables_ok ?h (memory s') (F - region_bytes (pa, count)) lv"
    by (rule same_entries_tables_ok [OF se inv(3)]) blast
  moreover have "same_on (beyond ?h (F \<union> table_bytes lv)) (memory s) (memory s')"
    by (rule same_on_mono [OF a(4)]) (auto simp: beyond_def)
  ultimately show "vm_grow L s F lv s' (F - region_bytes (pa, count)) lv"
    using a(3) inv(1) alloc_keeps_rest [OF inv(2) assms(2,3)] by (auto simp: vm_grow_def vm_inv_def)
  show "translation (memory s') ?h r v = translation (memory s) ?h r v" if "lv r = Some 4" for r v
    using same_entries_look [OF se inv(3), of r "table_path v" "pt_entry v"] that by (simp add: translation_def)
qed

text \<open>A segment is in place: its pages are mapped to the block at \<open>pa\<close>, which holds its file bytes and zeros.\<close>

definition seg_in_place :: "u64 \<Rightarrow> mem \<Rightarrow> u64 \<Rightarrow> mem \<Rightarrow> ptr \<Rightarrow> Elf64_Phdr \<Rightarrow> u64 \<Rightarrow> bool" where
  "seg_in_place h m r img bytes p pa \<longleftrightarrow> region_ok h (pa, seg_pages p)
     \<and> (\<forall>j < page_count p. translation m h r (nth_page (seg_base p) j) = Some (nth_page pa j OR seg_flags p))
     \<and> (\<forall>y. unat y < 4096 * page_count p \<longrightarrow>
          m (pa + h + y) = (if seg_off p \<le> y \<and> y - seg_off p < p_filesz p
                            then img (bytes + p_offset p + (y - seg_off p)) else 0))"

text \<open>The two memory routines together fill the block.\<close>

lemma fill_block:
  fixes m :: mem
  assumes "in_user_space p" and "seg_valid sz p" and "region_ok h (pa, seg_pages p)"
    and "span bytes (unat sz) \<inter> span (pa + h) (4096 * page_count p) = {}"
  defines "m' \<equiv> memcpy (memset m (pa + h) 0 (seg_size p)) (pa + h + seg_off p) (bytes + p_offset p) (p_filesz p)"
  shows "\<forall>y. unat y < 4096 * page_count p \<longrightarrow>
      m' (pa + h + y) = (if seg_off p \<le> y \<and> y - seg_off p < p_filesz p
                         then m (bytes + p_offset p + (y - seg_off p)) else 0)"
    and "same_on (- span (pa + h) (4096 * page_count p)) m m'"
proof -
  let ?dst = "pa + h" and ?n = "4096 * page_count p"
  note nums = seg_numbers [OF assms(1)]
  have le: "unat (seg_off p) + unat (p_filesz p) \<le> ?n"
    using nums(9) assms(2) by (auto simp: seg_valid_def word_le_nat_alt)
  have n: "?n \<le> 2 ^ 64" using nums(8) by simp
  have d: "span (?dst + seg_off p) (unat (p_filesz p)) \<subseteq> span ?dst ?n" using span_sub [OF le n] .
  have src: "span (bytes + p_offset p) (unat (p_filesz p)) \<subseteq> span bytes (unat sz)" by (rule file_bytes_in_image [OF assms(2)])
  define m1 where "m1 = memset m ?dst 0 (seg_size p)"
  have m1: "m1 = (\<lambda>x. if x \<in> span ?dst ?n then 0 else m x)" by (auto simp: m1_def memset_eq nums(3))
  have m': "m' = (\<lambda>x. if x \<in> span (?dst + seg_off p) (unat (p_filesz p)) then m1 (bytes + p_offset p + (x - (?dst + seg_off p))) else m1 x)"
    unfolding m'_def m1_def [symmetric] using d src assms(4) by (intro memcpy_eq) blast
  show "same_on (- span ?dst ?n) m m'" using d by (auto simp: same_on_def m' m1)
  show "\<forall>y. unat y < ?n \<longrightarrow> m' (?dst + y) = (if seg_off p \<le> y \<and> y - seg_off p < p_filesz p
      then m (bytes + p_offset p + (y - seg_off p)) else 0)"
  proof (intro allI impI)
    fix y :: u64 assume y: "unat y < ?n"
    have off: "?dst + y - (?dst + seg_off p) = y - seg_off p" by simp
    have "?dst + y \<in> span (?dst + seg_off p) (unat (p_filesz p)) \<longleftrightarrow> y - seg_off p < p_filesz p"
      by (simp add: span_def word_less_nat_alt)
    moreover have "seg_off p \<le> y" if "y - seg_off p < p_filesz p"
    proof (rule ccontr)
      assume "\<not> seg_off p \<le> y"
      then have "unat (y - seg_off p) = 2 ^ 64 + unat y - unat (seg_off p)" by (simp add: unat_sub_if' word_le_nat_alt)
      moreover have "unat (seg_off p) + unat (p_filesz p) < 2 ^ 64" using le nums(8) by simp
      ultimately show False using that by (simp add: word_less_nat_alt)
    qed
    moreover have "m1 (?dst + y) = 0" using y by (simp add: m1 span_add_mem)
    moreover have "m1 (bytes + p_offset p + k) = m (bytes + p_offset p + k)" if "k < p_filesz p" for k
    proof -
      have "bytes + p_offset p + k \<in> span (bytes + p_offset p) (unat (p_filesz p))"
        using that by (intro span_add_mem) (simp add: word_less_nat_alt)
      then show ?thesis using src assms(4) by (auto simp: m1)
    qed
    ultimately show "m' (?dst + y) = (if seg_off p \<le> y \<and> y - seg_off p < p_filesz p
        then m (bytes + p_offset p + (y - seg_off p)) else 0)"
      by (auto simp: m' off)
  qed
qed

lemma seg_pages_pos: "in_user_space p \<Longrightarrow> 0 < seg_pages p"
  using seg_numbers(4,7) [of p] by (simp add: word_less_nat_alt)

lemma seg_block: "in_user_space p \<Longrightarrow> region_bytes (pa, seg_pages p) = span pa (4096 * page_count p)"
  using seg_numbers(4) [of p] by (simp add: region_bytes_def)

text \<open>Mapping the block of a segment.\<close>

lemma map_segment:
  assumes inv: "vm_inv L s F lv" and r: "lv r = Some 4" and p: "in_user_space p"
    and pa: "region_ok (get_hhdm L) (pa, seg_pages p)" and room: "12288 * page_count p \<le> card F"
  shows "\<exists>s' F' lv'. map_range L (r + get_hhdm L) pa (seg_base p) (seg_size p) (seg_flags p) s = ret s'
    \<and> vm_grow L s F lv s' F' lv' \<and> card F \<le> card F' + 12288 * page_count p
    \<and> (\<forall>j < page_count p. translation (memory s') (get_hhdm L) r (nth_page (seg_base p) j) = Some (nth_page pa j OR seg_flags p))
    \<and> (\<forall>v. (\<forall>j < page_count p. vpn v \<noteq> vpn (nth_page (seg_base p) j))
          \<longrightarrow> translation (memory s') (get_hhdm L) r v = translation (memory s) (get_hhdm L) r v)"
proof -
  note nums = seg_numbers [OF p]
  have "unat (seg_size p) < 2 ^ 64 - 4096" using nums(3,8) by simp
  from pages_left_start [OF this] have left: "pages_left (seg_size p) 0 (page_count p)" unfolding nums(3) by simp
  have "page_count p \<le> 2 ^ 36" using nums(8) by simp
  from map_loop_grows [OF inv r room left this, of pa "seg_base p" "seg_flags p"]
  obtain s' F' lv' where s': "map_range L (r + get_hhdm L) pa (seg_base p) (seg_size p) (seg_flags p) s = ret s'"
    "vm_grow L s F lv s' F' lv'" "card F \<le> card F' + 12288 * page_count p"
    "\<forall>j < page_count p. translation (memory s') (get_hhdm L) r (nth_page (seg_base p) j)
       = leaf_value (align_down (nth_page pa j) PAGE_SIZE OR seg_flags p)"
    "\<forall>v. (\<forall>j < page_count p. vpn v \<noteq> vpn (nth_page (seg_base p) j))
       \<longrightarrow> translation (memory s') (get_hhdm L) r v = translation (memory s) (get_hhdm L) r v"
    by (auto simp: map_range_def)
  have "align_down (nth_page pa j) PAGE_SIZE = nth_page pa j" if "j < page_count p" for j
  proof -
    have "unat pa + 4096 * page_count p \<le> 2 ^ 64" "4096 dvd unat pa" using pa nums(4) by (auto simp: region_ok_def)
    moreover have "unat (of_nat (4096 * j) :: u64) = 4096 * j"
      using that nums(8) by (intro unat_of_nat_small) simp
    ultimately have "unat (nth_page pa j) = unat pa + 4096 * j"
      using that by (subst unat_add_nowrap) simp_all
    then have "4096 dvd unat (nth_page pa j)" using \<open>4096 dvd unat pa\<close> by simp
    then show ?thesis using page_aligned_and by (simp add: align_down_def page_mask)
  qed
  then show ?thesis using s' seg_flags_bits(2) by (fastforce simp: leaf_value_def)
qed

text \<open>The addresses on no page of a segment.\<close>

definition off_segment :: "Elf64_Phdr \<Rightarrow> u64 \<Rightarrow> bool" where
  "off_segment p v \<longleftrightarrow> (\<forall>j < page_count p. vpn v \<noteq> vpn (nth_page (seg_base p) j))"

text \<open>
  The whole step. Either there is no block for the segment, or it is in place, in memory taken from
  the free pages, the rest of memory and of the directory is as before, and the tables are well formed.
\<close>

definition seg_step :: "limine \<Rightarrow> u64 \<Rightarrow> mem \<Rightarrow> ptr \<Rightarrow> Elf64_Phdr \<Rightarrow> u64 \<Rightarrow> 'a pmm_scheme \<Rightarrow> u64 set \<Rightarrow> (u64 \<Rightarrow> nat option)
    \<Rightarrow> 'a pmm_scheme \<Rightarrow> u64 set \<Rightarrow> (u64 \<Rightarrow> nat option) \<Rightarrow> bool" where
  "seg_step L r img bytes p pa s F lv s' F' lv' \<longleftrightarrow> vm_grow L s F lv s' F' lv'
     \<and> seg_in_place (get_hhdm L) (memory s') r img bytes p pa
     \<and> region_bytes (pa, seg_pages p) \<subseteq> F \<and> region_bytes (pa, seg_pages p) \<inter> (F' \<union> table_bytes lv') = {}
     \<and> card F \<le> card F' + 16384 * page_count p
     \<and> (\<forall>v. off_segment p v \<longrightarrow> translation (memory s') (get_hhdm L) r v = translation (memory s) (get_hhdm L) r v)"

lemma free_not_table: "vm_inv L s F lv \<Longrightarrow> F \<inter> table_bytes lv = {}"
  by (fastforce simp: vm_inv_def table_bytes_def dest: tables_ok_page)

lemma finite_u64 [simp]: "finite (A :: u64 set)"
  by (rule finite_subset [OF subset_UNIV]) simp

lemma load_segment_step:
  fixes s :: "'a procs_scheme"
  assumes inv: "vm_inv L s F lv" and r: "lv r = Some 4" and p: "in_user_space p" "seg_valid sz p"
    and at: "phdr_at (memory s) pp = p" "span pp 56 \<subseteq> span bytes (unat sz)"
    and room: "16384 * page_count p \<le> card F"
    and space: "space \<noteq> null" "page_dir (address_space (process_at s space)) = directory L r"
    and img: "span bytes (unat sz) \<subseteq> beyond (get_hhdm L) (F \<union> table_bytes lv)"
  shows "(\<exists>s'. load_segment L bytes space pp s = ret (False, s') \<and> alloc L (seg_pages p) s = ret (0, s'))
    \<or> (\<exists>s' F' lv' pa. load_segment L bytes space pp s = ret (True, s')
         \<and> seg_step L r (memory s) bytes p pa s F lv s' F' lv')"
proof -
  let ?h = "get_hhdm L" and ?n = "4096 * page_count p"
  have pos: "0 < seg_pages p" using seg_pages_pos [OF p(1)] .
  have free: "pmm_has_free L s F" using inv by (simp add: vm_inv_def)
  obtain pa s1 where s1: "alloc L (seg_pages p) s = ret (pa, s1)"
    using alloc_law [OF free pos] by blast
  show ?thesis
  proof (cases "pa = 0")
    case True
    then have "load_segment L bytes space pp s = ret (False, s1)"
      using s1 at(1) by (simp add: load_segment_def Let_def)
    then show ?thesis using s1 True by blast
  next
    case False
    note take = vm_take_block [OF inv pos s1 False, unfolded seg_block [OF p(1)]]
    have card: "card F = card (F - span pa ?n) + ?n"
      using card_Diff_subset [OF finite_u64 take(2)] card_mono [OF finite_u64 take(2)] seg_numbers(8) [OF p(1)]
      by (simp add: card_span)
    then have "12288 * page_count p \<le> card (F - span pa ?n)" using room by simp
    from map_segment [OF vm_growD(1) [OF take(3)] r p(1) take(1) this]
    obtain s2 F' lv' where s2: "map_range L (r + ?h) pa (seg_base p) (seg_size p) (seg_flags p) s1 = ret s2"
      "vm_grow L s1 (F - span pa ?n) lv s2 F' lv'" "card (F - span pa ?n) \<le> card F' + 12288 * page_count p"
      "\<forall>j < page_count p. translation (memory s2) ?h r (nth_page (seg_base p) j) = Some (nth_page pa j OR seg_flags p)"
      "\<forall>v. (\<forall>j < page_count p. vpn v \<noteq> vpn (nth_page (seg_base p) j))
         \<longrightarrow> translation (memory s2) ?h r v = translation (memory s1) ?h r v"
      by blast
    note grow = vm_grow_trans [OF take(3) s2(2)]
    have apart: "span pa ?n \<inter> (F' \<union> table_bytes lv') = {}"
      using vm_growD(4) [OF s2(2)] free_not_table [OF inv] take(2) by blast
    have img': "span bytes (unat sz) \<inter> span (pa + ?h) ?n = {}"
      using img take(2) by (fastforce simp: beyond_def span_shift_minus)
    define m1 where "m1 = memset (memory s2) (pa + ?h) 0 (seg_size p)"
    define m' where "m' = memcpy m1 (pa + ?h + seg_off p) (bytes + p_offset p) (p_filesz p)"
    note fill = fill_block [OF p take(1) img', of "memory s2", folded m1_def, folded m'_def]
    have keep: "same_on (span bytes (unat sz)) (memory s) (memory s2)"
      using same_on_mono [OF vm_growD(6) [OF grow] img] .
    have "same_on (span bytes (unat sz)) (memory s2) m1"
      using img' seg_numbers(3) [OF p(1)] by (auto simp: same_on_def m1_def memset_eq)
    then have "same_on (span bytes (unat sz)) (memory s) m1" using same_on_trans [OF keep] by blast
    from phdr_at_same [OF this at(2)] have again: "phdr_at m1 pp = p" using at(1) by simp
    have "process_at s1 = process_at s" using rest_process [OF vm_growD(5) [OF take(3)]] .
    then have run: "load_segment L bytes space pp s = ret (True, s2\<lparr>memory := m'\<rparr>)"
      using s1 at(1) False space s2(1) again by (simp add: load_segment_def Let_def m1_def [symmetric] m'_def)
    have "same_on {x. x - ?h \<in> F' \<union> table_bytes lv'} (memory s2) m'"
      by (rule same_on_mono [OF fill(2)]) (use apart in \<open>auto simp: span_shift_minus\<close>)
    note st = vm_store [OF vm_growD(1) [OF s2(2)] this]
    have "same_on (beyond ?h (F \<union> table_bytes lv)) (memory s2) m'"
      by (rule same_on_mono [OF fill(2)]) (use take(2) in \<open>auto simp: beyond_def span_shift_minus\<close>)
    then have g: "vm_grow L s F lv (s2\<lparr>memory := m'\<rparr>) F' lv'"
      using vm_growD [OF grow] st(1) same_on_trans by (auto simp: vm_grow_def)
    have tr: "translation m' ?h r v = translation (memory s2) ?h r v" for v
      using st(2) [OF vm_grow_level [OF s2(2) r]] .
    have "\<forall>k. k < p_filesz p \<longrightarrow> memory s2 (bytes + p_offset p + k) = memory s (bytes + p_offset p + k)"
    proof (intro allI impI)
      fix k assume "k < p_filesz p"
      then have "bytes + p_offset p + k \<in> span (bytes + p_offset p) (unat (p_filesz p))"
        by (intro span_add_mem) (simp add: word_less_nat_alt)
      then show "memory s2 (bytes + p_offset p + k) = memory s (bytes + p_offset p + k)"
        using file_bytes_in_image [OF p(2), of bytes] same_on_byte [OF keep] by blast
    qed
    then have "seg_in_place ?h m' r (memory s) bytes p pa"
      unfolding seg_in_place_def using take(1) s2(4) fill(1) by (simp add: tr)
    then have "seg_step L r (memory s) bytes p pa s F lv (s2\<lparr>memory := m'\<rparr>) F' lv'"
      unfolding seg_step_def seg_block [OF p(1)] using g take(2) apart card s2(3,5) take(4) [OF r] by (simp add: tr off_segment_def)
    then show ?thesis using run by blast
  qed
qed

section \<open>All segments\<close>

lemma segs_apart:
  assumes "in_user_space p" and "in_user_space q" and "seg_end p \<le> seg_start q \<or> seg_end q \<le> seg_start p"
    and "j < page_count p" and "k < page_count q"
  shows "vpn (nth_page (seg_base p) j) \<noteq> vpn (nth_page (seg_base q) k)"
proof -
  note P = seg_numbers [OF assms(1)] and Q = seg_numbers [OF assms(2)]
  let ?p = "unat (p_vaddr p) div 4096" and ?q = "unat (p_vaddr q) div 4096"
  have "?p + j < 2 ^ 36" "?q + k < 2 ^ 36" using P(2,8) Q(2,8) assms(4,5) by simp_all
  moreover have "unat (vpn (nth_page (seg_base p) j)) = (?p + j) mod 2 ^ 36"
    "unat (vpn (nth_page (seg_base q) k)) = (?q + k) mod 2 ^ 36"
    unfolding unat_vpn_plus P(2) Q(2) by simp_all
  moreover have "?p + page_count p \<le> ?q \<or> ?q + page_count q \<le> ?p"
    using assms(3) unfolding word_le_nat_alt P(6,5) Q(6,5) P(2) Q(2) by linarith
  ultimately have "unat (vpn (nth_page (seg_base p) j)) \<noteq> unat (vpn (nth_page (seg_base q) k))"
    using assms(4,5) by auto
  then show ?thesis by metis
qed

definition in_place_apart :: "limine \<Rightarrow> mem \<Rightarrow> u64 \<Rightarrow> mem \<Rightarrow> ptr \<Rightarrow> u64 set \<Rightarrow> (u64 \<Rightarrow> nat option) \<Rightarrow> Elf64_Phdr \<Rightarrow> bool" where
  "in_place_apart L m r img bytes F lv p \<longleftrightarrow> (\<exists>pa. seg_in_place (get_hhdm L) m r img bytes p pa
     \<and> region_bytes (pa, seg_pages p) \<inter> (F \<union> table_bytes lv) = {})"

text \<open>Loading a segment leaves the segments already in place where they are.\<close>

lemma seg_step_keeps:
  assumes "in_place_apart L (memory s) r img bytes F lv p" and "seg_step L r img' bytes q qa s F lv s' F' lv'"
    and "in_user_space p" and "in_user_space q" and "seg_end p \<le> seg_start q"
  shows "in_place_apart L (memory s') r img bytes F' lv' p"
proof -
  obtain pa where pa: "seg_in_place (get_hhdm L) (memory s) r img bytes p pa"
    "region_bytes (pa, seg_pages p) \<inter> (F \<union> table_bytes lv) = {}"
    using assms(1) by (auto simp: in_place_apart_def)
  have st: "vm_grow L s F lv s' F' lv'"
    "\<forall>v. off_segment q v \<longrightarrow> translation (memory s') (get_hhdm L) r v = translation (memory s) (get_hhdm L) r v"
    using assms(2) by (simp_all add: seg_step_def)
  have "memory s' (pa + get_hhdm L + y) = memory s (pa + get_hhdm L + y)" if "unat y < 4096 * page_count p" for y
  proof -
    have "pa + y \<in> region_bytes (pa, seg_pages p)" using that by (simp add: seg_block [OF assms(3)] span_add_mem)
    then have "pa + y \<notin> F \<union> table_bytes lv" using pa(2) by blast
    then have "pa + get_hhdm L + y \<in> beyond (get_hhdm L) (F \<union> table_bytes lv)" by (simp add: beyond_def)
    then show ?thesis using vm_growD(6) [OF st(1)] by (simp add: same_on_def)
  qed
  moreover have "translation (memory s') (get_hhdm L) r (nth_page (seg_base p) j)
      = translation (memory s) (get_hhdm L) r (nth_page (seg_base p) j)" if "j < page_count p" for j
    using st(2) segs_apart [OF assms(3,4) _ that] assms(5) unfolding off_segment_def by blast
  ultimately have "seg_in_place (get_hhdm L) (memory s') r img bytes p pa"
    using pa(1) by (simp add: seg_in_place_def)
  moreover have "region_bytes (pa, seg_pages p) \<inter> (F' \<union> table_bytes lv') = {}"
    using pa(2) vm_growD(4) [OF st(1)] by blast
  ultimately show ?thesis by (auto simp: in_place_apart_def)
qed

text \<open>
  What holds before the iteration \<open>i\<close>: the image is as it was, the segments of the first \<open>i\<close> headers are in
  place, and there is room for the others.
\<close>

definition load_inv :: "u64 set \<Rightarrow> limine \<Rightarrow> u64 \<Rightarrow> mem \<Rightarrow> ptr \<Rightarrow> u64 \<Rightarrow> ptr \<Rightarrow> nat \<Rightarrow> 'a procs_scheme \<Rightarrow> u64 set \<Rightarrow> (u64 \<Rightarrow> nat option) \<Rightarrow> bool" where
  "load_inv A L r img bytes sz space i s F lv \<longleftrightarrow> vm_inv L s F lv \<and> lv r = Some 4
     \<and> page_dir (address_space (process_at s space)) = directory L r
     \<and> span bytes (unat sz) \<subseteq> A \<and> same_on A img (memory s) \<and> A \<subseteq> beyond (get_hhdm L) (F \<union> table_bytes lv)
     \<and> (\<forall>p \<in> set (loads (take i (phdrs_at img bytes))). in_place_apart L (memory s) r img bytes F lv p)
     \<and> 16384 * sum_list (map page_count (loads (drop i (phdrs_at img bytes)))) \<le> card F
     \<and> (\<forall>v. (\<forall>p \<in> set (loads (take i (phdrs_at img bytes))). off_segment p v)
          \<longrightarrow> translation (memory s) (get_hhdm L) r v = translation img (get_hhdm L) r v)"

lemma load_invD:
  assumes "load_inv A L r img bytes sz space i s F lv"
  shows "vm_inv L s F lv" "lv r = Some 4" "page_dir (address_space (process_at s space)) = directory L r"
    "same_on A img (memory s)" "A \<subseteq> beyond (get_hhdm L) (F \<union> table_bytes lv)"
    "\<forall>p \<in> set (loads (take i (phdrs_at img bytes))). in_place_apart L (memory s) r img bytes F lv p"
    "16384 * sum_list (map page_count (loads (drop i (phdrs_at img bytes)))) \<le> card F"
    "\<forall>v. (\<forall>p \<in> set (loads (take i (phdrs_at img bytes))). off_segment p v)
       \<longrightarrow> translation (memory s) (get_hhdm L) r v = translation img (get_hhdm L) r v"
    "span bytes (unat sz) \<subseteq> A"
  using assms by (simp_all add: load_inv_def)

text \<open>The images the loader can place: accepted, with every segment in user space and not empty.\<close>

definition loadable :: "mem \<Rightarrow> ptr \<Rightarrow> u64 \<Rightarrow> bool" where
  "loadable img bytes sz \<longleftrightarrow> (\<exists>v. elf_scan img bytes sz = Inr v)
     \<and> (\<forall>p \<in> set (loads (phdrs_at img bytes)). in_user_space p)"

lemma loadable_segs:
  assumes "loadable img bytes sz"
  shows "\<forall>p \<in> set (loads (phdrs_at img bytes)). in_user_space p \<and> seg_valid sz p"
    and "sorted_wrt (\<lambda>p q. seg_end p \<le> seg_start q) (loads (phdrs_at img bytes))"
    and "table_fits sz (header_at img bytes)" and "64 \<le> unat sz"
proof -
  obtain v where v: "elf_scan img bytes sz = Inr v" using assms by (auto simp: loadable_def)
  note acc = elf_scan_accepts [OF v]
  show u: "\<forall>p \<in> set (loads (phdrs_at img bytes)). in_user_space p \<and> seg_valid sz p"
    using assms scan_phdrs_valid [OF acc(5)] by (simp add: loadable_def)
  have "seg_start p \<le> seg_end p" if "in_user_space p" for p
    using seg_numbers(5,6) [OF that] by (simp add: word_le_nat_alt)
  then show "sorted_wrt (\<lambda>p q. seg_end p \<le> seg_start q) (loads (phdrs_at img bytes))"
    using scan_phdrs_ordered [OF acc(5)] u by blast
  show "table_fits sz (header_at img bytes)" "64 \<le> unat sz" by (rule acc(4), rule acc(1))
qed

lemma take_Suc_loads:
  assumes "i < length ps"
  shows "loads (take (Suc i) ps) = loads (take i ps) @ loads [ps ! i]" "loads (drop i ps) = loads [ps ! i] @ loads (drop (Suc i) ps)"
    "loads ps = loads (take i ps) @ loads [ps ! i] @ loads (drop (Suc i) ps)"
proof -
  show "loads (take (Suc i) ps) = loads (take i ps) @ loads [ps ! i]"
    using assms by (simp add: take_Suc_conv_app_nth)
  have "drop i ps = [ps ! i] @ drop (Suc i) ps" using assms by (simp add: Cons_nth_drop_Suc)
  then show d: "loads (drop i ps) = loads [ps ! i] @ loads (drop (Suc i) ps)" by (metis filter_append)
  have "ps = take i ps @ drop i ps" by simp
  then show "loads ps = loads (take i ps) @ loads [ps ! i] @ loads (drop (Suc i) ps)" using d by (metis filter_append)
qed

lemma load_inv_skip:
  assumes "load_inv A L r img bytes sz space i s F lv" and "i < length (phdrs_at img bytes)"
    and "p_type (phdrs_at img bytes ! i) \<noteq> ProgramType_Load"
  shows "load_inv A L r img bytes sz space (Suc i) s F lv"
  using assms take_Suc_loads(1,2) [OF assms(2)] by (simp add: load_inv_def)

lemma load_inv_step:
  assumes "loadable img bytes sz" and "load_inv A L r img bytes sz space i s F lv" and "i < length (phdrs_at img bytes)"
    and p: "p = phdrs_at img bytes ! i" "p_type p = ProgramType_Load"
    and "seg_step L r (memory s) bytes p pa s F lv s' F' lv'"
  shows "load_inv A L r img bytes sz space (Suc i) s' F' lv'"
proof -
  let ?ps = "phdrs_at img bytes"
  note I = load_invD [OF assms(2)]
  note split = take_Suc_loads [OF assms(3), folded p(1)]
  have S: "vm_grow L s F lv s' F' lv'" "seg_in_place (get_hhdm L) (memory s') r (memory s) bytes p pa"
    "region_bytes (pa, seg_pages p) \<inter> (F' \<union> table_bytes lv') = {}" "card F \<le> card F' + 16384 * page_count p"
    using assms(6) by (simp_all add: seg_step_def)
  have all: "\<forall>q \<in> set (loads ?ps). in_user_space q \<and> seg_valid sz q" and "p \<in> set (loads ?ps)"
    using loadable_segs(1) [OF assms(1)] p assms(3) by auto
  then have pu: "in_user_space p" "seg_valid sz p" by auto
  have img: "same_on A (memory s) (memory s')"
    using same_on_mono [OF vm_growD(6) [OF S(1)] I(5)] .
  have "memory s (bytes + p_offset p + k) = img (bytes + p_offset p + k)" if "k < p_filesz p" for k
  proof -
    have "bytes + p_offset p + k \<in> span (bytes + p_offset p) (unat (p_filesz p))"
      using that by (intro span_add_mem) (simp add: word_less_nat_alt)
    then show ?thesis using file_bytes_in_image [OF pu(2), of bytes] I(9) same_on_byte [OF I(4)] by blast
  qed
  then have "seg_in_place (get_hhdm L) (memory s') r img bytes p pa" using S(2) by (simp add: seg_in_place_def)
  then have new: "in_place_apart L (memory s') r img bytes F' lv' p" using S(3) by (auto simp: in_place_apart_def)
  have old: "in_place_apart L (memory s') r img bytes F' lv' q" if "q \<in> set (loads (take i ?ps))" for q
  proof (rule seg_step_keeps [OF _ assms(6) _ pu(1)])
    show "in_place_apart L (memory s) r img bytes F lv q" using I(6) that by blast
    show "in_user_space q" using all that split(3) by auto
    show "seg_end q \<le> seg_start p"
      using loadable_segs(2) [OF assms(1)] that p(2) unfolding split(3) by (auto simp: sorted_wrt_append)
  qed
  show ?thesis
    unfolding load_inv_def
  proof (intro conjI)
    show "vm_inv L s' F' lv'" "lv' r = Some 4" using vm_growD(1) [OF S(1)] vm_grow_level [OF S(1) I(2)] by auto
    show "page_dir (address_space (process_at s' space)) = directory L r"
      using rest_process [OF vm_growD(5) [OF S(1)]] I(3) by simp
    show "span bytes (unat sz) \<subseteq> A" by (rule I(9))
    show "same_on A img (memory s')" using same_on_trans [OF I(4) img] .
    show "A \<subseteq> beyond (get_hhdm L) (F' \<union> table_bytes lv')"
      using order.trans [OF I(5) beyond_antimono] vm_growD(4) [OF S(1)] by (simp add: Un_commute)
    show "\<forall>q \<in> set (loads (take (Suc i) ?ps)). in_place_apart L (memory s') r img bytes F' lv' q"
      using old new p(2) unfolding split(1) by auto
    show "16384 * sum_list (map page_count (loads (drop (Suc i) ?ps))) \<le> card F'"
      using I(7) S(4) p(2) unfolding split(2) by simp
    show "\<forall>v. (\<forall>q \<in> set (loads (take (Suc i) ?ps)). off_segment q v)
        \<longrightarrow> translation (memory s') (get_hhdm L) r v = translation img (get_hhdm L) r v"
      using I(8) p(2) assms(6) unfolding split(1) seg_step_def by simp
  qed
qed

lemma loop_fields:
  assumes "loadable img bytes sz" and "load_inv A L r img bytes sz space i s F lv"
  shows "header_at (memory s) bytes = header_at img bytes"
    and "i < length (phdrs_at img bytes) \<Longrightarrow>
      phdr_at (memory s) (phdr_ptr bytes (header_at img bytes) (of_nat i)) = phdrs_at img bytes ! i"
    and "i < length (phdrs_at img bytes) \<Longrightarrow>
      span (phdr_ptr bytes (header_at img bytes) (of_nat i)) 56 \<subseteq> span bytes (unat sz)"
    and "i \<le> length (phdrs_at img bytes) \<Longrightarrow>
      (of_nat i :: u64) < ucast (e_phnum (header_at (memory s) bytes)) \<longleftrightarrow> i < length (phdrs_at img bytes)"
proof -
  note fit = loadable_segs(3,4) [OF assms(1)] and same = same_on_mono [OF load_invD(4,9) [OF assms(2)]]
  have len: "length (phdrs_at img bytes) = unat (e_phnum (header_at img bytes))" by (simp add: phdrs_at_def Let_def)
  show h: "header_at (memory s) bytes = header_at img bytes"
    using u64_less_2p64 [of sz] by (intro header_at_same [OF same fit(2)]) simp
  show sp: "span (phdr_ptr bytes (header_at img bytes) (of_nat i)) 56 \<subseteq> span bytes (unat sz)"
    if "i < length (phdrs_at img bytes)"
    using phdr_in_image [OF fit(1)] that unfolding len by blast
  show "phdr_at (memory s) (phdr_ptr bytes (header_at img bytes) (of_nat i)) = phdrs_at img bytes ! i"
    if "i < length (phdrs_at img bytes)"
    using phdr_at_same [OF same sp [OF that]] that by (simp add: phdrs_at_def Let_def)
  show "(of_nat i :: u64) < ucast (e_phnum (header_at (memory s) bytes)) \<longleftrightarrow> i < length (phdrs_at img bytes)"
    if "i \<le> length (phdrs_at img bytes)"
  proof -
    have "i < 2 ^ 64" using that fit(1) unfolding len table_fits_def by simp
    then show ?thesis by (simp add: word_less_nat_alt unat_of_nat_small h len)
  qed
qed

text \<open>The allocator refused a block for a segment although there were enough free pages in total.\<close>

definition refused :: "limine \<Rightarrow> u64 set \<Rightarrow> Elf64_Phdr \<Rightarrow> 'a pmm_scheme \<Rightarrow> bool" where
  "refused L F p s' \<longleftrightarrow> (\<exists>t F'. pmm_has_free L t F' \<and> F' \<subseteq> F \<and> 16384 * page_count p \<le> card F'
     \<and> alloc L (seg_pages p) t = ret (0, s'))"

lemma refused_mono: "refused L F p s' \<Longrightarrow> F \<subseteq> G \<Longrightarrow> refused L G p s'"
  by (force simp: refused_def)

lemma load_loop_runs:
  assumes "loadable img bytes sz" and "space \<noteq> null" and "load_inv A L r img bytes sz space i s F lv"
    and "length (phdrs_at img bytes) = i + k"
  shows "(\<exists>s'. load_loop L bytes space (of_nat i) s = ret (False, s')
           \<and> (\<exists>p \<in> set (loads (phdrs_at img bytes)). refused L F p s'))
    \<or> (\<exists>s' F' lv'. load_loop L bytes space (of_nat i) s = ret (True, s') \<and> F' \<subseteq> F
         \<and> load_inv A L r img bytes sz space (length (phdrs_at img bytes)) s' F' lv')"
  using assms(3,4)
proof (induction k arbitrary: i s F lv)
  case 0
  then have "load_loop L bytes space (of_nat i) s = ret (True, s)"
    using loop_fields(4) [OF assms(1) 0(1)] by (subst load_loop.simps) simp
  then show ?case using 0 by auto
next
  case (Suc k)
  let ?ps = "phdrs_at img bytes"
  define p where "p = ?ps ! i"
  have i: "i < length ?ps" "length ?ps = Suc i + k" using Suc.prems(2) by simp_all
  note f = loop_fields [OF assms(1) Suc.prems(1)]
  have next_i: "(of_nat i + 1 :: u64) = of_nat (Suc i)" by simp
  show ?case
  proof (cases "p_type p = ProgramType_Load")
    case False
    have "load_loop L bytes space (of_nat i) s = load_loop L bytes space (of_nat (Suc i)) s"
      using f(4) f(2) [OF i(1)] f(1) i(1) False
      by (subst load_loop.simps) (simp add: p_def [symmetric] next_i cong: if_cong del: of_nat_Suc)
    then show ?thesis
      using Suc.IH [OF load_inv_skip [OF Suc.prems(1) i(1) False [unfolded p_def]] i(2)] by (simp only:)
  next
    case True
    then have pin: "p \<in> set (loads ?ps)" using i(1) by (simp add: p_def)
    have pu: "in_user_space p" "seg_valid sz p" using loadable_segs(1) [OF assms(1)] pin by auto
    note I = load_invD [OF Suc.prems(1)]
    have room: "16384 * page_count p \<le> card F"
      using I(7) True unfolding take_Suc_loads(2) [OF i(1)] by (simp add: p_def)
    let ?pp = "phdr_ptr bytes (header_at img bytes) (of_nat i)"
    have run: "load_loop L bytes space (of_nat i) s = ebind (load_segment L bytes space ?pp s)
        (\<lambda>r. if fst r then load_loop L bytes space (of_nat (Suc i)) (snd r) else ret r)"
      using f(4) f(2) [OF i(1)] f(1) i(1) True
      by (subst load_loop.simps) (simp add: p_def [symmetric] next_i cong: if_cong del: of_nat_Suc)
    from load_segment_step [OF I(1,2) pu _ f(3) [OF i(1)] room assms(2) I(3) order.trans [OF I(9,5)]] f(2) [OF i(1)]
    consider (no) s' where "load_segment L bytes space ?pp s = ret (False, s')" "alloc L (seg_pages p) s = ret (0, s')"
      | (yes) s' F' lv' pa where "load_segment L bytes space ?pp s = ret (True, s')"
          "seg_step L r (memory s) bytes p pa s F lv s' F' lv'"
      unfolding p_def by blast
    then show ?thesis
    proof cases
      case no
      then have "refused L F p s'" using I(1) room by (auto simp: refused_def vm_inv_def)
      then show ?thesis using no(1) run pin by auto
    next
      case yes
      have sub: "F' \<subseteq> F" using yes(2) by (simp add: seg_step_def vm_grow_def)
      have "load_inv A L r img bytes sz space (Suc i) s' F' lv'"
        using load_inv_step [OF assms(1) Suc.prems(1) i(1) p_def True yes(2)] .
      moreover have "load_loop L bytes space (of_nat i) s = load_loop L bytes space (of_nat (Suc i)) s'"
        using run yes(1) by simp
      ultimately show ?thesis
        using Suc.IH [OF _ i(2), of s' F' lv'] refused_mono [OF _ sub] subset_trans [OF _ sub] by metis
    qed
  qed
qed

section \<open>What the process sees\<close>

lemma seg_visible:
  assumes inv: "vm_inv L s F lv" and r: "lv r = Some 4" and p: "in_user_space p"
    and seg: "seg_in_place (get_hhdm L) (memory s) r img bytes p pa" and x: "x < p_memsz p"
  shows "\<exists>a e. translation (memory s) (get_hhdm L) r (p_vaddr p + x) = Some e \<and> e AND NOT PADDR_MASK = seg_flags p
    \<and> va_to_pa L (directory L r) (p_vaddr p + x) s = ret a
    \<and> memory s (a + get_hhdm L) = (if x < p_filesz p then img (bytes + p_offset p + x) else 0)"
proof -
  let ?h = "get_hhdm L" and ?y = "seg_off p + x"
  note nums = seg_numbers [OF p]
  have y: "unat ?y = unat (seg_off p) + unat x" "unat ?y < 4096 * page_count p"
  proof -
    have "unat (seg_off p) + unat x < 4096 * page_count p" using nums(9) x by (simp add: word_less_nat_alt)
    then show "unat ?y = unat (seg_off p) + unat x" using nums(8) by (intro unat_add_nowrap) simp
    then show "unat ?y < 4096 * page_count p" using \<open>unat (seg_off p) + unat x < 4096 * page_count p\<close> by simp
  qed
  have va: "p_vaddr p + x = seg_base p + ?y" by simp
  have reg: "region_ok ?h (pa, seg_pages p)" using seg by (simp add: seg_in_place_def)
  have "0xffff800000000000 \<le> unat ?h" using inv by (simp add: vm_inv_def hhdm_ok_def word_le_nat_alt)
  then have pa: "4096 dvd unat pa" "unat pa + 4096 * page_count p \<le> 2 ^ 47"
    using reg nums(4) by (auto simp: region_ok_def)
  define j where "j = unat ?y div 4096"
  have j: "j < page_count p" using y(2) by (simp add: j_def div_less_iff_less_mult mult.commute)
  have "unat (of_nat (4096 * j) :: u64) = 4096 * j" using j pa(2) by (intro unat_of_nat_small) simp
  then have unth: "unat (nth_page pa j) = unat pa + 4096 * j" using j pa(2) by (subst unat_add_nowrap) simp_all
  then have nth: "4096 dvd unat (nth_page pa j)" "unat (nth_page pa j) < 2 ^ 48" using pa j by simp_all
  have al: "4096 dvd unat (seg_base p)" unfolding nums(2) by simp
  have tr: "translation (memory s) ?h r (p_vaddr p + x) = Some (nth_page pa j OR seg_flags p)"
    using seg j vpn_in_range [OF al, of ?y] unfolding va seg_in_place_def j_def by (simp add: translation_def same_vpn)
  have down: "align_down (nth_page pa j) PAGE_SIZE = nth_page pa j"
    using page_aligned_and [OF nth(1)] by (simp add: align_down_def page_mask)
  have "unat pa + unat ?y < 2 ^ 48" using y(2) pa(2) by simp
  from mapped_address [OF al pa(1) seg_flags_bits(1) this]
  have pay: "va_to_pa L (directory L r) (p_vaddr p + x) s = ret (pa + ?y)"
    using va_to_pa_translation [OF inv r tr] down unfolding va j_def by simp
  have y_off: "seg_off p \<le> ?y" "?y - seg_off p = x" using y(1) by (simp_all add: word_le_nat_alt)
  have "memory s (pa + ?h + ?y) = (if seg_off p \<le> ?y \<and> ?y - seg_off p < p_filesz p
      then img (bytes + p_offset p + (?y - seg_off p)) else 0)"
    using seg y(2) unfolding seg_in_place_def by blast
  moreover have "pa + ?h + ?y = pa + ?y + ?h" by (simp only: ac_simps)
  ultimately have "memory s (pa + ?y + ?h) = (if x < p_filesz p then img (bytes + p_offset p + x) else 0)"
    unfolding y_off(2) using y_off(1) by (simp only: simp_thms)
  moreover have "(nth_page pa j OR seg_flags p) AND NOT PADDR_MASK = seg_flags p"
  proof -
    have "nth_page pa j AND NOT PADDR_MASK = 0"
      by (subst masked_address [OF nth, symmetric]) (simp add: bit_eq_iff bit_simps)
    moreover have "seg_flags p AND NOT PADDR_MASK = seg_flags p"
      using seg_flags_bits(1) [of p] by (auto simp: bit_eq_iff bit_simps)
    ultimately show ?thesis by (simp add: bit.conj_disj_distrib2)
  qed
  ultimately show ?thesis using tr pay by blast
qed

section \<open>A machine with eight free pages\<close>

definition elf_map :: limine where
  "elf_map = small_map\<lparr>memmap_entries := [\<lparr>entry_base = 0x10000, entry_length = 0x8000, entry_type = 0\<rparr>]\<rparr>"

definition blank_thread :: ThreadBlock where
  "blank_thread = \<lparr>m_name = [], rsp0 = 0, kernel_stack = 0, t_state = ThreadReady, thread_id = 0, registers = zero_frame,
     exec_start_ms = 0, total_runtime_ms = 0, scheduled_time = 0, sleep_time = 0, userspace_time_ms = 0,
     kernelspace_time_ms = 0, kernel_pa = 0, user_stack_pa = None, m_entry = 0, m_process = 0\<rparr>"

definition blank_process :: ProcessBlock where
  "blank_process = \<lparr>p_threads = empty_deque, p_curr_thread = null, parent = null,
     address_space = \<lparr>page_dir = \<lparr>pml4 = null, pml4_pa = 0\<rparr>, vmem = empty_deque\<rparr>, p_status = ProcReady, is_user = True,
     is_zombie = False, is_dead = False, is_orphaned = False, exit_status = 0, p_name = [], pid = 1, thread_size = 0\<rparr>"

definition test_procs :: procs where
  "test_procs = pit.extend test_pit \<lparr>thread_at = (\<lambda>_. blank_thread), process_at = (\<lambda>_. blank_process),
     hook = (\<lambda>_. null), proc_hook = (\<lambda>_. null), g_total_tid = 0, total_pid = 0\<rparr>"

text \<open>The small executable as a boot module at \<open>0x1000\<close>, and a process with the directory \<open>d\<close>.\<close>

definition with_image :: "PageDirectory \<Rightarrow> procs \<Rightarrow> procs" where
  "with_image d s = upd_process 0x10 (\<lambda>p. p\<lparr>address_space := \<lparr>page_dir = d, vmem = empty_deque\<rparr>\<rparr>)
     (s\<lparr>memory := (\<lambda>x. if x \<in> span 0x1000 136 then tiny_elf 0x1000 x else memory s x)\<rparr>)"

lemma elf_map_free: "pmm_has_free elf_map (init_pmm elf_map test_procs) (region_bytes (0x10000, 8))" "hhdm_ok elf_map"
proof -
  have "memmap_ok elf_map"
    by (simp add: memmap_ok_def elf_map_def small_map_def entry_region_def region_ok_def get_hhdm_def PAGE_SIZE_def)
  moreover have t: "freelist_head test_procs = null" "pmm_unlocked test_procs"
    by (simp_all add: test_procs_def test_pit_def test_console_def blank_vmm_def fresh_lock_def
        pit.defs console.defs io.defs vmm.defs)
  ultimately have "pmm_rep elf_map (init_pmm elf_map test_procs) [(0x10000, 8)]"
    using init_pmm_rep [of elf_map test_procs]
    by (simp add: elf_map_def small_map_def entry_region_def PAGE_SIZE_def)
  then show "pmm_has_free elf_map (init_pmm elf_map test_procs) (region_bytes (0x10000, 8))"
    using t(2) by (auto simp: pmm_has_free_def init_pmm_keeps)
  show "hhdm_ok elf_map" by (simp add: hhdm_ok_def get_hhdm_def elf_map_def small_map_def)
qed

lemma tiny_elf_loads:
  assumes "same_on (span 0x1000 136) (tiny_elf 0x1000) m"
  shows "elf_scan m 0x1000 136 = Inr \<lparr>image_base = 0x400000, base_found = True, image_end = 0x400010, prev_page_end = 0x401000\<rparr>"
    and "header_at m 0x1000 = header_at (tiny_elf 0x1000) 0x1000"
    and "loads (phdrs_at m 0x1000) = [phdr_at (tiny_elf 0x1000) 0x1040]"
proof -
  have same: "same_on (span 0x1000 (unat (136 :: u64))) (tiny_elf 0x1000) m" using assms by simp
  show "elf_scan m 0x1000 136 = Inr \<lparr>image_base = 0x400000, base_found = True, image_end = 0x400010, prev_page_end = 0x401000\<rparr>"
    using elf_scan_same [OF same] tiny_elf_accepted by simp
  show h: "header_at m 0x1000 = header_at (tiny_elf 0x1000) 0x1000" by (rule header_at_same [OF assms]) simp_all
  have "phdrs_at m 0x1000 = phdrs_at (tiny_elf 0x1000) 0x1000"
    by (rule phdrs_same [OF same elf_scan_accepts(4) [OF tiny_elf_accepted] h])
  then show "loads (phdrs_at m 0x1000) = [phdr_at (tiny_elf 0x1000) 0x1040]"
    by (simp add: phdrs_at_def phdr_ptr_def tiny_elf_header tiny_elf_phdr ProgramType_Load_def)
qed

section \<open>Properties\<close>



end
