(* ===== verification/Scheduler.thy ===== *)
theory Scheduler
  imports Threads
begin

text \<open>
  The scheduler, \<^verbatim>\<open>src/src/include/arch/x86-64/proc/scheduler.hpp\<close> and
  \<^verbatim>\<open>src/src/kernel/arch/x86-64/proc/scheduler.cpp\<close>: a ready and a waiting queue linked through
  the same hook, the running thread, the idle thread, and the counters that postpone a switch while the
  scheduler is locked. This theory holds the operations; \<open>Sched_Invariant\<close> has their correctness.
\<close>

section \<open>State\<close>

record sched = procs +
  disable_counter :: u8
  task_switch_counter :: u8
  task_switch_postponed :: bool
  time_quantum_past :: bool
  waiting_queue :: SingleDeque
  ready_threads :: SingleDeque
  curr_thread :: ptr
  idle_thread :: ptr
  tss_rsp0 :: u64
  syscall_kernel_rsp :: u64
  syscall_user_rsp :: u64

definition DEFAULT_TIME_QUANTUM :: u64 where "DEFAULT_TIME_QUANTUM = 100"

text \<open>The getters mask interrupts while they read one field.\<close>

definition get_current_thread :: "'a sched_scheme \<Rightarrow> ptr \<times> 'a sched_scheme" where
  "get_current_thread s =
     (let (saved, fl) = IrqRAIGaurd_enter (rflags s); s = s\<lparr>rflags := fl\<rparr>; t = curr_thread s
      in (t, s\<lparr>rflags := IrqRAIGaurd_leave saved (rflags s)\<rparr>))"

definition get_current_process :: "'a sched_scheme \<Rightarrow> (ptr \<times> 'a sched_scheme) exec" where
  "get_current_process s =
     (let (saved, fl) = IrqRAIGaurd_enter (rflags s); s = s\<lparr>rflags := fl\<rparr>;
          (thread, s) = get_current_thread s
      in if thread = null then halt NullDeref
         else ret (m_process (thread_at s thread), s\<lparr>rflags := IrqRAIGaurd_leave saved (rflags s)\<rparr>))"

text \<open>The page directory of a thread's process, read through the process pointer.\<close>

definition load_space_of :: "ptr \<Rightarrow> 'a sched_scheme \<Rightarrow> 'a sched_scheme exec" where
  "load_space_of thread s =
     (let p = m_process (thread_at s thread) in
      if p = null then halt NullDeref
      else ret (load_cr3 (pml4_pa (page_dir (address_space (process_at s p)))) s))"

definition use_stack_of :: "ptr \<Rightarrow> 'a sched_scheme \<Rightarrow> 'a sched_scheme" where
  "use_stack_of thread s =
     (let s = s\<lparr>tss_rsp0 := rsp0 (thread_at s thread)\<rparr> in s\<lparr>syscall_kernel_rsp := tss_rsp0 s\<rparr>)"

definition start_slice :: "ptr \<Rightarrow> 'a sched_scheme \<Rightarrow> 'a sched_scheme" where
  "start_slice thread s =
     (let s = s\<lparr>curr_thread := thread\<rparr>
      in upd_thread thread (\<lambda>t. t\<lparr>exec_start_ms := get_time_milliseconds s\<rparr>) s)"

definition set_state :: "ThreadState \<Rightarrow> ptr \<Rightarrow> 'a procs_scheme \<Rightarrow> 'a procs_scheme" where
  "set_state st thread = upd_thread thread (\<lambda>t. t\<lparr>t_state := st\<rparr>)"

definition ready_push_tail :: "ptr \<Rightarrow> 'a sched_scheme \<Rightarrow> 'a sched_scheme" where
  "ready_push_tail thread s =
     (let (nx, q) = push_tail (hook s) (ready_threads s) thread in s\<lparr>hook := nx, ready_threads := q\<rparr>)"

definition waiting_push_tail :: "ptr \<Rightarrow> 'a sched_scheme \<Rightarrow> 'a sched_scheme" where
  "waiting_push_tail thread s =
     (let (nx, q) = push_tail (hook s) (waiting_queue s) thread in s\<lparr>hook := nx, waiting_queue := q\<rparr>)"

definition waiting_remove :: "ptr \<Rightarrow> 'a sched_scheme \<Rightarrow> 'a sched_scheme exec" where
  "waiting_remove thread s =
     ebind (remove_elem (hook s) (waiting_queue s) thread) (\<lambda>(nx, q). ret (s\<lparr>hook := nx, waiting_queue := q\<rparr>))"

section \<open>Operations\<close>

definition Schedule_new :: "ptr \<Rightarrow> 'a sched_scheme \<Rightarrow> 'a sched_scheme exec" where
  "Schedule_new idle s =
     (let s = s\<lparr>disable_counter := 0, task_switch_counter := 0, task_switch_postponed := False, time_quantum_past := False,
                waiting_queue := empty_deque, ready_threads := empty_deque, curr_thread := idle, idle_thread := idle\<rparr>
      in guarded (\<lambda>s. load_space_of idle (use_stack_of idle (start_slice idle (set_state ThreadRunning idle s)))) s)"

definition lock_scheduler :: "'a sched_scheme \<Rightarrow> 'a sched_scheme" where
  "lock_scheduler s =
     (let s = s\<lparr>rflags := cli (rflags s)\<rparr>
      in s\<lparr>disable_counter := disable_counter s + 1, task_switch_counter := task_switch_counter s + 1\<rparr>)"

definition add_ready_threads :: "ptr \<Rightarrow> 'a sched_scheme \<Rightarrow> 'a sched_scheme exec" where
  "add_ready_threads thread s =
     (if thread = null then halt NullDeref
      else if deque_empty (ready_threads s) \<and> curr_thread s = null then
        (let (nx, q) = push_head (hook s) (ready_threads s) thread; s = s\<lparr>hook := nx, ready_threads := q\<rparr>
         in ebind (load_space_of thread (use_stack_of thread s)) (\<lambda>s. ret (start_slice thread s)))
      else if time_quantum_past s then
        ret ((ready_push_tail thread (set_state ThreadReady thread s))\<lparr>time_quantum_past := False\<rparr>)
      else ret (ready_push_tail thread (reset_scheduled_time thread (set_state ThreadReady thread s))))"

definition switch_task :: "ptr \<Rightarrow> 'a sched_scheme \<Rightarrow> 'a sched_scheme exec" where
  "switch_task next_thread s =
     (if curr_thread s = null \<or> next_thread = null then halt NullDeref
      else
        ebind (if t_state (thread_at s (curr_thread s)) = ThreadRunning \<and> curr_thread s \<noteq> idle_thread s
               then ebind (add_ready_threads (curr_thread s) s) (\<lambda>s. ret (set_state ThreadRunning next_thread s))
               else ret s) (\<lambda>s.
        if next_thread = idle_thread s then ret (start_slice next_thread s)
        else
          (let s = use_stack_of next_thread s in
           ebind (if m_process (thread_at s next_thread) \<noteq> m_process (thread_at s (curr_thread s))
                  then load_space_of next_thread s else ret s) (\<lambda>s.
           ret (start_slice next_thread s)))))"

definition schedule :: "'a sched_scheme \<Rightarrow> 'a sched_scheme exec" where
  "schedule s =
     (if task_switch_counter s \<noteq> 0 then ret (s\<lparr>task_switch_postponed := True\<rparr>)
      else if deque_empty (ready_threads s) then switch_task (idle_thread s) s
      else
        (let s = (if time_quantum_past s then
                    (let (t, s) = get_current_thread s;
                         s = upd_thread t (\<lambda>b. b\<lparr>scheduled_time := scheduled_time b - DEFAULT_TIME_QUANTUM\<rparr>) s
                     in if scheduled_time (thread_at s t) = 0 then reset_scheduled_time t s else s)
                  else s);
             (next_thread, q) = pop_head (hook s) (ready_threads s);
             s = s\<lparr>ready_threads := q\<rparr>
         in if next_thread = null then halt NullDeref
            else switch_task next_thread (set_state ThreadRunning next_thread s)))"

definition unlock_scheduler :: "'a sched_scheme \<Rightarrow> 'a sched_scheme exec" where
  "unlock_scheduler s =
     (let s = s\<lparr>task_switch_counter := task_switch_counter s - 1\<rparr> in
      ebind (if task_switch_counter s = 0 \<and> task_switch_postponed s then schedule (s\<lparr>task_switch_postponed := False\<rparr>)
             else ret s) (\<lambda>s.
      (let s = s\<lparr>disable_counter := disable_counter s - 1\<rparr>
       in ret (if disable_counter s = 0 then s\<lparr>rflags := sti (rflags s)\<rparr> else s))))"

definition sched_sleep :: "u64 \<Rightarrow> 'a sched_scheme \<Rightarrow> 'a sched_scheme exec" where
  "sched_sleep milli s =
     (if curr_thread s = null then halt NullDeref else let s = lock_scheduler s;
          s = upd_thread (curr_thread s) (\<lambda>t. t\<lparr>sleep_time := milli\<rparr>) s;
          s = set_state ThreadSleep (curr_thread s) s;
          s = waiting_push_tail (curr_thread s) s
      in ebind (schedule s) unlock_scheduler)"

definition sched_yield :: "'a sched_scheme \<Rightarrow> 'a sched_scheme exec" where
  "sched_yield s =
     (if curr_thread s = null then halt NullDeref else let s = lock_scheduler s;
          s = set_state ThreadReady (curr_thread s) s;
          s = reset_scheduled_time (curr_thread s) s;
          s = ready_push_tail (curr_thread s) s
      in ebind (schedule s) unlock_scheduler)"

definition sched_block :: "'a sched_scheme \<Rightarrow> 'a sched_scheme exec" where
  "sched_block s =
     (if curr_thread s = null then halt NullDeref else let s = lock_scheduler s;
          s = set_state ThreadBlocked (curr_thread s) s;
          s = waiting_push_tail (curr_thread s) s
      in ebind (schedule s) unlock_scheduler)"

definition unblock :: "ptr \<Rightarrow> 'a sched_scheme \<Rightarrow> 'a sched_scheme exec" where
  "unblock task s =
     (let s = lock_scheduler s in
      ebind (waiting_remove task s) (\<lambda>s.
      (if task = null then halt NullDeref else let s = set_state ThreadReady task (upd_thread task (\<lambda>t. t\<lparr>sleep_time := 0\<rparr>) s) in
       ebind (if deque_empty (ready_threads s) \<and> curr_thread s = idle_thread s then switch_task task s
              else ret (ready_push_tail task s)) unlock_scheduler)))"

section \<open>The timer interrupt\<close>

text \<open>The body of the loop over the waiting queue.\<close>

definition wake_sleeper :: "ptr \<Rightarrow> 'a sched_scheme \<Rightarrow> 'a sched_scheme exec" where
  "wake_sleeper sleep_thread s =
     (if t_state (thread_at s sleep_thread) = ThreadBlocked then ret s
      else
        (let s = (if sleep_time (thread_at s sleep_thread) > 0
                  then upd_thread sleep_thread (\<lambda>t. t\<lparr>sleep_time := sleep_time t - 1\<rparr>) s else s)
         in if sleep_time (thread_at s sleep_thread) = 0 then unblock sleep_thread s else ret s))"

partial_function (option) wake_loop :: "Iterator \<Rightarrow> 'a sched_scheme \<Rightarrow> 'a sched_scheme exec" where
  "wake_loop it s =
     (if it_ptr it = null then ret s
      else ebind (wake_sleeper (it_ptr it) s) (\<lambda>s. wake_loop (Iterator_inc (hook s) it) s))"

text \<open>The handler returns the frame that the interrupt returns to, beside the state.\<close>

definition pit_irq_handler :: "IrqFrame \<Rightarrow> 'a sched_scheme \<Rightarrow> (IrqFrame \<times> 'a sched_scheme) exec" where
  "pit_irq_handler frame s =
     (if curr_thread s = null then ret (frame, s)
      else
        (let s = lock_scheduler s;
             s = upd_thread (curr_thread s) (\<lambda>t. t\<lparr>registers := frame\<rparr>) s;
             s = upd_thread (curr_thread s) (\<lambda>t. t\<lparr>total_runtime_ms := total_runtime_ms t + 1\<rparr>) s
         in ebind (wake_loop (begin_it (hook s) (waiting_queue s)) s) (\<lambda>s.
            (let now = get_time_milliseconds s;
                 delta = now - exec_start_ms (thread_at s (curr_thread s))
             in ebind (if delta \<ge> scheduled_time (thread_at s (curr_thread s)) then schedule s
                       else if delta = DEFAULT_TIME_QUANTUM then schedule (s\<lparr>time_quantum_past := True\<rparr>)
                       else ret s) (\<lambda>s.
                ebind (unlock_scheduler s) (\<lambda>s.
                ret (registers (thread_at s (curr_thread s)), s)))))))"

section \<open>Removing the threads of a process\<close>

definition remove_waiting_of :: "ptr \<Rightarrow> ptr \<Rightarrow> 'a sched_scheme \<Rightarrow> 'a sched_scheme exec" where
  "remove_waiting_of proc thread s =
     (if m_process (thread_at s thread) = proc then waiting_remove thread s else ret s)"

text \<open>
  One range-based loop each over the waiting and the ready queue. Both remove from the waiting queue,
  as the code does.
\<close>

partial_function (option) remove_loop :: "ptr \<Rightarrow> Iterator \<Rightarrow> 'a sched_scheme \<Rightarrow> 'a sched_scheme exec" where
  "remove_loop proc it s =
     (if it_ptr it = null then ret s
      else ebind (remove_waiting_of proc (it_ptr it) s) (\<lambda>s. remove_loop proc (Iterator_inc (hook s) it) s))"

definition remove_dead_process_threads :: "'a sched_scheme \<Rightarrow> (bool \<times> 'a sched_scheme) exec" where
  "remove_dead_process_threads s =
     ebind (get_current_process s) (\<lambda>(proc, s).
     ebind (remove_loop proc (begin_it (hook s) (waiting_queue s)) s) (\<lambda>s.
     ebind (remove_loop proc (begin_it (hook s) (ready_threads s)) s) (\<lambda>s.
     ebind (schedule s) (\<lambda>s. ret (True, s)))))"

end
