(* ===== verification/Sched_Invariant.thy ===== *)
theory Sched_Invariant
  imports Scheduler
begin

text \<open>
  The invariant of the scheduler and the effect of every operation on the two queues and the running
  thread, stated on lists.
\<close>

section \<open>Selectors of the primitive updates\<close>

lemma thread_at_upd_thread [simp]:
  "thread_at (upd_thread t f s) u = (if u = t then f (thread_at s t) else thread_at s u)"
  by (simp add: upd_thread_def)

lemma upd_thread_keeps [simp]:
  "process_at (upd_thread t f s) = process_at s" "hook (upd_thread t f s) = hook s"
  "tick (upd_thread t f s) = tick s" "rflags (upd_thread t f s) = rflags s"
  "ready_threads (upd_thread t f (s :: 'a sched_scheme)) = ready_threads s"
  "waiting_queue (upd_thread t f (s :: 'a sched_scheme)) = waiting_queue s"
  "curr_thread (upd_thread t f (s :: 'a sched_scheme)) = curr_thread s"
  "idle_thread (upd_thread t f (s :: 'a sched_scheme)) = idle_thread s"
  "disable_counter (upd_thread t f (s :: 'a sched_scheme)) = disable_counter s"
  "task_switch_counter (upd_thread t f (s :: 'a sched_scheme)) = task_switch_counter s"
  "task_switch_postponed (upd_thread t f (s :: 'a sched_scheme)) = task_switch_postponed s"
  "time_quantum_past (upd_thread t f (s :: 'a sched_scheme)) = time_quantum_past s"
  "tss_rsp0 (upd_thread t f (s :: 'a sched_scheme)) = tss_rsp0 s"
  "syscall_kernel_rsp (upd_thread t f (s :: 'a sched_scheme)) = syscall_kernel_rsp s"
  "cr3 (upd_thread t f s) = cr3 s"
  by (simp_all add: upd_thread_def)

lemma guard_restores [simp]: "IrqRAIGaurd_leave (fst (IrqRAIGaurd_enter fl)) (snd (IrqRAIGaurd_enter fl)) = fl"
  by (cases "interrupts_on fl") (simp_all add: IrqRAIGaurd_enter_def IrqRAIGaurd_leave_def IF_FLAG_test)

lemma get_current_thread_eq [simp]: "get_current_thread s = (curr_thread s, s)"
  by (simp add: get_current_thread_def Let_def case_prod_beta)

lemma get_current_process_eq:
  "get_current_process s
     = (if curr_thread s = null then halt NullDeref else ret (m_process (thread_at s (curr_thread s)), s))"
  by (simp add: get_current_process_def Let_def case_prod_beta)

section \<open>The queues\<close>

definition queues :: "'a sched_scheme \<Rightarrow> ptr list \<Rightarrow> ptr list \<Rightarrow> bool" where
  "queues s R W \<longleftrightarrow> deque_rep (hook s) (ready_threads s) R \<and> deque_rep (hook s) (waiting_queue s) W
     \<and> set R \<inter> set W = {}"

lemma queues_cong:
  "hook s' = hook s \<Longrightarrow> ready_threads s' = ready_threads s \<Longrightarrow> waiting_queue s' = waiting_queue s \<Longrightarrow>
     queues s' R W = queues s R W"
  by (simp add: queues_def)

lemma queues_distinct: "queues s R W \<Longrightarrow> distinct (R @ W)"
  by (auto simp: queues_def dest: deque_rep_distinct)

lemma queues_nonnull: "queues s R W \<Longrightarrow> null \<notin> set R \<union> set W"
  by (auto simp: queues_def dest: deque_rep_nonnull)

lemma queues_ready_empty: "queues s R W \<Longrightarrow> deque_empty (ready_threads s) \<longleftrightarrow> R = []"
  by (auto simp: queues_def dest: deque_empty_iff)

lemma queues_ready_push:
  assumes "queues s R W" and "t \<noteq> null" and "t \<notin> set R \<union> set W"
  shows "queues (ready_push_tail t s) (R @ [t]) W"
  using assms push_tail_rep [of "hook s" "ready_threads s" R t]
    push_tail_other [of "hook s" "ready_threads s" R "waiting_queue s" W t]
  by (auto simp: queues_def ready_push_tail_def case_prod_beta)

lemma queues_waiting_push:
  assumes "queues s R W" and "t \<noteq> null" and "t \<notin> set R \<union> set W"
  shows "queues (waiting_push_tail t s) R (W @ [t])"
  using assms push_tail_rep [of "hook s" "waiting_queue s" W t]
    push_tail_other [of "hook s" "waiting_queue s" W "ready_threads s" R t]
  by (auto simp: queues_def waiting_push_tail_def case_prod_beta)

lemma queues_ready_pop:
  assumes "queues s (x # R) W"
  shows "fst (pop_head (hook s) (ready_threads s)) = x"
    and "queues (s\<lparr>ready_threads := snd (pop_head (hook s) (ready_threads s))\<rparr>) R W"
  using assms pop_head_rep [of "hook s" "ready_threads s" x R] by (auto simp: queues_def)

text \<open>Queue operations write the queues and the hooks only.\<close>

definition requeued :: "'a sched_scheme \<Rightarrow> 'a sched_scheme \<Rightarrow> bool" where
  "requeued s s' \<longleftrightarrow> s' = s\<lparr>hook := hook s', ready_threads := ready_threads s', waiting_queue := waiting_queue s'\<rparr>"

lemma queues_waiting_remove:
  assumes "queues s R W" and "t \<noteq> null"
  shows "\<exists>s'. waiting_remove t s = ret s' \<and> requeued s s' \<and> queues s' R (remove1 t W)"
proof -
  obtain nx q where r: "remove_elem (hook s) (waiting_queue s) t = ret (nx, q)" "deque_rep nx q (remove1 t W)"
    "deque_rep nx (ready_threads s) R"
    using remove_elem_both [of "hook s" "waiting_queue s" W "ready_threads s" R t] assms by (auto simp: queues_def)
  have "set R \<inter> set (remove1 t W) = {}" using assms(1) set_remove1_subset [of t W] by (auto simp: queues_def)
  with r show ?thesis by (simp add: waiting_remove_def queues_def requeued_def)
qed

lemma requeued_keeps:
  assumes "requeued s s'"
  shows "thread_at s' = thread_at s" "process_at s' = process_at s" "curr_thread s' = curr_thread s"
    "idle_thread s' = idle_thread s" "disable_counter s' = disable_counter s" "tick s' = tick s" "rflags s' = rflags s"
    "task_switch_counter s' = task_switch_counter s" "task_switch_postponed s' = task_switch_postponed s"
    "time_quantum_past s' = time_quantum_past s" "tss_rsp0 s' = tss_rsp0 s" "syscall_kernel_rsp s' = syscall_kernel_rsp s"
    "cr3 s' = cr3 s"
  by (subst assms [unfolded requeued_def], simp)+

lemma push_requeued: "requeued s (ready_push_tail t s)" "requeued s (waiting_push_tail t s)"
  by (simp_all add: requeued_def ready_push_tail_def waiting_push_tail_def case_prod_beta Let_def)

lemmas ready_push_keeps [simp] = requeued_keeps [OF push_requeued(1)]
lemmas waiting_push_keeps [simp] = requeued_keeps [OF push_requeued(2)]

section \<open>Well-formed schedulers\<close>

abbreviation st :: "'a procs_scheme \<Rightarrow> ptr \<Rightarrow> ThreadState" where
  "st s t \<equiv> t_state (thread_at s t)"

definition thread_ok :: "'a procs_scheme \<Rightarrow> ptr \<Rightarrow> bool" where
  "thread_ok s t \<longleftrightarrow> t \<noteq> null \<and> m_process (thread_at s t) \<noteq> null"

text \<open>Queued threads are in the state of their queue; the idle thread is in none.\<close>

definition sched_wf :: "'a sched_scheme \<Rightarrow> ptr list \<Rightarrow> ptr list \<Rightarrow> bool" where
  "sched_wf s R W \<longleftrightarrow> queues s R W \<and> (\<forall>t\<in>set R. st s t = ThreadReady)
     \<and> (\<forall>t\<in>set W. st s t = ThreadBlocked \<or> st s t = ThreadSleep)
     \<and> idle_thread s \<notin> set R \<union> set W
     \<and> (\<forall>t\<in>{curr_thread s, idle_thread s} \<union> set R \<union> set W. thread_ok s t)"

text \<open>
  The processor's registers fit the running thread: the stacks for entries to the kernel are its kernel stack,
  and the page directory is that of its process. The idle thread runs on whatever was loaded before, and a
  switch between threads of the idle thread's process does not reload the directory.
\<close>

definition space_of :: "'a sched_scheme \<Rightarrow> ptr \<Rightarrow> u64" where
  "space_of s t = pml4_pa (page_dir (address_space (process_at s (m_process (thread_at s t)))))"

definition cpu_fits :: "'a sched_scheme \<Rightarrow> bool" where
  "cpu_fits s \<longleftrightarrow>
     (curr_thread s \<noteq> idle_thread s \<longrightarrow>
        tss_rsp0 s = rsp0 (thread_at s (curr_thread s)) \<and> syscall_kernel_rsp s = rsp0 (thread_at s (curr_thread s)))
     \<and> (m_process (thread_at s (curr_thread s)) \<noteq> m_process (thread_at s (idle_thread s)) \<longrightarrow>
        cr3 s = space_of s (curr_thread s))"

definition unlocked :: "'a sched_scheme \<Rightarrow> bool" where
  "unlocked s \<longleftrightarrow> disable_counter s = 0 \<and> task_switch_counter s = 0 \<and> \<not> task_switch_postponed s"

definition runs :: "'a sched_scheme \<Rightarrow> ptr list \<Rightarrow> ptr list \<Rightarrow> bool" where
  "runs s R W \<longleftrightarrow> curr_thread s \<notin> set R \<union> set W
     \<and> (curr_thread s \<noteq> idle_thread s \<longrightarrow> st s (curr_thread s) = ThreadRunning)"

definition sched_inv :: "'a sched_scheme \<Rightarrow> ptr list \<Rightarrow> ptr list \<Rightarrow> bool" where
  "sched_inv s R W \<longleftrightarrow> sched_wf s R W \<and> runs s R W \<and> cpu_fits s \<and> unlocked s"

text \<open>What a switch leaves alone: everything of a thread but its state, its slice and its start time.\<close>

definition same_block :: "ThreadBlock \<Rightarrow> ThreadBlock \<Rightarrow> bool" where
  "same_block b b' \<longleftrightarrow>
     b' = b\<lparr>t_state := t_state b', exec_start_ms := exec_start_ms b', scheduled_time := scheduled_time b'\<rparr>"

lemma same_block_refl [simp]: "same_block b b"
  by (simp add: same_block_def)

lemma same_block_trans: "same_block b b' \<Longrightarrow> same_block b' b'' \<Longrightarrow> same_block b b''"
  by (cases b; cases b'; cases b'') (simp add: same_block_def)

lemma same_blockD:
  assumes "same_block b b'"
  shows "m_process b' = m_process b" "registers b' = registers b" "rsp0 b' = rsp0 b" "sleep_time b' = sleep_time b"
  by (subst assms [unfolded same_block_def], simp)+

definition sched_frame :: "'a sched_scheme \<Rightarrow> 'a sched_scheme \<Rightarrow> bool" where
  "sched_frame s s' \<longleftrightarrow> idle_thread s' = idle_thread s \<and> process_at s' = process_at s
     \<and> disable_counter s' = disable_counter s \<and> task_switch_counter s' = task_switch_counter s
     \<and> task_switch_postponed s' = task_switch_postponed s \<and> rflags s' = rflags s \<and> tick s' = tick s
     \<and> (\<forall>t. same_block (thread_at s t) (thread_at s' t))"

lemma sched_frame_refl [simp]: "sched_frame s s"
  by (simp add: sched_frame_def)

lemma sched_frame_trans: "sched_frame s s' \<Longrightarrow> sched_frame s' s'' \<Longrightarrow> sched_frame s s''"
  unfolding sched_frame_def using same_block_trans by fastforce

lemma sched_frame_thread_ok: "sched_frame s s' \<Longrightarrow> thread_ok s' t = thread_ok s t"
  using same_blockD(1) [of "thread_at s t" "thread_at s' t"] by (simp add: sched_frame_def thread_ok_def)

lemma sched_frame_upd:
  "(\<And>b. same_block b (f b)) \<Longrightarrow> sched_frame s (upd_thread t f s)"
  by (simp add: sched_frame_def)

lemma sched_frame_requeued: "requeued s s' \<Longrightarrow> sched_frame s s'"
  by (simp add: sched_frame_def requeued_keeps)

section \<open>Switching\<close>

definition requeue :: "'a sched_scheme \<Rightarrow> ptr list" where
  "requeue s = (if st s (curr_thread s) = ThreadRunning \<and> curr_thread s \<noteq> idle_thread s then [curr_thread s] else [])"

lemma set_state_frame [simp]: "sched_frame s (set_state x t s)"
  unfolding set_state_def by (rule sched_frame_upd) (simp add: same_block_def)

lemma reset_frame [simp]: "sched_frame s (reset_scheduled_time t s)"
  unfolding reset_scheduled_time_def by (rule sched_frame_upd) (simp add: same_block_def)

lemma set_state_keeps [simp]:
  "thread_at (set_state x t s) u = (if u = t then (thread_at s t)\<lparr>t_state := x\<rparr> else thread_at s u)"
  by (simp add: set_state_def)

text \<open>Appending a thread to the ready queue, as \<open>add_ready_threads\<close> does while some thread runs.\<close>

lemma add_ready_running:
  assumes "sched_wf s R W" and "thread_ok s t" and "t \<notin> set R \<union> set W" and "t \<noteq> idle_thread s"
  shows "\<exists>s'. add_ready_threads t s = ret s' \<and> sched_wf s' (R @ [t]) W \<and> sched_frame s s'
    \<and> curr_thread s' = curr_thread s \<and> \<not> time_quantum_past s' \<and> st s' t = ThreadReady
    \<and> (\<forall>u. u \<noteq> t \<longrightarrow> thread_at s' u = thread_at s u)
    \<and> tss_rsp0 s' = tss_rsp0 s \<and> syscall_kernel_rsp s' = syscall_kernel_rsp s \<and> cr3 s' = cr3 s"
proof -
  have c: "curr_thread s \<noteq> null" "t \<noteq> null" using assms(1,2) by (auto simp: sched_wf_def thread_ok_def)
  let ?a = "if time_quantum_past s then set_state ThreadReady t s else reset_scheduled_time t (set_state ThreadReady t s)"
  let ?s = "(ready_push_tail t ?a)\<lparr>time_quantum_past := False\<rparr>"
  have e: "add_ready_threads t s = ret ?s"
    using c by (cases "time_quantum_past s") (simp_all add: add_ready_threads_def reset_scheduled_time_def set_state_def)
  have f: "sched_frame s ?a" by (simp add: sched_frame_trans [OF set_state_frame reset_frame])
  have q: "queues ?a R W" using assms(1)
    by (auto simp: sched_wf_def queues_def reset_scheduled_time_def set_state_def)
  have "queues ?s (R @ [t]) W"
    using queues_ready_push [OF q c(2) assms(3)] by (simp add: queues_def)
  moreover have "sched_frame s ?s"
    using sched_frame_trans [OF f sched_frame_requeued [OF push_requeued(1)], of t] by (simp add: sched_frame_def)
  moreover have "st ?s t = ThreadReady" "\<forall>u. u \<noteq> t \<longrightarrow> thread_at ?s u = thread_at s u"
    "curr_thread ?s = curr_thread s" "tss_rsp0 ?s = tss_rsp0 s" "syscall_kernel_rsp ?s = syscall_kernel_rsp s" "cr3 ?s = cr3 s"
    "idle_thread ?s = idle_thread s"
    by (simp_all add: reset_scheduled_time_def set_state_def)
  moreover have "st ?s u = st s u" if "u \<in> set R \<union> set W" for u
    using that assms(3) by (auto simp: reset_scheduled_time_def set_state_def)
  moreover note sched_frame_thread_ok [OF calculation(2)]
  ultimately have "sched_wf ?s (R @ [t]) W" using assms(1,2,4) by (simp add: sched_wf_def)
  then show ?thesis
    using e \<open>sched_frame s ?s\<close> \<open>st ?s t = ThreadReady\<close> \<open>\<forall>u. u \<noteq> t \<longrightarrow> thread_at ?s u = thread_at s u\<close>
    by (intro exI [of _ ?s]) (simp add: reset_scheduled_time_def set_state_def)
qed

lemma cpu_fits_frame:
  assumes "sched_frame s s'" and "curr_thread s' = curr_thread s" and "cr3 s' = cr3 s"
    and "tss_rsp0 s' = tss_rsp0 s" and "syscall_kernel_rsp s' = syscall_kernel_rsp s"
  shows "cpu_fits s' = cpu_fits s"
proof -
  have b: "same_block (thread_at s t) (thread_at s' t)" for t using assms(1) by (simp add: sched_frame_def)
  show ?thesis
    using assms same_blockD(1,3) [OF b] by (simp add: cpu_fits_def space_of_def sched_frame_def)
qed

lemma sched_wf_frame:
  assumes "sched_wf s R W" and "sched_frame s s'" and "queues s' R W" and "\<And>u. u \<in> set R \<union> set W \<Longrightarrow> st s' u = st s u"
    and "thread_ok s (curr_thread s')"
  shows "sched_wf s' R W"
  using assms sched_frame_thread_ok [OF assms(2)] by (simp add: sched_wf_def sched_frame_def)

text \<open>The second half of \<open>switch_task\<close>: take the stacks and the page directory of the next thread.\<close>

definition enter_thread :: "ptr \<Rightarrow> 'a sched_scheme \<Rightarrow> 'a sched_scheme exec" where
  "enter_thread n s =
     (if n = idle_thread s then ret (start_slice n s)
      else
        (let s = use_stack_of n s in
         ebind (if m_process (thread_at s n) \<noteq> m_process (thread_at s (curr_thread s))
                then load_space_of n s else ret s) (\<lambda>s.
         ret (start_slice n s))))"

lemma enter_thread_wf:
  assumes "sched_wf s R W" and "thread_ok s n"
  shows "\<exists>s'. enter_thread n s = ret s' \<and> sched_wf s' R W \<and> curr_thread s' = n \<and> sched_frame s s'
    \<and> time_quantum_past s' = time_quantum_past s \<and> (\<forall>u. st s' u = st s u) \<and> (cpu_fits s \<longrightarrow> cpu_fits s')
    \<and> exec_start_ms (thread_at s' n) = get_time_milliseconds s"
proof -
  let ?load = "m_process (thread_at s n) \<noteq> m_process (thread_at s (curr_thread s))"
  define a where "a = (if n = idle_thread s then s
    else (if ?load then load_cr3 (space_of s n) (use_stack_of n s) else use_stack_of n s))"
  let ?s = "start_slice n a"
  have e: "enter_thread n s = ret ?s"
    using assms(2) by (simp add: a_def enter_thread_def use_stack_of_def load_space_of_def space_of_def thread_ok_def Let_def)
  have keep: "thread_at a = thread_at s" "process_at a = process_at s" "hook a = hook s" "idle_thread a = idle_thread s"
    "ready_threads a = ready_threads s" "waiting_queue a = waiting_queue s" "tick a = tick s" "rflags a = rflags s"
    "disable_counter a = disable_counter s" "task_switch_counter a = task_switch_counter s"
    "task_switch_postponed a = task_switch_postponed s" "time_quantum_past a = time_quantum_past s"
    by (simp_all add: a_def use_stack_of_def load_cr3_def Let_def)
  have f: "sched_frame s ?s"
    by (simp add: sched_frame_def start_slice_def keep same_block_def Let_def)
  have "queues ?s R W" using assms(1) by (simp add: sched_wf_def queues_def start_slice_def keep Let_def)
  then have wf: "sched_wf ?s R W"
    using assms by (intro sched_wf_frame [OF assms(1) f]) (simp_all add: start_slice_def keep Let_def)
  have m: "m_process (thread_at ?s u) = m_process (thread_at s u)" "rsp0 (thread_at ?s u) = rsp0 (thread_at s u)" for u
    using f same_blockD(1,3) by (simp_all add: sched_frame_def)
  have sel: "curr_thread ?s = n" "idle_thread ?s = idle_thread s" "process_at ?s = process_at s" "cr3 ?s = cr3 a"
    "tss_rsp0 ?s = tss_rsp0 a" "syscall_kernel_rsp ?s = syscall_kernel_rsp a"
    by (simp_all add: start_slice_def keep Let_def)
  have cr: "cr3 a = (if n \<noteq> idle_thread s \<and> ?load then space_of s n else cr3 s)"
    "n \<noteq> idle_thread s \<Longrightarrow> tss_rsp0 a = rsp0 (thread_at s n) \<and> syscall_kernel_rsp a = rsp0 (thread_at s n)"
    by (simp_all add: a_def use_stack_of_def load_cr3_def Let_def)
  have "cpu_fits s \<longrightarrow> cpu_fits ?s"
    using cr unfolding cpu_fits_def space_of_def sel m by (cases "n = idle_thread s") (simp_all split: if_splits)
  then show ?thesis
    using e wf f by (intro exI [of _ ?s]) (simp add: start_slice_def keep get_time_milliseconds_def Let_def)
qed

lemma switch_task_enter:
  "switch_task n s =
     (if curr_thread s = null \<or> n = null then halt NullDeref
      else ebind (if requeue s \<noteq> [] then ebind (add_ready_threads (curr_thread s) s) (\<lambda>s. ret (set_state ThreadRunning n s))
                  else ret s) (enter_thread n))"
  unfolding switch_task_def enter_thread_def requeue_def by (simp add: fun_eq_iff)

lemma switch_task_wf:
  assumes "sched_wf s R W" and "thread_ok s n" and "n \<notin> set R \<union> set W"
    and "requeue s \<noteq> [] \<Longrightarrow> curr_thread s \<notin> set R \<union> set W \<and> n \<noteq> curr_thread s"
  shows "\<exists>s'. switch_task n s = ret s' \<and> sched_wf s' (R @ requeue s) W \<and> curr_thread s' = n \<and> sched_frame s s'
    \<and> time_quantum_past s' = (time_quantum_past s \<and> requeue s = []) \<and> (cpu_fits s \<longrightarrow> cpu_fits s')
    \<and> st s' n = (if requeue s = [] then st s n else ThreadRunning)
    \<and> (\<forall>u. u \<noteq> n \<and> u \<notin> set (requeue s) \<longrightarrow> st s' u = st s u)
    \<and> exec_start_ms (thread_at s' n) = get_time_milliseconds s"
proof -
  have c: "thread_ok s (curr_thread s)" "curr_thread s \<noteq> null" "n \<noteq> null"
    using assms(1,2) by (auto simp: sched_wf_def thread_ok_def)
  show ?thesis
  proof (cases "requeue s = []")
    case True
    then show ?thesis using c enter_thread_wf [OF assms(1,2)] by (auto simp: switch_task_enter)
  next
    case False
    then have r: "requeue s = [curr_thread s]" "curr_thread s \<noteq> idle_thread s" by (auto simp: requeue_def split: if_splits)
    obtain a where a: "add_ready_threads (curr_thread s) s = ret a" "sched_wf a (R @ [curr_thread s]) W" "sched_frame s a"
      "curr_thread a = curr_thread s" "\<not> time_quantum_past a" "tss_rsp0 a = tss_rsp0 s"
      "syscall_kernel_rsp a = syscall_kernel_rsp s" "cr3 a = cr3 s" "\<forall>u. u \<noteq> curr_thread s \<longrightarrow> thread_at a u = thread_at s u"
      using add_ready_running [OF assms(1) c(1) _ r(2)] assms(4) False by blast
    let ?b = "set_state ThreadRunning n a"
    have fb: "sched_frame s ?b" using sched_frame_trans [OF a(3) set_state_frame] .
    have nq: "n \<notin> set (R @ [curr_thread s]) \<union> set W" using assms(3,4) False by auto
    have wb: "sched_wf ?b (R @ [curr_thread s]) W"
      using nq a(2) c(1) sched_frame_thread_ok [OF a(3)]
      by (intro sched_wf_frame [OF a(2) set_state_frame])
        (auto simp: sched_wf_def queues_def set_state_def a(4))
    have nb: "thread_ok ?b n" using sched_frame_thread_ok [OF fb] assms(2) by blast
    have fits: "cpu_fits ?b = cpu_fits s"
      using cpu_fits_frame [OF fb] a(4,6-8) by (simp add: set_state_def)
    obtain s' where s': "enter_thread n ?b = ret s'" "sched_wf s' (R @ [curr_thread s]) W" "curr_thread s' = n"
      "sched_frame ?b s'" "time_quantum_past s' = time_quantum_past ?b" "\<forall>u. st s' u = st ?b u"
      "cpu_fits ?b \<longrightarrow> cpu_fits s'" "exec_start_ms (thread_at s' n) = get_time_milliseconds ?b"
      using enter_thread_wf [OF wb nb] by blast
    have "tick ?b = tick s" using fb by (simp add: sched_frame_def)
    then have "get_time_milliseconds ?b = get_time_milliseconds s" by (simp add: get_time_milliseconds_def)
    moreover have "time_quantum_past ?b = time_quantum_past a" by (simp add: set_state_def)
    ultimately show ?thesis
      using s' a(1,5,9) False c r(1) fits sched_frame_trans [OF fb s'(4)] by (simp add: switch_task_enter)
  qed
qed

text \<open>The slice accounting at the start of \<open>schedule\<close>.\<close>

definition charge_quantum :: "'a sched_scheme \<Rightarrow> 'a sched_scheme" where
  "charge_quantum s =
     (if time_quantum_past s then
        (let s = upd_thread (curr_thread s) (\<lambda>b. b\<lparr>scheduled_time := scheduled_time b - DEFAULT_TIME_QUANTUM\<rparr>) s
         in if scheduled_time (thread_at s (curr_thread s)) = 0 then reset_scheduled_time (curr_thread s) s else s)
      else s)"

lemma charge_quantum_keeps:
  "sched_frame s (charge_quantum s)" "st (charge_quantum s) u = st s u" "curr_thread (charge_quantum s) = curr_thread s"
  "hook (charge_quantum s) = hook s" "ready_threads (charge_quantum s) = ready_threads s"
  "waiting_queue (charge_quantum s) = waiting_queue s" "time_quantum_past (charge_quantum s) = time_quantum_past s"
  "tss_rsp0 (charge_quantum s) = tss_rsp0 s" "syscall_kernel_rsp (charge_quantum s) = syscall_kernel_rsp s"
  "cr3 (charge_quantum s) = cr3 s" "idle_thread (charge_quantum s) = idle_thread s"
  by (simp_all add: charge_quantum_def reset_scheduled_time_def sched_frame_def same_block_def Let_def)

lemma schedule_next:
  assumes "queues s (x # R) W" and "task_switch_counter s = 0"
  shows "schedule s = switch_task x (set_state ThreadRunning x
    ((charge_quantum s)\<lparr>ready_threads := snd (pop_head (hook s) (ready_threads s))\<rparr>))"
proof -
  have "\<not> deque_empty (ready_threads s)" using queues_ready_empty [OF assms(1)] by simp
  moreover have "x \<noteq> null" using queues_nonnull [OF assms(1)] by auto
  moreover have "schedule s = (if task_switch_counter s \<noteq> 0 then ret (s\<lparr>task_switch_postponed := True\<rparr>)
      else if deque_empty (ready_threads s) then switch_task (idle_thread s) s
      else (let s1 = charge_quantum s; (n, q) = pop_head (hook s1) (ready_threads s1)
            in if n = null then halt NullDeref else switch_task n (set_state ThreadRunning n (s1\<lparr>ready_threads := q\<rparr>))))"
    by (simp add: schedule_def charge_quantum_def Let_def case_prod_beta)
  ultimately show ?thesis
    using assms(2) queues_ready_pop(1) [OF assms(1)] by (simp add: charge_quantum_keeps Let_def case_prod_beta)
qed

lemma schedule_wf:
  assumes wf: "sched_wf s R W" and "task_switch_counter s = 0"
    and out: "requeue s \<noteq> [] \<Longrightarrow> curr_thread s \<notin> set R \<union> set W" and "R \<noteq> [] \<Longrightarrow> hd R \<noteq> curr_thread s"
  shows "\<exists>s'. schedule s = ret s' \<and> sched_wf s' (tl R @ requeue s) W
    \<and> curr_thread s' = (if R = [] then idle_thread s else hd R) \<and> sched_frame s s'
    \<and> time_quantum_past s' = (time_quantum_past s \<and> requeue s = []) \<and> (cpu_fits s \<longrightarrow> cpu_fits s')
    \<and> (R \<noteq> [] \<longrightarrow> st s' (hd R) = ThreadRunning)
    \<and> (\<forall>u. u \<noteq> curr_thread s' \<and> u \<notin> set (requeue s) \<longrightarrow> st s' u = st s u)
    \<and> exec_start_ms (thread_at s' (curr_thread s')) = get_time_milliseconds s"
proof (cases R)
  case Nil
  have "deque_empty (ready_threads s)" using wf queues_ready_empty Nil by (auto simp: sched_wf_def)
  then have e: "schedule s = switch_task (idle_thread s) s" using assms(2) by (simp add: schedule_def)
  have i: "thread_ok s (idle_thread s)" "idle_thread s \<notin> set R \<union> set W" using wf by (auto simp: sched_wf_def)
  have "requeue s \<noteq> [] \<Longrightarrow> idle_thread s \<noteq> curr_thread s" by (auto simp: requeue_def split: if_splits)
  then show ?thesis
    using switch_task_wf [OF wf i] out Nil e by auto
next
  case (Cons x xs)
  have q: "queues s (x # xs) W" and x: "x \<notin> set xs" "x \<notin> set W" "x \<noteq> idle_thread s" "thread_ok s x" "x \<noteq> curr_thread s"
    using wf Cons assms(4) queues_distinct [of s R W] by (auto simp: sched_wf_def)
  define a where "a = (charge_quantum s)\<lparr>ready_threads := snd (pop_head (hook s) (ready_threads s))\<rparr>"
  define b where "b = set_state ThreadRunning x a"
  have fa: "sched_frame s a" using charge_quantum_keeps(1) [of s] by (simp add: a_def sched_frame_def)
  have qa: "queues a xs W"
    using queues_ready_pop(2) [OF q] by (simp add: a_def charge_quantum_keeps queues_def)
  have fb: "sched_frame s b" unfolding b_def by (rule sched_frame_trans [OF fa set_state_frame])
  have sel: "curr_thread b = curr_thread s" "idle_thread b = idle_thread s" "time_quantum_past b = time_quantum_past s"
    "tss_rsp0 b = tss_rsp0 s" "syscall_kernel_rsp b = syscall_kernel_rsp s" "cr3 b = cr3 s"
    "st b u = (if u = x then ThreadRunning else st s u)" for u
    by (simp_all add: b_def a_def set_state_def charge_quantum_keeps)
  have qb: "queues b xs W" using qa by (simp add: b_def set_state_def queues_def)
  have wb: "sched_wf b xs W"
    using wf x Cons qb sel sched_frame_thread_ok [OF fb] by (auto simp: sched_wf_def)
  have rb: "requeue b = requeue s" using x(5) by (simp add: requeue_def sel)
  obtain s' where s': "switch_task x b = ret s'" "sched_wf s' (xs @ requeue b) W" "curr_thread s' = x" "sched_frame b s'"
    "time_quantum_past s' = (time_quantum_past b \<and> requeue b = [])" "cpu_fits b \<longrightarrow> cpu_fits s'"
    "st s' x = (if requeue b = [] then st b x else ThreadRunning)"
    "\<forall>u. u \<noteq> x \<and> u \<notin> set (requeue b) \<longrightarrow> st s' u = st b u" "exec_start_ms (thread_at s' x) = get_time_milliseconds b"
    using switch_task_wf [OF wb, of x] x out rb sel sched_frame_thread_ok [OF fb] Cons by auto
  have "get_time_milliseconds b = get_time_milliseconds s" using fb by (simp add: sched_frame_def get_time_milliseconds_def)
  moreover have "cpu_fits b = cpu_fits s" by (rule cpu_fits_frame [OF fb]) (simp_all add: sel)
  moreover have "schedule s = switch_task x b" using schedule_next [OF q assms(2)] by (simp add: a_def b_def)
  ultimately show ?thesis
    using s' rb sel Cons sched_frame_trans [OF fb s'(4)] by simp
qed

lemma schedule_runs:
  assumes "sched_wf s R W" and "R \<noteq> [] \<Longrightarrow> hd R \<noteq> curr_thread s"
    and "sched_wf s' (tl R @ requeue s) W" and "curr_thread s' = (if R = [] then idle_thread s else hd R)"
    and "R \<noteq> [] \<longrightarrow> st s' (hd R) = ThreadRunning" and "idle_thread s' = idle_thread s"
  shows "runs s' (tl R @ requeue s) W"
proof (cases R)
  case Nil
  then show ?thesis using assms(3,4,6) by (auto simp: runs_def sched_wf_def)
next
  case (Cons x xs)
  have "x \<notin> set xs" "x \<notin> set W" using assms(1) queues_distinct [of s R W] Cons by (auto simp: sched_wf_def)
  moreover have "x \<notin> set (requeue s)" using assms(2) Cons by (auto simp: requeue_def)
  ultimately show ?thesis using assms(4,5) Cons by (auto simp: runs_def)
qed

section \<open>Operations under the scheduler lock\<close>

text \<open>What every operation keeps: the idle thread, the processes, the time, and the other fields of the threads.\<close>

definition kept :: "'a sched_scheme \<Rightarrow> 'a sched_scheme \<Rightarrow> bool" where
  "kept s s' \<longleftrightarrow> idle_thread s' = idle_thread s \<and> process_at s' = process_at s \<and> tick s' = tick s
     \<and> (\<forall>t. same_block (thread_at s t) (thread_at s' t))"

lemma sched_frame_kept: "sched_frame s s' \<Longrightarrow> kept s s'"
  by (simp add: sched_frame_def kept_def)

lemma lock_scheduler_keeps [simp]:
  "thread_at (lock_scheduler s) = thread_at s" "process_at (lock_scheduler s) = process_at s"
  "hook (lock_scheduler s) = hook s" "ready_threads (lock_scheduler s) = ready_threads s"
  "waiting_queue (lock_scheduler s) = waiting_queue s" "curr_thread (lock_scheduler s) = curr_thread s"
  "idle_thread (lock_scheduler s) = idle_thread s" "tick (lock_scheduler s) = tick s"
  "time_quantum_past (lock_scheduler s) = time_quantum_past s" "tss_rsp0 (lock_scheduler s) = tss_rsp0 s"
  "syscall_kernel_rsp (lock_scheduler s) = syscall_kernel_rsp s" "cr3 (lock_scheduler s) = cr3 s"
  "disable_counter (lock_scheduler s) = disable_counter s + 1"
  "task_switch_counter (lock_scheduler s) = task_switch_counter s + 1"
  "task_switch_postponed (lock_scheduler s) = task_switch_postponed s"
  by (simp_all add: lock_scheduler_def Let_def)

lemma sched_wf_same:
  assumes "thread_at s' = thread_at s" "hook s' = hook s" "ready_threads s' = ready_threads s"
    "waiting_queue s' = waiting_queue s" "curr_thread s' = curr_thread s" "idle_thread s' = idle_thread s"
  shows "sched_wf s' R W = sched_wf s R W" "requeue s' = requeue s"
  using assms by (simp_all add: sched_wf_def queues_def requeue_def thread_ok_def)

lemma cpu_fits_same:
  assumes "thread_at s' = thread_at s" "process_at s' = process_at s" "curr_thread s' = curr_thread s"
    "idle_thread s' = idle_thread s" "tss_rsp0 s' = tss_rsp0 s" "syscall_kernel_rsp s' = syscall_kernel_rsp s" "cr3 s' = cr3 s"
  shows "cpu_fits s' = cpu_fits s"
  using assms by (simp add: cpu_fits_def space_of_def)

text \<open>A switch asked for under the lock is postponed to the end of the locked section.\<close>

lemma locked_switch:
  assumes wf: "sched_wf m R W" and lk: "disable_counter m = 1" "task_switch_counter m = 1"
    and out: "requeue m \<noteq> [] \<Longrightarrow> curr_thread m \<notin> set R \<union> set W" and hd: "R \<noteq> [] \<Longrightarrow> hd R \<noteq> curr_thread m"
  shows "\<exists>s'. ebind (schedule m) unlock_scheduler = ret s' \<and> sched_wf s' (tl R @ requeue m) W
    \<and> runs s' (tl R @ requeue m) W \<and> curr_thread s' = (if R = [] then idle_thread m else hd R) \<and> kept m s'
    \<and> time_quantum_past s' = (time_quantum_past m \<and> requeue m = []) \<and> (cpu_fits m \<longrightarrow> cpu_fits s') \<and> unlocked s'
    \<and> (\<forall>u. u \<noteq> curr_thread s' \<and> u \<notin> set (requeue m) \<longrightarrow> st s' u = st m u)
    \<and> interrupts_on (rflags s') \<and> exec_start_ms (thread_at s' (curr_thread s')) = get_time_milliseconds m"
proof -
  let ?m = "m\<lparr>task_switch_counter := 0, task_switch_postponed := False\<rparr>"
  have same: "sched_wf ?m R W = sched_wf m R W" "requeue ?m = requeue m" "cpu_fits ?m = cpu_fits m"
    using sched_wf_same [of ?m m] cpu_fits_same [of ?m m] by simp_all
  have sel: "curr_thread ?m = curr_thread m" "idle_thread ?m = idle_thread m" "task_switch_counter ?m = 0"
    "time_quantum_past ?m = time_quantum_past m" by simp_all
  obtain a where a: "schedule ?m = ret a" "sched_wf a (tl R @ requeue m) W"
    "curr_thread a = (if R = [] then idle_thread m else hd R)" "sched_frame ?m a"
    "time_quantum_past a = (time_quantum_past m \<and> requeue m = [])" "cpu_fits m \<longrightarrow> cpu_fits a"
    "R \<noteq> [] \<longrightarrow> st a (hd R) = ThreadRunning" "\<forall>u. u \<noteq> curr_thread a \<and> u \<notin> set (requeue m) \<longrightarrow> st a u = st ?m u"
    "exec_start_ms (thread_at a (curr_thread a)) = get_time_milliseconds ?m"
    using schedule_wf [of ?m R W, unfolded same sel, OF wf refl out hd] by blast
  have r: "runs a (tl R @ requeue m) W"
    using schedule_runs [of ?m R W a] wf hd a unfolding same by (simp add: sched_frame_def)
  let ?s = "a\<lparr>disable_counter := 0, rflags := sti (rflags a)\<rparr>"
  have "schedule m = ret (m\<lparr>task_switch_postponed := True\<rparr>)" using lk by (simp add: schedule_def)
  moreover have "disable_counter a = 1" "task_switch_counter a = 0" "\<not> task_switch_postponed a"
    using a(4) lk by (simp_all add: sched_frame_def)
  ultimately have e: "ebind (schedule m) unlock_scheduler = ret ?s"
    using a(1) lk by (simp add: unlock_scheduler_def Let_def)
  have "unlocked ?s" using \<open>task_switch_counter a = 0\<close> \<open>\<not> task_switch_postponed a\<close> by (simp add: unlocked_def)
  moreover have "kept m ?s" using a(4) by (simp add: sched_frame_def kept_def)
  moreover have "get_time_milliseconds ?m = get_time_milliseconds m" by (simp add: get_time_milliseconds_def)
  moreover have "sched_wf ?s (tl R @ requeue m) W" "cpu_fits ?s = cpu_fits a"
    using a(2) sched_wf_same(1) [of ?s a] cpu_fits_same [of ?s a] by simp_all
  moreover have "runs ?s (tl R @ requeue m) W" using r by (simp add: runs_def)
  ultimately show ?thesis using e a by simp
qed

section \<open>Each operation on the queues\<close>

lemma upd_thread_upd: "upd_thread t g (upd_thread t f s) = upd_thread t (\<lambda>b. g (f b)) s"
  by (simp add: upd_thread_def)

lemma sched_invD:
  assumes "sched_inv s R W"
  shows "sched_wf s R W" "queues s R W" "curr_thread s \<notin> set R \<union> set W" "cpu_fits s"
    "thread_ok s (curr_thread s)" "curr_thread s \<noteq> null" "disable_counter s = 0" "task_switch_counter s = 0"
    "\<not> task_switch_postponed s" "unlocked s" "idle_thread s \<notin> set R \<union> set W"
    "curr_thread s \<noteq> idle_thread s \<Longrightarrow> st s (curr_thread s) = ThreadRunning"
  using assms by (auto simp: sched_inv_def sched_wf_def runs_def unlocked_def thread_ok_def)

text \<open>The running thread marked and appended to the waiting queue, under the lock.\<close>

lemma park_current:
  assumes inv: "sched_inv s R W" and "curr_thread s \<noteq> idle_thread s"
    and f: "\<And>b. t_state (f b) = ThreadBlocked \<or> t_state (f b) = ThreadSleep" "\<And>b. m_process (f b) = m_process b"
      "\<And>b. rsp0 (f b) = rsp0 b"
    and m: "m = waiting_push_tail (curr_thread s) (upd_thread (curr_thread s) f (lock_scheduler s))"
  shows "\<exists>s'. ebind (schedule m) unlock_scheduler = ret s' \<and> sched_inv s' (tl R) (W @ [curr_thread s])
    \<and> curr_thread s' = (if R = [] then idle_thread s else hd R) \<and> kept m s' \<and> interrupts_on (rflags s')
    \<and> (\<forall>u. u \<noteq> curr_thread s' \<longrightarrow> st s' u = st m u)"
proof -
  note i = sched_invD [OF inv]
  have "queues (upd_thread (curr_thread s) f (lock_scheduler s)) R W" using i(2) by (simp add: queues_def)
  from queues_waiting_push [OF this i(6,3)] have q: "queues m R (W @ [curr_thread s])" by (simp only: m)
  have t: "thread_at m u = (if u = curr_thread s then f (thread_at s u) else thread_at s u)" for u by (simp add: m)
  have sel: "curr_thread m = curr_thread s" "idle_thread m = idle_thread s" "disable_counter m = 1"
    "task_switch_counter m = 1" "time_quantum_past m = time_quantum_past s" "process_at m = process_at s"
    "tss_rsp0 m = tss_rsp0 s" "syscall_kernel_rsp m = syscall_kernel_rsp s" "cr3 m = cr3 s"
    using i(7,8) by (simp_all add: m)
  have ok: "thread_ok m u = thread_ok s u" for u by (simp add: thread_ok_def t f)
  have "sched_wf m R (W @ [curr_thread s])"
    using i(1,3) q f(1) assms(2) by (auto simp: sched_wf_def sel ok t)
  moreover have rq: "requeue m = []" using f(1) by (metis (no_types, lifting) ThreadState.distinct(8,10) requeue_def sel(1) t)
  moreover have "R \<noteq> [] \<Longrightarrow> hd R \<noteq> curr_thread m" using i(3) hd_in_set [of R] by (metis UnI1 sel(1))
  moreover have "cpu_fits m" using i(4) assms(2) by (simp add: cpu_fits_def space_of_def sel t f)
  ultimately show ?thesis
    using locked_switch [of m R "W @ [curr_thread s]"] i(10) by (fastforce simp: sel sched_inv_def)
qed

lemma kept_upd:
  assumes "kept m s'" and "thread_at m = thread_at (upd_thread t f s)" "process_at m = process_at s"
    "idle_thread m = idle_thread s" "tick m = tick s" and "\<And>b. same_block b (f b)"
  shows "kept s s'"
  unfolding kept_def
proof (intro conjI allI)
  fix u
  have "same_block (thread_at s u) (thread_at m u)" using assms(2,6) by simp
  moreover have "same_block (thread_at m u) (thread_at s' u)" using assms(1) by (simp add: kept_def)
  ultimately show "same_block (thread_at s u) (thread_at s' u)" by (rule same_block_trans)
qed (use assms in \<open>simp_all add: kept_def\<close>)

lemma not_current:
  assumes "sched_inv s R W" and "curr_thread s \<noteq> idle_thread s"
  shows "(if R = [] then idle_thread s else hd R) \<noteq> curr_thread s"
  using assms sched_invD(3) [OF assms(1)] hd_in_set [of R] by (cases R) auto

lemma sleep_inv:
  assumes inv: "sched_inv s R W" and "curr_thread s \<noteq> idle_thread s"
  shows "\<exists>s'. sched_sleep milli s = ret s' \<and> sched_inv s' (tl R) (W @ [curr_thread s])
    \<and> curr_thread s' = (if R = [] then idle_thread s else hd R) \<and> idle_thread s' = idle_thread s
    \<and> st s' (curr_thread s) = ThreadSleep \<and> sleep_time (thread_at s' (curr_thread s)) = milli"
proof -
  note i = sched_invD [OF inv]
  let ?c = "curr_thread s"
  let ?m = "waiting_push_tail ?c (upd_thread ?c (\<lambda>b. b\<lparr>sleep_time := milli, t_state := ThreadSleep\<rparr>) (lock_scheduler s))"
  have e: "sched_sleep milli s = ebind (schedule ?m) unlock_scheduler"
    using i(6) by (simp add: sched_sleep_def set_state_def upd_thread_upd Let_def)
  obtain s' where s': "ebind (schedule ?m) unlock_scheduler = ret s'" "sched_inv s' (tl R) (W @ [?c])"
    "curr_thread s' = (if R = [] then idle_thread s else hd R)" "kept ?m s'" "\<forall>u. u \<noteq> curr_thread s' \<longrightarrow> st s' u = st ?m u"
    using park_current [OF assms, of "\<lambda>b. b\<lparr>sleep_time := milli, t_state := ThreadSleep\<rparr>"] by auto
  have "same_block (thread_at ?m ?c) (thread_at s' ?c)" using s'(4) unfolding kept_def by blast
  from same_blockD(4) [OF this] have "sleep_time (thread_at s' ?c) = milli" by simp
  moreover have "st s' ?c = ThreadSleep" using s'(3,5) not_current [OF assms] by simp
  moreover have "idle_thread s' = idle_thread s" using s'(4) by (simp add: kept_def)
  ultimately show ?thesis using e s'(1-3) by simp
qed

lemma block_inv:
  assumes inv: "sched_inv s R W" and "curr_thread s \<noteq> idle_thread s"
  shows "\<exists>s'. sched_block s = ret s' \<and> sched_inv s' (tl R) (W @ [curr_thread s])
    \<and> curr_thread s' = (if R = [] then idle_thread s else hd R) \<and> st s' (curr_thread s) = ThreadBlocked \<and> kept s s'"
proof -
  note i = sched_invD [OF inv]
  let ?c = "curr_thread s"
  let ?m = "waiting_push_tail ?c (upd_thread ?c (\<lambda>b. b\<lparr>t_state := ThreadBlocked\<rparr>) (lock_scheduler s))"
  have e: "sched_block s = ebind (schedule ?m) unlock_scheduler"
    using i(6) by (simp add: sched_block_def set_state_def Let_def)
  obtain s' where s': "ebind (schedule ?m) unlock_scheduler = ret s'" "sched_inv s' (tl R) (W @ [?c])"
    "curr_thread s' = (if R = [] then idle_thread s else hd R)" "kept ?m s'" "\<forall>u. u \<noteq> curr_thread s' \<longrightarrow> st s' u = st ?m u"
    using park_current [OF assms, of "\<lambda>b. b\<lparr>t_state := ThreadBlocked\<rparr>"] by auto
  have "kept s s'"
    by (rule kept_upd [OF s'(4), where f = "\<lambda>b. b\<lparr>t_state := ThreadBlocked\<rparr>" and t = ?c])
      (simp_all add: same_block_def fun_eq_iff)
  moreover have "st s' ?c = ThreadBlocked" using s'(3,5) not_current [OF assms] by simp
  ultimately show ?thesis using e s'(1-3) by simp
qed

lemma yield_inv:
  assumes inv: "sched_inv s R W" and "curr_thread s \<noteq> idle_thread s" and "R \<noteq> []"
  shows "\<exists>s'. sched_yield s = ret s' \<and> sched_inv s' (tl R @ [curr_thread s]) W
    \<and> curr_thread s' = hd R \<and> kept s s'"
proof -
  note i = sched_invD [OF inv]
  let ?c = "curr_thread s" and ?f = "\<lambda>b :: ThreadBlock. b\<lparr>t_state := ThreadReady, scheduled_time := DEFAULT_SCHEDULE_TIME_MS\<rparr>"
  define m where "m = ready_push_tail ?c (upd_thread ?c ?f (lock_scheduler s))"
  have e: "sched_yield s = ebind (schedule m) unlock_scheduler"
    using i(6) by (simp add: m_def sched_yield_def set_state_def reset_scheduled_time_def upd_thread_upd Let_def)
  have "queues (upd_thread ?c ?f (lock_scheduler s)) R W" using i(2) by (simp add: queues_def)
  from queues_ready_push [OF this i(6,3)] have q: "queues m (R @ [?c]) W" by (simp only: m_def)
  have t: "thread_at m u = (if u = ?c then ?f (thread_at s u) else thread_at s u)" for u by (simp add: m_def)
  have sel: "curr_thread m = ?c" "idle_thread m = idle_thread s" "disable_counter m = 1"
    "task_switch_counter m = 1" "time_quantum_past m = time_quantum_past s" "process_at m = process_at s" "tick m = tick s"
    "tss_rsp0 m = tss_rsp0 s" "syscall_kernel_rsp m = syscall_kernel_rsp s" "cr3 m = cr3 s"
    using i(7,8) by (simp_all add: m_def)
  have ok: "thread_ok m u = thread_ok s u" for u by (simp add: thread_ok_def t)
  have wf: "sched_wf m (R @ [?c]) W" using i(1,3) q assms(2) by (auto simp: sched_wf_def sel ok t)
  have rq: "requeue m = []" by (simp add: requeue_def t sel)
  have hd: "hd (R @ [?c]) \<noteq> ?c" using not_current [OF inv assms(2)] assms(3) by simp
  have fits: "cpu_fits m" using i(4) by (simp add: cpu_fits_def space_of_def sel t)
  obtain s' where s': "ebind (schedule m) unlock_scheduler = ret s'" "sched_wf s' (tl R @ [?c]) W"
    "runs s' (tl R @ [?c]) W" "curr_thread s' = hd R" "kept m s'" "time_quantum_past s' = time_quantum_past m" "cpu_fits s'" "unlocked s'"
    using locked_switch [OF wf sel(3,4)] rq hd fits assms(3) unfolding sel by auto
  have "kept s s'"
    by (rule kept_upd [OF s'(5), where f = ?f and t = ?c]) (simp_all add: same_block_def fun_eq_iff t sel)
  then show ?thesis using e s' i(10) sel by (simp add: sched_inv_def)
qed

lemma add_ready_inv:
  assumes inv: "sched_inv s R W" and "thread_ok s t" and "t \<notin> set R \<union> set W" and "t \<noteq> idle_thread s" and "t \<noteq> curr_thread s"
  shows "\<exists>s'. add_ready_threads t s = ret s' \<and> sched_inv s' (R @ [t]) W \<and> curr_thread s' = curr_thread s \<and> kept s s'"
proof -
  note i = sched_invD [OF inv]
  obtain s' where s': "add_ready_threads t s = ret s'" "sched_wf s' (R @ [t]) W" "sched_frame s s'"
    "curr_thread s' = curr_thread s" "\<forall>u. u \<noteq> t \<longrightarrow> thread_at s' u = thread_at s u"
    "tss_rsp0 s' = tss_rsp0 s" "syscall_kernel_rsp s' = syscall_kernel_rsp s" "cr3 s' = cr3 s"
    using add_ready_running [OF i(1) assms(2-4)] by blast
  have "cpu_fits s'" using cpu_fits_frame [OF s'(3,4,8,6,7)] i(4) by simp
  moreover have "runs s' (R @ [t]) W" using s'(3-5) assms(5) inv by (simp add: runs_def sched_inv_def sched_frame_def)
  moreover have "unlocked s'" using s'(3) i(10) by (simp add: unlocked_def sched_frame_def)
  ultimately show ?thesis using s'(1,2,4) sched_frame_kept [OF s'(3)] by (simp add: sched_inv_def)
qed

section \<open>Waking threads\<close>

text \<open>The fields of the scheduler that waking a thread into the ready queue leaves alone.\<close>

definition same_control :: "'a sched_scheme \<Rightarrow> 'a sched_scheme \<Rightarrow> bool" where
  "same_control s s' \<longleftrightarrow> curr_thread s' = curr_thread s \<and> idle_thread s' = idle_thread s \<and> process_at s' = process_at s
     \<and> tick s' = tick s \<and> disable_counter s' = disable_counter s \<and> task_switch_counter s' = task_switch_counter s
     \<and> task_switch_postponed s' = task_switch_postponed s \<and> time_quantum_past s' = time_quantum_past s
     \<and> tss_rsp0 s' = tss_rsp0 s \<and> syscall_kernel_rsp s' = syscall_kernel_rsp s \<and> cr3 s' = cr3 s"

lemma same_control_refl [simp]: "same_control s s"
  by (simp add: same_control_def)

lemma same_control_trans: "same_control s s' \<Longrightarrow> same_control s' s'' \<Longrightarrow> same_control s s''"
  by (simp add: same_control_def)

lemma same_control_upd [simp]: "same_control s (upd_thread t f s)"
  by (simp add: same_control_def)

definition woken :: "ThreadBlock \<Rightarrow> ThreadBlock" where
  "woken b = b\<lparr>sleep_time := 0, t_state := ThreadReady\<rparr>"

lemma unblock_queues:
  assumes wf: "sched_wf s R W" and "t \<in> set W" and busy: "\<not> (R = [] \<and> curr_thread s = idle_thread s)"
    and "task_switch_counter s \<noteq> 0 \<or> \<not> task_switch_postponed s"
  shows "\<exists>s'. unblock t s = ret s' \<and> sched_wf s' (R @ [t]) (remove1 t W) \<and> same_control s s'
    \<and> thread_at s' = (thread_at s)(t := woken (thread_at s t))
    \<and> rflags s' = (if disable_counter s = 0 then sti (cli (rflags s)) else cli (rflags s))"
proof -
  have t: "t \<noteq> null" "t \<notin> set R" "t \<noteq> idle_thread s" and q: "queues s R W"
    using wf assms(2) by (auto simp: sched_wf_def queues_def thread_ok_def)
  have "queues (lock_scheduler s) R W" using q by (simp add: queues_def)
  from queues_waiting_remove [OF this t(1)]
  obtain a where a: "waiting_remove t (lock_scheduler s) = ret a" "requeued (lock_scheduler s) a" "queues a R (remove1 t W)" by blast
  note ka = requeued_keeps [OF a(2), simplified]
  define b where "b = upd_thread t woken a"
  have b: "set_state ThreadReady t (upd_thread t (\<lambda>t. t\<lparr>sleep_time := 0\<rparr>) a) = b"
    by (simp add: b_def set_state_def upd_thread_upd woken_def [abs_def])
  have qb: "queues b R (remove1 t W)" using a(3) by (simp add: b_def queues_def)
  define c where "c = ready_push_tail t b"
  have d: "t \<notin> set (remove1 t W)" using queues_distinct [OF q] by simp
  have qc: "queues c (R @ [t]) (remove1 t W)" unfolding c_def using queues_ready_push [OF qb t(1)] t(2) d by simp
  have nb: "\<not> (deque_empty (ready_threads b) \<and> curr_thread b = idle_thread b)"
    using busy queues_ready_empty [OF qb] ka by (auto simp: b_def)
  let ?s = "c\<lparr>task_switch_counter := task_switch_counter s, disable_counter := disable_counter s,
    rflags := (if disable_counter s = 0 then sti (cli (rflags s)) else cli (rflags s))\<rparr>"
  have kc: "thread_at c = (thread_at s)(t := woken (thread_at s t))" "process_at c = process_at s" "curr_thread c = curr_thread s"
    "idle_thread c = idle_thread s" "tick c = tick s" "disable_counter c = disable_counter s + 1"
    "task_switch_counter c = task_switch_counter s + 1" "task_switch_postponed c = task_switch_postponed s"
    "time_quantum_past c = time_quantum_past s" "tss_rsp0 c = tss_rsp0 s" "syscall_kernel_rsp c = syscall_kernel_rsp s"
    "cr3 c = cr3 s" "rflags c = cli (rflags s)"
    using ka by (simp_all add: c_def b_def fun_eq_iff lock_scheduler_def Let_def)
  have "unblock t s = unlock_scheduler c"
    using t(1) by (simp only: unblock_def Let_def a(1) ebind_simps b if_False if_not_P [OF nb] c_def)
  moreover have "unlock_scheduler c = ret ?s" using kc assms(4) by (auto simp: unlock_scheduler_def Let_def)
  ultimately have e: "unblock t s = ret ?s" by simp
  have "thread_ok ?s u = thread_ok s u" for u by (simp add: thread_ok_def kc woken_def)
  moreover have "queues ?s (R @ [t]) (remove1 t W)" using qc by (simp add: queues_def)
  moreover have "set (remove1 t W) \<subseteq> set W" by (rule set_remove1_subset)
  ultimately have "sched_wf ?s (R @ [t]) (remove1 t W)"
    using wf t d assms(2) unfolding sched_wf_def by (auto simp: kc woken_def)
  then show ?thesis using e kc by (intro exI [of _ ?s]) (simp add: same_control_def)
qed

text \<open>What one tick does to a waiting thread.\<close>

definition due :: "ThreadBlock \<Rightarrow> bool" where
  "due b \<longleftrightarrow> t_state b \<noteq> ThreadBlocked \<and> sleep_time b \<le> 1"

definition tick_thread :: "ThreadBlock \<Rightarrow> ThreadBlock" where
  "tick_thread b = (if t_state b = ThreadBlocked then b else if due b then woken b else b\<lparr>sleep_time := sleep_time b - 1\<rparr>)"

lemma word_le_1_iff: "(x :: u64) \<le> 1 \<longleftrightarrow> x = 0 \<or> x = 1"
proof -
  have "x \<le> 1 \<longleftrightarrow> unat x \<le> 1" by (simp add: word_le_nat_alt)
  also have "\<dots> \<longleftrightarrow> unat x = 0 \<or> unat x = unat (1 :: u64)" by auto
  finally show ?thesis by (simp only: word_unat_eq_iff unat_0)
qed

lemma wake_sleeper_wf:
  assumes wf: "sched_wf s R W" and "t \<in> set W" and lk: "task_switch_counter s \<noteq> 0" "disable_counter s \<noteq> 0"
    and busy: "due (thread_at s t) \<Longrightarrow> \<not> (R = [] \<and> curr_thread s = idle_thread s)"
  shows "\<exists>s'. wake_sleeper t s = ret s' \<and> same_control s s'
    \<and> thread_at s' = (thread_at s)(t := tick_thread (thread_at s t))
    \<and> sched_wf s' (if due (thread_at s t) then R @ [t] else R) (if due (thread_at s t) then remove1 t W else W)"
proof -
  let ?b = "thread_at s t"
  define a where "a = (if sleep_time ?b > 0 then upd_thread t (\<lambda>t. t\<lparr>sleep_time := sleep_time t - 1\<rparr>) s else s)"
  have ta: "thread_at a = (thread_at s)(t := ?b\<lparr>sleep_time := sleep_time ?b - (if sleep_time ?b > 0 then 1 else 0)\<rparr>)"
    by (simp add: a_def fun_eq_iff)
  have ca: "same_control s a" by (simp add: a_def)
  have qa: "queues a R W" using wf by (simp add: a_def sched_wf_def queues_def)
  have wa: "sched_wf a R W"
    using wf qa ca by (auto simp: sched_wf_def ta thread_ok_def same_control_def)
  show ?thesis
  proof (cases "t_state ?b = ThreadBlocked")
    case True
    then show ?thesis using wf by (intro exI [of _ s]) (simp add: wake_sleeper_def tick_thread_def due_def)
  next
    case False
    then have e: "wake_sleeper t s = (if sleep_time (thread_at a t) = 0 then unblock t a else ret a)"
      by (simp add: wake_sleeper_def a_def Let_def)
    show ?thesis
    proof (cases "due ?b")
      case True
      then have z: "sleep_time (thread_at a t) = 0" by (auto simp: ta due_def word_le_1_iff)
      have "\<not> (R = [] \<and> curr_thread a = idle_thread a)" using busy True ca by (simp add: same_control_def)
      then obtain s' where "unblock t a = ret s'" "sched_wf s' (R @ [t]) (remove1 t W)" "same_control a s'"
        "thread_at s' = (thread_at a)(t := woken (thread_at a t))"
        using unblock_queues [OF wa assms(2)] lk ca by (auto simp: same_control_def)
      then show ?thesis
        using e z True False same_control_trans [OF ca] by (auto simp: ta tick_thread_def woken_def)
    next
      case nd: False
      then have "1 < sleep_time ?b" using False by (simp add: due_def not_le)
      then have "sleep_time (thread_at a t) \<noteq> 0" "sleep_time ?b > 0" by (auto simp: ta word_less_nat_alt unat_eq_zero)
      then show ?thesis
        using e nd False ca wa by (intro exI [of _ a]) (simp add: ta tick_thread_def)
    qed
  qed
qed

text \<open>The iterator points at the first of the threads still to visit and has read the second.\<close>

definition front :: "ptr list \<Rightarrow> ptr" where
  "front xs = (case xs of [] \<Rightarrow> null | x # _ \<Rightarrow> x)"

definition at :: "Iterator \<Rightarrow> ptr list \<Rightarrow> bool" where
  "at it xs \<longleftrightarrow> it_ptr it = front xs \<and> (xs \<noteq> [] \<longrightarrow> it_next it = front (tl xs))"

lemma deque_rep_next: "deque_rep nx d (as @ x # bs) \<Longrightarrow> nx x = front bs"
  by (cases bs) (auto simp: deque_rep_def front_def dest: chain_next chain_next_last)

lemma at_begin: "deque_rep nx d xs \<Longrightarrow> at (begin_it nx d) xs"
  using deque_rep_next [of nx d "[]" "hd xs" "tl xs"]
  by (cases xs) (auto simp: at_def begin_it_def Iterator_start_def front_def deque_rep_def empty_deque_def)

lemma at_inc:
  assumes "at it (x # xs)" and "deque_rep nx d (as @ xs)"
  shows "at (Iterator_inc nx it) xs"
proof (cases xs)
  case Nil
  then show ?thesis using assms(1) by (simp add: at_def Iterator_inc_def front_def)
next
  case (Cons y ys)
  then have "y \<noteq> null" "nx y = front ys"
    using assms(2) deque_rep_nonnull [OF assms(2)] deque_rep_next [of nx d as y ys] by auto
  then show ?thesis using assms(1) Cons by (simp add: at_def Iterator_inc_def front_def)
qed

lemma wake_loop_wf:
  assumes "sched_wf s R (pre @ xs)" and "at it xs" and "task_switch_counter s \<noteq> 0" and "disable_counter s \<noteq> 0"
    and "R = [] \<Longrightarrow> curr_thread s = idle_thread s \<Longrightarrow> \<forall>x\<in>set xs. \<not> due (thread_at s x)"
  shows "\<exists>s'. wake_loop it s = ret s' \<and> same_control s s'
    \<and> thread_at s' = (\<lambda>u. if u \<in> set xs then tick_thread (thread_at s u) else thread_at s u)
    \<and> sched_wf s' (R @ filter (\<lambda>x. due (thread_at s x)) xs) (pre @ filter (\<lambda>x. \<not> due (thread_at s x)) xs)"
  using assms
proof (induction xs arbitrary: s it pre R)
  case Nil
  then show ?case by (subst wake_loop.simps) (simp add: at_def front_def)
next
  case (Cons x xs)
  let ?d = "due (thread_at s x)"
  let ?R = "if ?d then R @ [x] else R" and ?p = "if ?d then pre else pre @ [x]"
  have dist: "x \<notin> set pre" "x \<notin> set xs" "x \<noteq> null"
    using Cons.prems(1) queues_distinct [of s R "pre @ x # xs"] queues_nonnull [of s R "pre @ x # xs"] by (auto simp: sched_wf_def)
  obtain a where a: "wake_sleeper x s = ret a" "same_control s a" "thread_at a = (thread_at s)(x := tick_thread (thread_at s x))"
    "sched_wf a ?R (if ?d then remove1 x (pre @ x # xs) else pre @ x # xs)"
    using wake_sleeper_wf [OF Cons.prems(1), of x] Cons.prems(3-5) by auto
  then have wa: "sched_wf a ?R (?p @ xs)" using dist by (simp add: remove1_append split: if_splits)
  then have "deque_rep (hook a) (waiting_queue a) (?p @ xs)" by (simp add: sched_wf_def queues_def)
  from at_inc [OF Cons.prems(2) this] have at: "at (Iterator_inc (hook a) it) xs" .
  have keep: "thread_at a u = thread_at s u" if "u \<in> set xs" for u using that dist a(3) by auto
  obtain s' where s': "wake_loop (Iterator_inc (hook a) it) a = ret s'" "same_control a s'"
    "thread_at s' = (\<lambda>u. if u \<in> set xs then tick_thread (thread_at a u) else thread_at a u)"
    "sched_wf s' (?R @ filter (\<lambda>x. due (thread_at a x)) xs) (?p @ filter (\<lambda>x. \<not> due (thread_at a x)) xs)"
    using Cons.IH [OF wa at] a(2) Cons.prems(3-5) keep by (fastforce simp: same_control_def split: if_splits)
  have f: "filter (\<lambda>x. due (thread_at a x)) xs = filter (\<lambda>x. due (thread_at s x)) xs"
    "filter (\<lambda>x. \<not> due (thread_at a x)) xs = filter (\<lambda>x. \<not> due (thread_at s x)) xs"
    using keep by (auto intro: filter_cong)
  have "wake_loop it s = ret s'"
    using a(1) s'(1) Cons.prems(2) dist by (subst wake_loop.simps) (simp add: at_def front_def)
  moreover have "thread_at s' = (\<lambda>u. if u \<in> set (x # xs) then tick_thread (thread_at s u) else thread_at s u)"
    using s'(3) a(3) dist by (auto simp: fun_eq_iff)
  moreover note same_control_trans [OF a(2) s'(2)]
  ultimately show ?case using s'(4) unfolding f by (auto split: if_splits)
qed

section \<open>The timer tick\<close>

definition slice_over :: "'a sched_scheme \<Rightarrow> bool" where
  "slice_over s \<longleftrightarrow>
     (let delta = get_time_milliseconds s - exec_start_ms (thread_at s (curr_thread s))
      in scheduled_time (thread_at s (curr_thread s)) \<le> delta \<or> delta = DEFAULT_TIME_QUANTUM)"

text \<open>The queues after the sleepers have been counted down.\<close>

definition ready_after :: "'a sched_scheme \<Rightarrow> ptr list \<Rightarrow> ptr list \<Rightarrow> ptr list" where
  "ready_after s R W = R @ filter (\<lambda>x. due (thread_at s x)) W"

definition waiting_after :: "'a sched_scheme \<Rightarrow> ptr list \<Rightarrow> ptr list" where
  "waiting_after s W = filter (\<lambda>x. \<not> due (thread_at s x)) W"

lemma unlock_plain:
  assumes "disable_counter m = 1" and "task_switch_counter m = 1" and "\<not> task_switch_postponed m"
  shows "unlock_scheduler m = ret (m\<lparr>task_switch_counter := 0, disable_counter := 0, rflags := sti (rflags m)\<rparr>)"
  using assms by (simp add: unlock_scheduler_def Let_def)

text \<open>The handler up to the accounting of the slice.\<close>

lemma tick_prologue:
  assumes inv: "sched_inv s R W"
    and busy: "R = [] \<Longrightarrow> curr_thread s = idle_thread s \<Longrightarrow> \<forall>x\<in>set W. \<not> due (thread_at s x)"
  shows "\<exists>m. sched_wf m (ready_after s R W) (waiting_after s W) \<and> cpu_fits m \<and> requeue m = requeue s
    \<and> curr_thread m = curr_thread s \<and> idle_thread m = idle_thread s \<and> disable_counter m = 1 \<and> task_switch_counter m = 1
    \<and> \<not> task_switch_postponed m \<and> tick m = tick s
    \<and> (\<forall>u. thread_at m u = (if u = curr_thread s then (thread_at s u)\<lparr>registers := frame, total_runtime_ms := total_runtime_ms (thread_at s u) + 1\<rparr>
           else if u \<in> set W then tick_thread (thread_at s u) else thread_at s u))
    \<and> pit_irq_handler frame s =
        ebind (ebind (if scheduled_time (thread_at s (curr_thread s)) \<le> get_time_milliseconds s - exec_start_ms (thread_at s (curr_thread s))
                      then schedule m
                      else if get_time_milliseconds s - exec_start_ms (thread_at s (curr_thread s)) = DEFAULT_TIME_QUANTUM
                      then schedule (m\<lparr>time_quantum_past := True\<rparr>) else ret m) unlock_scheduler)
          (\<lambda>s. ret (registers (thread_at s (curr_thread s)), s))"
proof -
  note i = sched_invD [OF inv]
  let ?c = "curr_thread s" and ?f = "\<lambda>b :: ThreadBlock. b\<lparr>registers := frame, total_runtime_ms := total_runtime_ms b + 1\<rparr>"
  define a where "a = upd_thread ?c ?f (lock_scheduler s)"
  have ta: "thread_at a u = (if u = ?c then ?f (thread_at s u) else thread_at s u)" for u by (simp add: a_def)
  have sel: "curr_thread a = ?c" "idle_thread a = idle_thread s" "disable_counter a = 1" "task_switch_counter a = 1"
    "\<not> task_switch_postponed a" "process_at a = process_at s" "tick a = tick s" "hook a = hook s"
    "waiting_queue a = waiting_queue s" "ready_threads a = ready_threads s"
    "tss_rsp0 a = tss_rsp0 s" "syscall_kernel_rsp a = syscall_kernel_rsp s" "cr3 a = cr3 s"
    using i(7-9) by (simp_all add: a_def)
  have wa: "sched_wf a R ([] @ W)" using i(1) by (auto simp: sched_wf_def queues_def thread_ok_def sel ta)
  have W: "thread_at a u = thread_at s u" if "u \<in> set W" for u using that i(3) by (auto simp: ta)
  have at: "at (begin_it (hook a) (waiting_queue a)) W"
    using i(2) at_begin [of "hook s" "waiting_queue s" W] by (simp add: queues_def sel)
  obtain m where m: "wake_loop (begin_it (hook a) (waiting_queue a)) a = ret m" "same_control a m"
    "thread_at m = (\<lambda>u. if u \<in> set W then tick_thread (thread_at a u) else thread_at a u)"
    "sched_wf m (R @ filter (\<lambda>x. due (thread_at a x)) W) ([] @ filter (\<lambda>x. \<not> due (thread_at a x)) W)"
    using wake_loop_wf [OF wa at] sel busy W by auto
  have q: "R @ filter (\<lambda>x. due (thread_at a x)) W = ready_after s R W" "[] @ filter (\<lambda>x. \<not> due (thread_at a x)) W = waiting_after s W"
    using W by (auto simp: ready_after_def waiting_after_def intro: filter_cong)
  have tm: "thread_at m u = (if u = ?c then ?f (thread_at s u) else if u \<in> set W then tick_thread (thread_at s u) else thread_at s u)" for u
    using i(3) W m(3) by (auto simp: ta)
  have mp: "m_process (thread_at m u) = m_process (thread_at s u)" "rsp0 (thread_at m u) = rsp0 (thread_at s u)" for u
    by (auto simp: tm tick_thread_def woken_def)
  have cm: "curr_thread m = ?c" "idle_thread m = idle_thread s" "disable_counter m = 1" "task_switch_counter m = 1"
    "\<not> task_switch_postponed m" "tick m = tick s" "process_at m = process_at s" "tss_rsp0 m = tss_rsp0 s"
    "syscall_kernel_rsp m = syscall_kernel_rsp s" "cr3 m = cr3 s"
    using m(2) sel by (simp_all add: same_control_def)
  have "cpu_fits m" using i(4) by (simp add: cpu_fits_def space_of_def cm mp)
  moreover have "requeue m = requeue s" by (simp add: requeue_def cm tm)
  moreover have "pit_irq_handler frame s =
        ebind (ebind (if scheduled_time (thread_at s ?c) \<le> get_time_milliseconds s - exec_start_ms (thread_at s ?c)
                      then schedule m
                      else if get_time_milliseconds s - exec_start_ms (thread_at s ?c) = DEFAULT_TIME_QUANTUM
                      then schedule (m\<lparr>time_quantum_past := True\<rparr>) else ret m) unlock_scheduler)
          (\<lambda>s. ret (registers (thread_at s (curr_thread s)), s))"
    using m(1) [unfolded sel(8,9)] i(6) cm(1,6) tm [of ?c]
    by (simp add: pit_irq_handler_def upd_thread_upd a_def [symmetric] ebind_assoc get_time_milliseconds_def Let_def)
  ultimately show ?thesis using m(4) cm tm unfolding q by (intro exI [of _ m]) simp
qed

lemma tick_inv:
  assumes inv: "sched_inv s R W"
    and busy: "R = [] \<Longrightarrow> curr_thread s = idle_thread s \<Longrightarrow> \<forall>x\<in>set W. \<not> due (thread_at s x)"
  shows "\<exists>s'. pit_irq_handler frame s = ret (registers (thread_at s' (curr_thread s')), s')
    \<and> sched_inv s' (if slice_over s then tl (ready_after s R W) @ requeue s else ready_after s R W) (waiting_after s W)
    \<and> curr_thread s' = (if slice_over s then (if ready_after s R W = [] then idle_thread s else hd (ready_after s R W))
                        else curr_thread s)
    \<and> idle_thread s' = idle_thread s
    \<and> (\<forall>u. registers (thread_at s' u) = (if u = curr_thread s then frame else registers (thread_at s u)))
    \<and> (\<forall>u\<in>set (waiting_after s W). st s' u = st s u \<and> sleep_time (thread_at s' u) = sleep_time (tick_thread (thread_at s u)))
    \<and> interrupts_on (rflags s')"
proof -
  note i = sched_invD [OF inv]
  let ?c = "curr_thread s" and ?R = "ready_after s R W" and ?W = "waiting_after s W"
  let ?delta = "get_time_milliseconds s - exec_start_ms (thread_at s (curr_thread s))"
  obtain m where m: "sched_wf m ?R ?W" "cpu_fits m" "requeue m = requeue s" "curr_thread m = ?c" "idle_thread m = idle_thread s"
    "disable_counter m = 1" "task_switch_counter m = 1" "\<not> task_switch_postponed m" "tick m = tick s"
    and t: "\<forall>u. thread_at m u = (if u = ?c then (thread_at s u)\<lparr>registers := frame, total_runtime_ms := total_runtime_ms (thread_at s u) + 1\<rparr>
           else if u \<in> set W then tick_thread (thread_at s u) else thread_at s u)"
    and e: "pit_irq_handler frame s =
        ebind (ebind (if scheduled_time (thread_at s ?c) \<le> ?delta then schedule m
                      else if ?delta = DEFAULT_TIME_QUANTUM then schedule (m\<lparr>time_quantum_past := True\<rparr>) else ret m) unlock_scheduler)
          (\<lambda>s. ret (registers (thread_at s (curr_thread s)), s))"
    using tick_prologue [OF assms, of frame] by auto
  have out: "?c \<notin> set ?R \<union> set ?W" using i(3) by (auto simp: ready_after_def waiting_after_def)
  have regs: "registers (thread_at m u) = (if u = ?c then frame else registers (thread_at s u))" for u
    using t by (auto simp: tick_thread_def woken_def)
  have wt: "t_state (tick_thread (thread_at s u)) = st s u \<and> thread_at m u = tick_thread (thread_at s u)" if "u \<in> set ?W" for u
    using that out t by (auto simp: waiting_after_def tick_thread_def)
  show ?thesis
  proof (cases "slice_over s")
    case True
    define n where "n = (if scheduled_time (thread_at s ?c) \<le> ?delta then m else m\<lparr>time_quantum_past := True\<rparr>)"
    have e': "pit_irq_handler frame s = ebind (ebind (schedule n) unlock_scheduler) (\<lambda>s. ret (registers (thread_at s (curr_thread s)), s))"
      using e True by (auto simp: n_def slice_over_def Let_def)
    have sn: "thread_at n = thread_at m" "curr_thread n = ?c" "idle_thread n = idle_thread s" "disable_counter n = 1"
      "task_switch_counter n = 1" using m(4-7) by (simp_all add: n_def)
    have wn: "sched_wf n ?R ?W" "requeue n = requeue s" "cpu_fits n"
      using m sched_wf_same [of n m] cpu_fits_same [of n m] by (simp_all add: n_def)
    have hd: "?R \<noteq> [] \<Longrightarrow> hd ?R \<noteq> ?c" using out hd_in_set [of ?R] by (metis UnI1)
    obtain s' where s': "ebind (schedule n) unlock_scheduler = ret s'" "sched_wf s' (tl ?R @ requeue s) ?W"
      "runs s' (tl ?R @ requeue s) ?W" "curr_thread s' = (if ?R = [] then idle_thread s else hd ?R)" "kept n s'" "cpu_fits s'"
      "unlocked s'" "\<forall>u. u \<noteq> curr_thread s' \<and> u \<notin> set (requeue s) \<longrightarrow> st s' u = st n u" "interrupts_on (rflags s')"
      using locked_switch [OF wn(1) sn(4,5)] wn(2,3) hd out unfolding sn by auto
    have sb: "same_block (thread_at m u) (thread_at s' u)" for u using s'(5) unfolding kept_def sn by blast
    have "st s' u = st s u \<and> sleep_time (thread_at s' u) = sleep_time (tick_thread (thread_at s u))" if "u \<in> set ?W" for u
    proof -
      have "u \<noteq> curr_thread s'" "u \<notin> set (requeue s)"
        using that s'(3) out by (auto simp: runs_def requeue_def)
      then show ?thesis using s'(8) wt [OF that] same_blockD(4) [OF sb] sn(1) by simp
    qed
    moreover have "idle_thread s' = idle_thread s" using s'(5) sn by (simp add: kept_def)
    ultimately show ?thesis
      using e' s' same_blockD(2) [OF sb] regs True by (simp add: sched_inv_def)
  next
    case False
    then have "pit_irq_handler frame s = ebind (unlock_scheduler m) (\<lambda>s. ret (registers (thread_at s (curr_thread s)), s))"
      using e by (simp add: slice_over_def Let_def)
    moreover define s' where "s' = m\<lparr>task_switch_counter := 0, disable_counter := 0, rflags := sti (rflags m)\<rparr>"
    moreover have "sched_wf s' ?R ?W" "cpu_fits s'"
      using m sched_wf_same [of s' m] cpu_fits_same [of s' m] by (simp_all add: s'_def)
    moreover have "runs s' ?R ?W" using out i(12) m(4,5) t by (simp add: runs_def s'_def)
    moreover have "unlocked s'" using m(8) by (simp add: s'_def unlocked_def)
    ultimately show ?thesis
      using unlock_plain [OF m(6-8)] False regs wt m(4,5) by (intro exI [of _ s']) (simp add: sched_inv_def)
  qed
qed

end
