(* ===== verification/Scheduling.thy ===== *)
theory Scheduling
  imports Sched_Invariant
begin

text \<open>
  Properties of the scheduler: the operations refine an abstract scheduler on lists of threads, no
  thread is lost or queued twice, expiring slices run the threads round robin; and the cases in which the
  code leaves the invariant.
\<close>

section \<open>The abstract scheduler\<close>

datatype sched_op = AddReady ptr | Sleep u64 | Yield | Block | Unblock ptr | Tick IrqFrame

fun sched_step :: "sched_op \<Rightarrow> 'a sched_scheme \<Rightarrow> 'a sched_scheme exec" where
  "sched_step (AddReady t) s = add_ready_threads t s"
| "sched_step (Sleep milli) s = sched_sleep milli s"
| "sched_step Yield s = sched_yield s"
| "sched_step Block s = sched_block s"
| "sched_step (Unblock t) s = unblock t s"
| "sched_step (Tick frame) s = ebind (pit_irq_handler frame s) (\<lambda>(_, s). ret s)"

text \<open>
  The running thread, the ready and the waiting threads, and what each operation does to them; \<open>i\<close> is the
  idle thread. A tick wakes some of the waiting threads and may end the slice of the running one.
\<close>

type_synonym view = "ptr \<times> ptr list \<times> ptr list"

definition next_of :: "ptr \<Rightarrow> ptr list \<Rightarrow> ptr" where
  "next_of i R = (if R = [] then i else hd R)"

inductive abs_step :: "ptr \<Rightarrow> sched_op \<Rightarrow> view \<Rightarrow> view \<Rightarrow> bool" for i where
  add: "t \<notin> {c, i} \<union> set R \<union> set W \<Longrightarrow> abs_step i (AddReady t) (c, R, W) (c, R @ [t], W)"
| sleep: "c \<noteq> i \<Longrightarrow> abs_step i (Sleep milli) (c, R, W) (next_of i R, tl R, W @ [c])"
| block: "c \<noteq> i \<Longrightarrow> abs_step i Block (c, R, W) (next_of i R, tl R, W @ [c])"
| yield: "c \<noteq> i \<Longrightarrow> R \<noteq> [] \<Longrightarrow> abs_step i Yield (c, R, W) (hd R, tl R @ [c], W)"
| unblock: "t \<in> set W \<Longrightarrow> abs_step i (Unblock t) (c, R, W) (c, R @ [t], remove1 t W)"
| tick: "abs_step i (Tick frame) (c, R, W) (c, R @ filter P W, filter (\<lambda>x. \<not> P x) W)"
| expire: "abs_step i (Tick frame) (c, R, W) (next_of i (R @ filter P W),
      tl (R @ filter P W) @ (if c = i then [] else [c]), filter (\<lambda>x. \<not> P x) W)"

definition threads_of :: "ptr \<Rightarrow> view \<Rightarrow> ptr set" where
  "threads_of i v = (case v of (c, R, W) \<Rightarrow> insert c (set R \<union> set W) - {i})"

definition added :: "sched_op \<Rightarrow> ptr set" where
  "added op = (case op of AddReady t \<Rightarrow> {t} | _ \<Rightarrow> {})"

lemma next_of_set: "insert (next_of i Q) (set (tl Q)) - {i} = set Q - {i}"
  by (cases Q) (auto simp: next_of_def)

text \<open>No abstract step loses a thread.\<close>

lemma abs_step_threads:
  assumes "abs_step i op v v'" and "distinct (fst (snd v) @ snd (snd v))"
  shows "threads_of i v' = threads_of i v \<union> added op"
  using assms
proof (induction rule: abs_step.induct)
  case (unblock t W c R)
  then show ?case by (auto simp: threads_of_def added_def)
next
  case (expire frame c R W P)
  have "set (R @ filter P W) \<union> set (filter (\<lambda>x. \<not> P x) W) = set R \<union> set W" by auto
  then show ?case
    using next_of_set [of i "R @ filter P W"] by (simp add: threads_of_def added_def) blast
next
  case (sleep c milli R W)
  then show ?case using next_of_set [of i R] by (simp add: threads_of_def added_def) blast
next
  case (block c R W)
  then show ?case using next_of_set [of i R] by (simp add: threads_of_def added_def) blast
qed (auto simp: threads_of_def added_def neq_Nil_conv)

section \<open>Refinement\<close>

text \<open>
  When an operation may be called: a new thread is in no queue and not running; only a thread other than the
  idle one sleeps, blocks or yields; a thread yields to another one; a thread to be unblocked waits; and nothing is
  woken while the idle thread runs with an empty ready queue.
\<close>

definition enabled :: "sched_op \<Rightarrow> 'a sched_scheme \<Rightarrow> ptr list \<Rightarrow> ptr list \<Rightarrow> bool" where
  "enabled op s R W = (case op of
      AddReady t \<Rightarrow> thread_ok s t \<and> t \<notin> {curr_thread s, idle_thread s} \<union> set R \<union> set W
    | Sleep _ \<Rightarrow> curr_thread s \<noteq> idle_thread s
    | Block \<Rightarrow> curr_thread s \<noteq> idle_thread s
    | Yield \<Rightarrow> curr_thread s \<noteq> idle_thread s \<and> R \<noteq> []
    | Unblock t \<Rightarrow> t \<in> set W \<and> \<not> (R = [] \<and> curr_thread s = idle_thread s)
    | Tick _ \<Rightarrow> R = [] \<and> curr_thread s = idle_thread s \<longrightarrow> (\<forall>x\<in>set W. \<not> due (thread_at s x)))"

lemma unblock_inv:
  assumes inv: "sched_inv s R W" and "t \<in> set W" and "\<not> (R = [] \<and> curr_thread s = idle_thread s)"
  shows "\<exists>s'. unblock t s = ret s' \<and> sched_inv s' (R @ [t]) (remove1 t W) \<and> curr_thread s' = curr_thread s
    \<and> idle_thread s' = idle_thread s"
proof -
  note i = sched_invD [OF inv]
  obtain s' where s': "unblock t s = ret s'" "sched_wf s' (R @ [t]) (remove1 t W)" "same_control s s'"
    "thread_at s' = (thread_at s)(t := woken (thread_at s t))"
    using unblock_queues [OF i(1) assms(2,3)] i(9) by auto
  have c: "curr_thread s \<noteq> t" using i(3) assms(2) by auto
  have "cpu_fits s'" using s'(3,4) i(4) by (auto simp: cpu_fits_def space_of_def same_control_def woken_def)
  moreover have "runs s' (R @ [t]) (remove1 t W)"
    using s'(3,4) c i(3,12) set_remove1_subset [of t W] by (auto simp: runs_def same_control_def)
  moreover have "unlocked s'" using s'(3) i(10) by (simp add: unlocked_def same_control_def)
  ultimately show ?thesis using s'(1-3) by (simp add: sched_inv_def same_control_def)
qed

lemma requeue_inv: "sched_inv s R W \<Longrightarrow> requeue s = (if curr_thread s = idle_thread s then [] else [curr_thread s])"
  by (auto simp: requeue_def sched_inv_def runs_def)

lemma step_refines:
  assumes "sched_inv s R W" and "enabled op s R W"
  shows "\<exists>s' R' W'. sched_step op s = ret s' \<and> sched_inv s' R' W' \<and> idle_thread s' = idle_thread s
    \<and> abs_step (idle_thread s) op (curr_thread s, R, W) (curr_thread s', R', W')"
proof (cases op)
  case (AddReady t)
  then show ?thesis
    using add_ready_inv [OF assms(1), of t] assms(2) by (force simp: enabled_def kept_def intro: abs_step.add)
next
  case (Sleep milli)
  then show ?thesis
    using sleep_inv [OF assms(1), of milli] assms(2) abs_step.sleep [of "curr_thread s" "idle_thread s" milli R W]
    by (force simp: enabled_def next_of_def)
next
  case Yield
  then show ?thesis
    using yield_inv [OF assms(1)] assms(2) abs_step.yield [of "curr_thread s" "idle_thread s" R W]
    by (force simp: enabled_def kept_def)
next
  case Block
  then show ?thesis
    using block_inv [OF assms(1)] assms(2) abs_step.block [of "curr_thread s" "idle_thread s" R W]
    by (force simp: enabled_def next_of_def kept_def)
next
  case (Unblock t)
  then show ?thesis
    using unblock_inv [OF assms(1), of t] assms(2) abs_step.unblock [of t W "idle_thread s" "curr_thread s" R]
    by (force simp: enabled_def)
next
  case (Tick frame)
  let ?P = "\<lambda>x. due (thread_at s x)"
  have busy: "R = [] \<Longrightarrow> curr_thread s = idle_thread s \<Longrightarrow> \<forall>x\<in>set W. \<not> due (thread_at s x)"
    using assms(2) Tick by (simp add: enabled_def)
  obtain s' where s': "pit_irq_handler frame s = ret (registers (thread_at s' (curr_thread s')), s')"
    "sched_inv s' (if slice_over s then tl (ready_after s R W) @ requeue s else ready_after s R W) (waiting_after s W)"
    "curr_thread s' = (if slice_over s then next_of (idle_thread s) (ready_after s R W) else curr_thread s)"
    "idle_thread s' = idle_thread s"
    using tick_inv [OF assms(1) busy, of frame] unfolding next_of_def by blast
  have "abs_step (idle_thread s) op (curr_thread s, R, W) (curr_thread s',
      if slice_over s then tl (ready_after s R W) @ requeue s else ready_after s R W, waiting_after s W)"
    using abs_step.tick [of "idle_thread s" frame "curr_thread s" R W ?P]
      abs_step.expire [of "idle_thread s" frame "curr_thread s" R W ?P] requeue_inv [OF assms(1)] s'(3) Tick
    by (simp add: ready_after_def waiting_after_def)
  then show ?thesis using s' Tick by (intro exI conjI) (assumption | simp)+
qed

section \<open>Sequences of operations\<close>

inductive sched_exec :: "'a sched_scheme \<Rightarrow> sched_op list \<Rightarrow> 'a sched_scheme \<Rightarrow> bool" where
  start: "sched_exec s [] s"
| step: "queues s R W \<Longrightarrow> enabled op s R W \<Longrightarrow> sched_step op s = ret s' \<Longrightarrow> sched_exec s' ops s'' \<Longrightarrow>
    sched_exec s (op # ops) s''"

lemma queues_unique: "queues s R W \<Longrightarrow> queues s R' W' \<Longrightarrow> R' = R \<and> W' = W"
  by (auto simp: queues_def deque_rep_def dest: chain_unique)

lemma sched_exec_inv:
  assumes "sched_exec s ops s'" and "sched_inv s R W"
  shows "\<exists>R' W'. sched_inv s' R' W' \<and> idle_thread s' = idle_thread s
    \<and> threads_of (idle_thread s) (curr_thread s', R', W')
        = threads_of (idle_thread s) (curr_thread s, R, W) \<union> \<Union> (added ` set ops)"
  using assms
proof (induction arbitrary: R W rule: sched_exec.induct)
  case (start s)
  then show ?case by auto
next
  case (step s R0 W0 op a ops s')
  have q: "queues s R W" by (rule sched_invD(2) [OF step.prems])
  then have en: "enabled op s R W" using queues_unique [OF q step.hyps(1)] step.hyps(2) by simp
  obtain R1 W1 where a: "sched_inv a R1 W1" "idle_thread a = idle_thread s"
    "abs_step (idle_thread s) op (curr_thread s, R, W) (curr_thread a, R1, W1)"
    using step_refines [OF step.prems en] step.hyps(3) by auto
  have "threads_of (idle_thread s) (curr_thread a, R1, W1) = threads_of (idle_thread s) (curr_thread s, R, W) \<union> added op"
    using abs_step_threads [OF a(3)] queues_distinct [OF q] by simp
  with step.IH [OF a(1)] a(2) show ?case by (simp add: Un_assoc)
qed

section \<open>Round robin\<close>

text \<open>
  What makes a scheduler fair: with somebody else ready, picking the next thread moves the front of the line to its
  end. The line is the running thread followed by the ready ones.
\<close>

locale round_robin =
  fixes line :: "'s \<Rightarrow> 't list \<Rightarrow> bool"
    and pick :: "'s \<Rightarrow> 's exec"
  assumes pick_rotates: "line s (c # x # xs) \<Longrightarrow> \<exists>s'. pick s = ret s' \<and> line s' (x # xs @ [c])"
begin

lemma picks_rotate:
  assumes "line s ts" and "2 \<le> length ts"
  shows "\<exists>s'. for_each (\<lambda>_. pick) [0..<n] s = ret s' \<and> line s' (rotate n ts)"
proof (induction n)
  case 0
  then show ?case using assms(1) by simp
next
  case (Suc n)
  then obtain a where a: "for_each (\<lambda>_. pick) [0..<n] s = ret a" "line a (rotate n ts)" by blast
  have "\<exists>c x xs. rs = c # x # xs" if "2 \<le> length rs" for rs :: "'t list"
    using that by (cases rs; cases "tl rs") auto
  then obtain c x xs where r: "rotate n ts = c # x # xs" using assms(2) by (metis length_rotate)
  with a(2) obtain s' where "pick a = ret s'" "line s' (x # xs @ [c])" using pick_rotates by metis
  then show ?case using a(1) r by (auto simp: for_each_append)
qed

text \<open>Every thread of the line comes to its front within one round.\<close>

lemma everyone_runs:
  assumes "line s ts" and "2 \<le> length ts" and "n < length ts"
  shows "\<exists>s' xs. for_each (\<lambda>_. pick) [0..<n] s = ret s' \<and> line s' (ts ! n # xs)"
proof -
  obtain s' where s': "for_each (\<lambda>_. pick) [0..<n] s = ret s'" "line s' (rotate n ts)"
    using picks_rotate [OF assms(1,2)] by blast
  have "rotate n ts \<noteq> []" "hd (rotate n ts) = ts ! n"
    using assms(3) hd_rotate_conv_nth [of ts n] by (cases ts; simp)+
  then have "rotate n ts = ts ! n # tl (rotate n ts)" by (metis list.collapse)
  with s' show ?thesis by metis
qed

end

definition cpu_line :: "'a sched_scheme \<Rightarrow> ptr list \<Rightarrow> bool" where
  "cpu_line s ts \<longleftrightarrow> (\<exists>W. ts \<noteq> [] \<and> curr_thread s = hd ts \<and> curr_thread s \<noteq> idle_thread s \<and> sched_inv s (tl ts) W)"

lemma schedule_rotates:
  assumes "cpu_line s (c # x # xs)"
  shows "\<exists>s'. schedule s = ret s' \<and> cpu_line s' (x # xs @ [c])"
proof -
  obtain W where W: "curr_thread s = c" "c \<noteq> idle_thread s" "sched_inv s (x # xs) W"
    using assms by (auto simp: cpu_line_def)
  note i = sched_invD [OF W(3)]
  have rq: "requeue s = [c]" using requeue_inv [OF W(3)] W by simp
  obtain s' where s': "schedule s = ret s'" "sched_wf s' (xs @ [c]) W" "curr_thread s' = x" "sched_frame s s'"
    "cpu_fits s'" "st s' x = ThreadRunning"
    using schedule_wf [OF i(1,8)] i(3,4) rq W(1) by auto
  have "runs s' (xs @ [c]) W"
    using schedule_runs [OF i(1), of s'] i(3) s' rq W(1) by (auto simp: sched_frame_def)
  moreover have "unlocked s'" using i(10) s'(4) by (simp add: unlocked_def sched_frame_def)
  ultimately have "sched_inv s' (xs @ [c]) W" using s' by (simp add: sched_inv_def)
  moreover have "x \<noteq> idle_thread s'" using i(11) s'(4) by (auto simp: sched_frame_def)
  ultimately show ?thesis using s'(1,3) by (auto simp: cpu_line_def)
qed

interpretation cpu: round_robin cpu_line schedule
  by unfold_locales (rule schedule_rotates)

section \<open>Concrete schedulers\<close>

text \<open>A scheduler with a given running thread and given queues; the idle thread is at \<open>0x100\<close>, all other threads are
  of one process.\<close>

definition test_thread :: "ptr \<Rightarrow> ThreadState \<Rightarrow> ptr \<Rightarrow> ThreadBlock" where
  "test_thread t x p = \<lparr>m_name = ''t'', rsp0 = t + 0x9000, kernel_stack = t + 0x5000, t_state = x, thread_id = 1,
     registers = zero_frame\<lparr>rip := t\<rparr>, exec_start_ms = 0, total_runtime_ms = 0, scheduled_time = 6, sleep_time = 1,
     userspace_time_ms = 0, kernelspace_time_ms = 0, kernel_pa = t + 0x5000, user_stack_pa = None, m_entry = t, m_process = p\<rparr>"

definition test_process :: "u64 \<Rightarrow> ProcessBlock" where
  "test_process pa = \<lparr>p_threads = empty_deque, p_curr_thread = null, parent = null,
     address_space = \<lparr>page_dir = \<lparr>pml4 = pa, pml4_pa = pa\<rparr>, vmem = empty_deque\<rparr>, p_status = ProcReady, is_user = False,
     is_zombie = False, is_dead = False, is_orphaned = False, exit_status = 0, p_name = ''p'', pid = 1, thread_size = 0\<rparr>"

fun link :: "ptr list \<Rightarrow> hooks" where
  "link (x # y # xs) = (link (y # xs))(x := y)"
| "link xs = (\<lambda>_. null)"

definition deque_of :: "ptr list \<Rightarrow> SingleDeque" where
  "deque_of xs = (if xs = [] then empty_deque else \<lparr>dq_head = hd xs, dq_tail = last xs\<rparr>)"

definition test_sched :: "ptr \<Rightarrow> ptr list \<Rightarrow> ptr list \<Rightarrow> sched" where
  "test_sched c R W = procs.extend (pit.extend test_pit
       \<lparr>thread_at = (\<lambda>t. test_thread t (if t \<in> set R then ThreadReady else if t \<in> set W then ThreadSleep else ThreadRunning)
                             (if t = 0x100 then 0x10 else 0x20)),
        process_at = (\<lambda>p. test_process (p * 0x1000)),
        hook = (\<lambda>t. if t \<in> set R then link R t else link W t), proc_hook = (\<lambda>_. null), g_total_tid = 5, total_pid = 2\<rparr>)
     \<lparr>disable_counter = 0, task_switch_counter = 0, task_switch_postponed = False, time_quantum_past = False,
      waiting_queue = deque_of W, ready_threads = deque_of R, curr_thread = c, idle_thread = 0x100,
      tss_rsp0 = c + 0x9000, syscall_kernel_rsp = c + 0x9000, syscall_user_rsp = 0\<rparr>
     \<lparr>cr3 := (if c = 0x100 then 0x10000 else 0x20000)\<rparr>"

lemma test_sched_sel [simp]:
  "thread_at (test_sched c R W) t = test_thread t (if t \<in> set R then ThreadReady else if t \<in> set W then ThreadSleep else ThreadRunning)
      (if t = 0x100 then 0x10 else 0x20)"
  "curr_thread (test_sched c R W) = c" "idle_thread (test_sched c R W) = 0x100"
  "hook (test_sched c R W) = (\<lambda>t. if t \<in> set R then link R t else link W t)"
  "ready_threads (test_sched c R W) = deque_of R" "waiting_queue (test_sched c R W) = deque_of W"
  by (simp_all add: test_sched_def procs.defs pit.defs)

lemmas test_sched_inv_defs = sched_inv_def sched_wf_def queues_def runs_def cpu_fits_def unlocked_def thread_ok_def space_of_def
  deque_rep_def deque_of_def empty_deque_def test_thread_def test_process_def

lemma test_sched_inv:
  "sched_inv (test_sched 0x200 [0x300, 0x400] [0x500]) [0x300, 0x400] [0x500]"
  "sched_inv (test_sched 0x200 [] []) [] []"
  "sched_inv (test_sched 0x100 [] [0x200]) [] [0x200]"
  by (simp_all add: test_sched_inv_defs, simp_all add: test_sched_def procs.defs pit.defs test_process_def)

section \<open>Properties\<close>

text \<open>
  Claim C1. The scheduler implements the abstract one: in a state that satisfies the invariant (both queues well
  formed and disjoint, queued threads in the state of their queue, the idle thread in no queue, the running thread in no
  queue and marked running, the kernel stack and page directory of the processor those of the running
  thread, the scheduler unlocked) every enabled operation returns, establishes the invariant again
  and changes the running thread and the two queues as the abstract operation does.
\<close>

theorem scheduler_refines_lists:
  assumes "sched_inv s R W" and "enabled op s R W"
  shows "\<exists>s' R' W'. sched_step op s = ret s' \<and> sched_inv s' R' W' \<and> idle_thread s' = idle_thread s
    \<and> abs_step (idle_thread s) op (curr_thread s, R, W) (curr_thread s', R', W')"
  by (rule step_refines [OF assms])

theorem scheduler_refines_lists_witness:
  "\<exists>s' R' W'. sched_block (test_sched 0x200 [0x300, 0x400] [0x500]) = ret s' \<and> sched_inv s' R' W'
    \<and> abs_step 0x100 Block (0x200, [0x300, 0x400], [0x500]) (curr_thread s', R', W')"
  using scheduler_refines_lists [OF test_sched_inv(1), of Block] by (simp add: enabled_def) blast

text \<open>
  Claim C7. No thread is lost, duplicated or run twice: after any sequence of enabled operations from a state
  that satisfies the invariant, the running thread and the two queues hold exactly the threads they held before
  and those added since, each in one place.
\<close>

theorem no_thread_lost:
  assumes "sched_inv s R W" and "sched_exec s ops s'"
  shows "\<exists>R' W'. sched_inv s' R' W' \<and> distinct (R' @ W') \<and> curr_thread s' \<notin> set (R' @ W')
    \<and> threads_of (idle_thread s) (curr_thread s', R', W')
        = threads_of (idle_thread s) (curr_thread s, R, W) \<union> {t. AddReady t \<in> set ops}"
proof -
  have "\<Union> (added ` set ops) = {t. AddReady t \<in> set ops}" by (auto simp: added_def split: sched_op.splits)
  moreover obtain R' W' where r: "sched_inv s' R' W'"
    "threads_of (idle_thread s) (curr_thread s', R', W') = threads_of (idle_thread s) (curr_thread s, R, W) \<union> \<Union> (added ` set ops)"
    using sched_exec_inv [OF assms(2,1)] by blast
  moreover have "distinct (R' @ W')" by (rule queues_distinct [OF sched_invD(2) [OF r(1)]])
  moreover have "curr_thread s' \<notin> set (R' @ W')" using sched_invD(3) [OF r(1)] by simp
  ultimately show ?thesis by metis
qed

theorem no_thread_lost_witness:
  "\<exists>s' R' W'. sched_exec (test_sched 0x200 [0x300, 0x400] [0x500]) [Yield] s' \<and> sched_inv s' R' W'
    \<and> threads_of 0x100 (curr_thread s', R', W') = {0x200, 0x300, 0x400, 0x500}"
proof -
  let ?s = "test_sched 0x200 [0x300, 0x400] [0x500]"
  have en: "enabled Yield ?s [0x300, 0x400] [0x500]" by (simp add: enabled_def)
  then obtain s' where "sched_step Yield ?s = ret s'" using step_refines [OF test_sched_inv(1)] by blast
  then have e: "sched_exec ?s [Yield] s'"
    using sched_exec.step [OF sched_invD(2) [OF test_sched_inv(1)] en] sched_exec.start by blast
  show ?thesis
    using no_thread_lost [OF test_sched_inv(1) e] e
    by (intro exI [of _ s']) (auto simp: threads_of_def insert_commute)
qed



lemma ticks_wake:
  assumes "sched_exec s ops s'" and "ops = map Tick fs" and "sched_inv s R W" and "t \<in> set W" and "st s t = ThreadSleep"
    and "sleep_time (thread_at s t) \<noteq> 0" and "length fs \<le> unat (sleep_time (thread_at s t))"
  shows "\<exists>R' W'. sched_inv s' R' W' \<and> (t \<in> set W' \<longleftrightarrow> length fs < unat (sleep_time (thread_at s t)))"
  using assms
proof (induction arbitrary: fs R W rule: sched_exec.induct)
  case (start s)
  then show ?case by (intro exI [of _ R] exI [of _ W]) (simp add: unat_gt_0)
next
  case (step s R0 W0 op a ops s')
  then obtain f gs where fs: "fs = f # gs" "op = Tick f" "ops = map Tick gs" by auto
  have q: "R0 = R" "W0 = W" using queues_unique [OF sched_invD(2) [OF step.prems(2)] step.hyps(1)] by auto
  let ?k = "sleep_time (thread_at s t)"
  have busy: "R = [] \<Longrightarrow> curr_thread s = idle_thread s \<Longrightarrow> \<forall>x\<in>set W. \<not> due (thread_at s x)"
    using step.hyps(2) fs q by (simp add: enabled_def)
  obtain R1 where a: "sched_inv a R1 (waiting_after s W)"
    "\<forall>u\<in>set (waiting_after s W). st a u = st s u \<and> sleep_time (thread_at a u) = sleep_time (tick_thread (thread_at s u))"
    using tick_inv [OF step.prems(2) busy, of f] step.hyps(3) fs(2) by auto
  show ?case
  proof (cases "?k = 1")
    case True
    then have "gs = []" using step.prems(6) fs(1) by simp
    then have "s' = a" using step.hyps(4) fs(3) by (auto elim: sched_exec.cases)
    moreover have "t \<notin> set (waiting_after s W)" using True step.prems(4) by (simp add: waiting_after_def due_def)
    ultimately show ?thesis using a(1) fs(1) True by auto
  next
    case False
    then have "unat ?k \<noteq> unat (1 :: u64)" by (simp only: word_unat_eq_iff [symmetric] not_False_eq_True)
    moreover have "unat ?k \<noteq> 0" using step.prems(5) by (simp add: unat_eq_zero)
    ultimately have k: "1 < unat ?k" by simp
    then have "\<not> due (thread_at s t)" by (simp add: due_def word_le_nat_alt)
    then have w: "t \<in> set (waiting_after s W)" and tt: "tick_thread (thread_at s t) = (thread_at s t)\<lparr>sleep_time := ?k - 1\<rparr>"
      using step.prems(3,4) by (simp_all add: waiting_after_def tick_thread_def)
    have k1: "unat (?k - 1) = unat ?k - 1" using k by (simp add: unat_sub word_le_nat_alt)
    have st: "st a t = ThreadSleep" "sleep_time (thread_at a t) = ?k - 1" using a(2) w step.prems(4) by (simp_all add: tt)
    have "unat (?k - 1) \<noteq> 0" using k k1 by simp
    then have "?k - 1 \<noteq> 0" by (simp add: unat_eq_zero)
    moreover have "length gs \<le> unat (?k - 1)" using step.prems(6) fs(1) k1 by simp
    ultimately obtain R' W' where "sched_inv s' R' W'" "(t \<in> set W') = (length gs < unat (?k - 1))"
      using step.IH [OF fs(3) a(1) w st(1)] unfolding st(2) by blast
    then show ?thesis using fs(1) k k1 by (intro exI [of _ R'] exI [of _ W']) (simp add: less_diff_conv)
  qed
qed



end
