(* ===== verification/Sched_Faults.thy ===== *)
theory Sched_Faults
  imports Scheduling
begin

text \<open>
  Where the scheduler leaves its invariant: a thread that yields alone, a thread woken while the idle
  thread runs, voluntary switches that leave the registers behind, and the threads of a process that ends.
\<close>

section \<open>Switching outside the invariant\<close>

lemma add_ready_returns:
  assumes "t \<noteq> null" and "curr_thread s \<noteq> null"
  shows "\<exists>s'. add_ready_threads t s = ret s' \<and> curr_thread s' = curr_thread s \<and> idle_thread s' = idle_thread s
    \<and> (\<forall>u. m_process (thread_at s' u) = m_process (thread_at s u))"
  using assms by (simp add: add_ready_threads_def reset_scheduled_time_def set_state_def)

lemma enter_thread_returns:
  assumes "m_process (thread_at s n) \<noteq> null"
  shows "\<exists>s'. enter_thread n s = ret s' \<and> curr_thread s' = n"
  using assms by (simp add: enter_thread_def use_stack_of_def load_space_of_def start_slice_def load_cr3_def Let_def)

lemma switch_task_returns:
  assumes "curr_thread s \<noteq> null" and "n \<noteq> null" and "m_process (thread_at s n) \<noteq> null"
  shows "\<exists>s'. switch_task n s = ret s' \<and> curr_thread s' = n"
proof (cases "requeue s = []")
  case True
  then show ?thesis using assms enter_thread_returns by (simp add: switch_task_enter)
next
  case False
  obtain a where a: "add_ready_threads (curr_thread s) s = ret a" "\<forall>u. m_process (thread_at a u) = m_process (thread_at s u)"
    using add_ready_returns assms(1) by blast
  have "m_process (thread_at (set_state ThreadRunning n a) n) \<noteq> null" using a(2) assms(3) by simp
  from enter_thread_returns [OF this] show ?thesis using a(1) False assms by (simp add: switch_task_enter)
qed

text \<open>The end of a locked section in which a switch was postponed.\<close>

lemma postponed_switch:
  assumes "disable_counter m = 1" and "task_switch_counter m = 1"
    and "schedule (m\<lparr>task_switch_counter := 0, task_switch_postponed := False\<rparr>) = ret a"
  shows "\<exists>s'. ebind (schedule m) unlock_scheduler = ret s' \<and> curr_thread s' = curr_thread a \<and> thread_at s' = thread_at a
    \<and> hook s' = hook a \<and> ready_threads s' = ready_threads a \<and> waiting_queue s' = waiting_queue a
    \<and> disable_counter s' = disable_counter a - 1 \<and> task_switch_counter s' = task_switch_counter a
    \<and> task_switch_postponed s' = task_switch_postponed a \<and> idle_thread s' = idle_thread a"
proof -
  have "schedule m = ret (m\<lparr>task_switch_postponed := True\<rparr>)" using assms(2) by (simp add: schedule_def)
  then show ?thesis using assms(2,3) by (simp add: unlock_scheduler_def Let_def)
qed

section \<open>Yielding alone\<close>

lemma yield_alone:
  assumes inv: "sched_inv s [] W" and "curr_thread s \<noteq> idle_thread s"
  shows "\<exists>s'. sched_yield s = ret s' \<and> curr_thread s' = curr_thread s \<and> st s' (curr_thread s) = ThreadRunning
    \<and> queues s' [curr_thread s] W \<and> disable_counter s' = 0 \<and> task_switch_counter s' = 0
    \<and> m_process (thread_at s' (curr_thread s)) \<noteq> null"
proof -
  note i = sched_invD [OF inv]
  let ?c = "curr_thread s" and ?f = "\<lambda>b :: ThreadBlock. b\<lparr>t_state := ThreadReady, scheduled_time := DEFAULT_SCHEDULE_TIME_MS\<rparr>"
  define m where "m = ready_push_tail ?c (upd_thread ?c ?f (lock_scheduler s))"
  have e: "sched_yield s = ebind (schedule m) unlock_scheduler"
    using i(6) by (simp add: m_def sched_yield_def set_state_def reset_scheduled_time_def upd_thread_upd Let_def)
  have "queues (upd_thread ?c ?f (lock_scheduler s)) [] W" using i(2) by (simp add: queues_def)
  from queues_ready_push [OF this i(6)] i(3) have q: "queues m [?c] W" by (simp add: m_def)
  have sel: "curr_thread m = ?c" "idle_thread m = idle_thread s" "disable_counter m = 1" "task_switch_counter m = 1"
    using i(7,8) by (simp_all add: m_def)
  have tm: "thread_at m u = (if u = ?c then ?f (thread_at s u) else thread_at s u)" for u by (simp add: m_def)
  let ?n = "m\<lparr>task_switch_counter := 0, task_switch_postponed := False\<rparr>"
  have qn: "queues ?n [?c] W" using q by (simp add: queues_def)
  define b where "b = set_state ThreadRunning ?c ((charge_quantum ?n)\<lparr>ready_threads := snd (pop_head (hook ?n) (ready_threads ?n))\<rparr>)"
  have sn: "schedule ?n = switch_task ?c b" using schedule_next [OF qn] by (simp add: b_def)
  have fn: "sched_frame ?n (charge_quantum ?n)" by (rule charge_quantum_keeps)
  have selb: "curr_thread b = ?c" "idle_thread b = idle_thread s" "disable_counter b = 1" "task_switch_counter b = 0"
    "\<not> task_switch_postponed b" "st b u = (if u = ?c then ThreadRunning else st s u)" for u
    using sel tm fn by (simp_all add: b_def set_state_def charge_quantum_keeps sched_frame_def)
  have ok: "thread_ok b u = thread_ok s u" for u
  proof -
    have "thread_ok b u = thread_ok (charge_quantum ?n) u" by (simp add: b_def thread_ok_def)
    also have "\<dots> = thread_ok ?n u" by (rule sched_frame_thread_ok [OF fn])
    also have "\<dots> = thread_ok s u" by (simp add: thread_ok_def tm)
    finally show ?thesis .
  qed
  have qb: "queues b [] W"
    using queues_ready_pop(2) [OF qn] by (simp add: b_def set_state_def queues_def charge_quantum_keeps)
  have wb: "sched_wf b [] W" using i(1,3) qb selb ok by (auto simp: sched_wf_def)
  obtain a where a: "add_ready_threads ?c b = ret a" "sched_wf a [?c] W" "sched_frame b a" "curr_thread a = ?c"
    using add_ready_running [OF wb, of ?c] ok i(3,5) selb(1,2) assms(2) by auto
  let ?a = "set_state ThreadRunning ?c a"
  have "enter_thread ?c ?a = ret (start_slice ?c (use_stack_of ?c ?a))"
    using a(3,4) selb assms(2) by (simp add: enter_thread_def use_stack_of_def Let_def sched_frame_def set_state_def)
  moreover have "requeue b \<noteq> []" "?c \<noteq> null" using selb assms(2) i(6) by (simp_all add: requeue_def)
  ultimately have r: "schedule ?n = ret (start_slice ?c (use_stack_of ?c ?a))"
    using sn a(1) selb(1) by (simp add: switch_task_enter)
  from postponed_switch [OF sel(3,4) r] show ?thesis
    using e a(2,3) selb ok i(5) sched_frame_thread_ok [OF a(3), of ?c]
    by (auto simp: start_slice_def use_stack_of_def Let_def set_state_def queues_def sched_wf_def sched_frame_def thread_ok_def)
qed

lemma block_after_lonely_yield:
  assumes "queues s [c] W" and "curr_thread s = c" and "c \<noteq> null" and "m_process (thread_at s c) \<noteq> null"
    and "disable_counter s = 0" and "task_switch_counter s = 0" and "c \<notin> set W"
  shows "\<exists>s'. sched_block s = ret s' \<and> curr_thread s' = c"
proof -
  define m where "m = waiting_push_tail c (set_state ThreadBlocked c (lock_scheduler s))"
  have e: "sched_block s = ebind (schedule m) unlock_scheduler"
    using assms(2,3) by (simp add: sched_block_def m_def set_state_def Let_def)
  let ?n = "m\<lparr>task_switch_counter := 0, task_switch_postponed := False\<rparr>"
  have r: "ready_threads m = \<lparr>dq_head = c, dq_tail = c\<rparr>"
    using assms(1) by (cases "ready_threads s") (simp add: m_def set_state_def queues_def deque_rep_def waiting_push_tail_def case_prod_beta Let_def)
  have "dq_tail (waiting_queue s) \<noteq> c"
    using assms(1,3,7) last_in_set [of W] by (auto simp: queues_def deque_rep_def simp del: last_in_set)
  then have h: "hook m c = null"
    by (simp add: m_def set_state_def waiting_push_tail_def push_tail_def case_prod_beta Let_def)
  define b where "b = set_state ThreadRunning c ((charge_quantum ?n)\<lparr>ready_threads := empty_deque\<rparr>)"
  have p: "pop_head (hook m) (ready_threads m) = (c, empty_deque)"
    using r h assms(3) by (simp add: pop_head_def empty_deque_def)
  have "schedule ?n = switch_task c b"
    using p assms(3) r
    by (simp add: schedule_def b_def charge_quantum_def deque_empty_def reset_scheduled_time_def Let_def)
  moreover have "curr_thread b = c" using assms(2) by (simp add: b_def m_def set_state_def charge_quantum_keeps)
  moreover have "m_process (thread_at b c) \<noteq> null"
  proof -
    have "same_block (thread_at ?n c) (thread_at (charge_quantum ?n) c)"
      using charge_quantum_keeps(1) [of ?n] unfolding sched_frame_def by blast
    from same_blockD(1) [OF this] show ?thesis using assms(4) by (simp add: b_def m_def)
  qed
  ultimately obtain a where "schedule ?n = ret a" "curr_thread a = c"
    using switch_task_returns [of b c] assms(3) by auto
  moreover have "disable_counter m = 1" "task_switch_counter m = 1" using assms(5,6) by (simp_all add: m_def set_state_def)
  ultimately show ?thesis using postponed_switch [of m a] e by auto
qed

section \<open>Waking from idle\<close>

lemma unblock_from_idle:
  assumes inv: "sched_inv s [] W" and idle: "curr_thread s = idle_thread s" and "t \<in> set W"
  shows "\<exists>s'. unblock t s = ret s' \<and> sched_wf s' [] (remove1 t W) \<and> curr_thread s' = t \<and> st s' t = ThreadReady
    \<and> task_switch_counter s' = 0 \<and> idle_thread s' = idle_thread s"
proof -
  note i = sched_invD [OF inv]
  have t: "t \<noteq> null" "t \<noteq> idle_thread s" "thread_ok s t" using i(1) assms(3) by (auto simp: sched_wf_def thread_ok_def)
  have "queues (lock_scheduler s) [] W" using i(2) by (simp add: queues_def)
  from queues_waiting_remove [OF this t(1)]
  obtain a where a: "waiting_remove t (lock_scheduler s) = ret a" "requeued (lock_scheduler s) a" "queues a [] (remove1 t W)" by blast
  note ka = requeued_keeps [OF a(2), simplified]
  define b where "b = upd_thread t woken a"
  have b: "set_state ThreadReady t (upd_thread t (\<lambda>t. t\<lparr>sleep_time := 0\<rparr>) a) = b"
    by (simp add: b_def set_state_def upd_thread_upd woken_def [abs_def])
  have qb: "queues b [] (remove1 t W)" using a(3) by (simp add: b_def queues_def)
  have selb: "curr_thread b = idle_thread s" "idle_thread b = idle_thread s" "disable_counter b = 1" "task_switch_counter b = 1"
    "\<not> task_switch_postponed b" "thread_at b u = (if u = t then woken (thread_at s t) else thread_at s u)" for u
    using ka idle i(7-9) by (simp_all add: b_def)
  have ok: "thread_ok b u = thread_ok s u" for u by (simp add: thread_ok_def selb woken_def)
  have dt: "t \<notin> set (remove1 t W)" using queues_distinct [OF i(2)] by simp
  have wb: "sched_wf b [] (remove1 t W)"
    using i(1) qb selb ok dt idle set_remove1_subset [of t W] by (auto simp: sched_wf_def)
  obtain c where c: "enter_thread t b = ret c" "sched_wf c [] (remove1 t W)" "curr_thread c = t" "sched_frame b c" "\<forall>u. st c u = st b u"
    using enter_thread_wf [OF wb, of t] ok t(3) by blast
  have "deque_empty (ready_threads b) \<and> curr_thread b = idle_thread b"
    using queues_ready_empty [OF qb] selb(1,2) by simp
  moreover have "switch_task t b = ret c"
    using c(1) selb(1,2) t i(5) idle by (simp add: switch_task_enter requeue_def thread_ok_def)
  ultimately have e: "unblock t s = unlock_scheduler c"
    using t(1) by (simp only: unblock_def Let_def a(1) ebind_simps b if_False if_True c simp_thms)
  have kc: "disable_counter c = 1" "task_switch_counter c = 1" "\<not> task_switch_postponed c" "idle_thread c = idle_thread s"
    using c(4) selb by (simp_all add: sched_frame_def)
  let ?s = "c\<lparr>task_switch_counter := 0, disable_counter := 0, rflags := sti (rflags c)\<rparr>"
  have "sched_wf ?s [] (remove1 t W)" using c(2) sched_wf_same(1) [of ?s c] by simp
  then show ?thesis
    using e unlock_plain [OF kc(1-3)] c(3,5) kc(4) selb(6) by (intro exI [of _ ?s]) (simp add: woken_def)
qed

section \<open>Removing the threads of a process\<close>

lemma requeued_refl [simp]: "requeued s s"
  by (simp add: requeued_def)

lemma requeued_trans:
  assumes "requeued s s'" and "requeued s' s''"
  shows "requeued s s''"
proof -
  have "s'' = s'\<lparr>hook := hook s'', ready_threads := ready_threads s'', waiting_queue := waiting_queue s''\<rparr>"
    using assms(2) by (simp only: requeued_def)
  also have "\<dots> = s\<lparr>hook := hook s'', ready_threads := ready_threads s'', waiting_queue := waiting_queue s''\<rparr>"
    by (subst assms(1) [unfolded requeued_def]) simp
  finally show ?thesis by (simp only: requeued_def)
qed

text \<open>The loop over the waiting queue removes the threads of the process from it.\<close>

lemma remove_loop_waiting:
  assumes "queues s R (pre @ xs)" and "at it xs"
  shows "\<exists>s'. remove_loop p it s = ret s' \<and> requeued s s'
    \<and> queues s' R (pre @ filter (\<lambda>t. m_process (thread_at s t) \<noteq> p) xs)"
  using assms
proof (induction xs arbitrary: s it pre)
  case Nil
  then show ?case by (subst remove_loop.simps) (simp add: at_def front_def)
next
  case (Cons x xs)
  let ?d = "m_process (thread_at s x) = p"
  let ?p = "if ?d then pre else pre @ [x]"
  have x: "x \<notin> set pre" "x \<notin> set xs" "x \<noteq> null"
    using queues_distinct [OF Cons.prems(1)] queues_nonnull [OF Cons.prems(1)] by auto
  have "\<exists>a. remove_waiting_of p x s = ret a \<and> requeued s a \<and> queues a R (?p @ xs)"
    using queues_waiting_remove [OF Cons.prems(1) x(3)] Cons.prems(1) x
    by (auto simp: remove_waiting_of_def remove1_append)
  then obtain a where a: "remove_waiting_of p x s = ret a" "requeued s a" "queues a R (?p @ xs)" by blast
  then have "deque_rep (hook a) (waiting_queue a) (?p @ xs)" by (simp add: queues_def)
  from at_inc [OF Cons.prems(2) this] have at: "at (Iterator_inc (hook a) it) xs" .
  have ta: "thread_at a = thread_at s" by (rule requeued_keeps [OF a(2)])
  obtain s' where s': "remove_loop p (Iterator_inc (hook a) it) a = ret s'" "requeued a s'"
    "queues s' R (?p @ filter (\<lambda>t. m_process (thread_at s t) \<noteq> p) xs)"
    using Cons.IH [OF a(3) at] unfolding ta by blast
  have "remove_loop p it s = ret s'"
    using a(1) s'(1) Cons.prems(2) x by (subst remove_loop.simps) (simp add: at_def front_def)
  then show ?case using s'(3) requeued_trans [OF a(2) s'(2)] by (auto split: if_splits)
qed

text \<open>The loop over the ready queue removes from the waiting queue, where its threads are not.\<close>

lemma remove_loop_ready:
  assumes "queues s (pre @ xs) W" and "at it xs"
  shows "\<exists>s'. remove_loop p it s = ret s' \<and> requeued s s' \<and> queues s' (pre @ xs) W"
  using assms
proof (induction xs arbitrary: s it pre)
  case Nil
  then show ?case by (subst remove_loop.simps) (simp add: at_def front_def)
next
  case (Cons x xs)
  have x: "x \<notin> set W" "x \<noteq> null"
    using Cons.prems(1) queues_nonnull [OF Cons.prems(1)] by (auto simp: queues_def)
  have "\<exists>a. remove_waiting_of p x s = ret a \<and> requeued s a \<and> queues a (pre @ x # xs) W"
    using queues_waiting_remove [OF Cons.prems(1) x(2)] Cons.prems(1) x(1)
    by (auto simp: remove_waiting_of_def remove1_idem)
  then obtain a where a: "remove_waiting_of p x s = ret a" "requeued s a" "queues a ((pre @ [x]) @ xs) W" by auto
  then have "deque_rep (hook a) (ready_threads a) ((pre @ [x]) @ xs)" by (simp add: queues_def)
  from at_inc [OF Cons.prems(2) this] have at: "at (Iterator_inc (hook a) it) xs" .
  obtain s' where s': "remove_loop p (Iterator_inc (hook a) it) a = ret s'" "requeued a s'" "queues s' ((pre @ [x]) @ xs) W"
    using Cons.IH [OF a(3) at] by blast
  have "remove_loop p it s = ret s'"
    using a(1) s'(1) Cons.prems(2) x by (subst remove_loop.simps) (simp add: at_def front_def)
  then show ?case using s'(3) requeued_trans [OF a(2) s'(2)] by auto
qed

lemma remove_dead_effect:
  assumes inv: "sched_inv s R W"
  defines "p \<equiv> m_process (thread_at s (curr_thread s))"
  shows "\<exists>s'. remove_dead_process_threads s = ret (True, s')
    \<and> sched_inv s' (tl R @ requeue s) (filter (\<lambda>t. m_process (thread_at s t) \<noteq> p) W)
    \<and> curr_thread s' = next_of (idle_thread s) R \<and> kept s s'"
proof -
  note i = sched_invD [OF inv]
  let ?W = "filter (\<lambda>t. m_process (thread_at s t) \<noteq> p) W"
  have at1: "at (begin_it (hook s) (waiting_queue s)) W" using i(2) at_begin by (auto simp: queues_def)
  obtain a where a: "remove_loop p (begin_it (hook s) (waiting_queue s)) s = ret a" "requeued s a" "queues a R ?W"
    using remove_loop_waiting [of s R "[]" W, OF _ at1] i(2) by auto
  have at2: "at (begin_it (hook a) (ready_threads a)) R" using a(3) at_begin by (auto simp: queues_def)
  obtain b where b: "remove_loop p (begin_it (hook a) (ready_threads a)) a = ret b" "requeued a b" "queues b R ?W"
    using remove_loop_ready [of a "[]" R ?W, OF _ at2] a(3) by auto
  have sb: "requeued s b" by (rule requeued_trans [OF a(2) b(2)])
  note kb = requeued_keeps [OF sb]
  have wb: "sched_wf b R ?W" using i(1) b(3) kb by (auto simp: sched_wf_def thread_ok_def)
  have rq: "requeue b = requeue s" using kb by (simp add: requeue_def)
  have fits: "cpu_fits b" using i(4) cpu_fits_same [of b s] kb by simp
  have hd: "R \<noteq> [] \<Longrightarrow> hd R \<noteq> curr_thread b" using i(3) hd_in_set [of R] kb(3) by (metis UnI1)
  have out: "requeue b \<noteq> [] \<Longrightarrow> curr_thread b \<notin> set R \<union> set ?W" using i(3) kb(3) by auto
  obtain s' where s': "schedule b = ret s'" "sched_wf s' (tl R @ requeue b) ?W"
    "curr_thread s' = (if R = [] then idle_thread b else hd R)" "sched_frame b s'" "cpu_fits s'"
    "R \<noteq> [] \<longrightarrow> st s' (hd R) = ThreadRunning"
    using schedule_wf [OF wb _ out hd] i(8) kb(8) fits by auto
  have "runs s' (tl R @ requeue b) ?W"
    using schedule_runs [OF wb hd s'(2,3,6)] s'(4) by (simp add: sched_frame_def)
  moreover have "unlocked s'" using s'(4) i(10) kb by (simp add: unlocked_def sched_frame_def)
  moreover have "kept s s'" using sched_frame_trans [OF sched_frame_requeued [OF sb] s'(4)] by (rule sched_frame_kept)
  ultimately show ?thesis
    using a(1) b(1) s' rq kb(4) i(6)
    by (simp add: remove_dead_process_threads_def get_current_process_eq p_def [symmetric] sched_inv_def next_of_def)
qed

section \<open>Properties\<close>

text \<open>
  Claim C35. A thread that yields while no other thread is ready ends up running and queued as ready at the same time,
  which breaks the invariant; when it then blocks, it goes on running although it is in the waiting queue.
\<close>

theorem yield_alone_queues_the_runner:
  assumes "sched_inv s [] W" and "curr_thread s \<noteq> idle_thread s"
  shows "\<exists>s' s''. sched_yield s = ret s' \<and> curr_thread s' = curr_thread s \<and> queues s' [curr_thread s] W
    \<and> sched_block s' = ret s'' \<and> curr_thread s'' = curr_thread s"
proof -
  obtain s' where s': "sched_yield s = ret s'" "curr_thread s' = curr_thread s" "queues s' [curr_thread s] W"
    "disable_counter s' = 0" "task_switch_counter s' = 0" "m_process (thread_at s' (curr_thread s)) \<noteq> null"
    using yield_alone [OF assms] by blast
  then show ?thesis
    using block_after_lonely_yield [OF s'(3,2)] sched_invD(3,6) [OF assms(1)] by auto
qed

theorem yield_alone_queues_the_runner_witness:
  "\<exists>s' s''. sched_yield (test_sched 0x200 [] []) = ret s' \<and> queues s' [0x200] [] \<and> sched_block s' = ret s'' \<and> curr_thread s'' = 0x200"
  using yield_alone_queues_the_runner [OF test_sched_inv(2)] by auto

text \<open>
  Claim C36. A thread that is woken while the idle thread runs with an empty ready queue gets the processor
  still marked ready, so at the end of its slice it is put in no queue: after the switch to the idle thread it
  is neither running, ready nor waiting, and never runs again.
\<close>

theorem thread_woken_from_idle_is_lost:
  assumes "sched_inv s [] W" and "curr_thread s = idle_thread s" and "t \<in> set W"
  shows "\<exists>s' s''. unblock t s = ret s' \<and> curr_thread s' = t \<and> schedule s' = ret s'' \<and> curr_thread s'' = idle_thread s
    \<and> queues s'' [] (remove1 t W) \<and> t \<notin> threads_of (idle_thread s) (curr_thread s'', [], remove1 t W)"
proof -
  obtain s' where s': "unblock t s = ret s'" "sched_wf s' [] (remove1 t W)" "curr_thread s' = t" "st s' t = ThreadReady"
    "task_switch_counter s' = 0" "idle_thread s' = idle_thread s"
    using unblock_from_idle [OF assms] by blast
  have "requeue s' = []" using s'(3,4) by (simp add: requeue_def)
  then obtain s'' where "schedule s' = ret s''" "sched_wf s'' [] (remove1 t W)" "curr_thread s'' = idle_thread s"
    using schedule_wf [OF s'(2,5)] s'(6) by auto
  moreover have "t \<notin> set (remove1 t W)" "t \<noteq> idle_thread s"
    using queues_distinct [OF sched_invD(2) [OF assms(1)]] sched_invD(11) [OF assms(1)] assms(3) by auto
  ultimately show ?thesis using s'(1,3) by (auto simp: sched_wf_def threads_of_def)
qed

theorem thread_woken_from_idle_is_lost_witness:
  "\<exists>s' s''. unblock 0x200 (test_sched 0x100 [] [0x200]) = ret s' \<and> curr_thread s' = 0x200
    \<and> schedule s' = ret s'' \<and> curr_thread s'' = 0x100 \<and> queues s'' [] []"
  using thread_woken_from_idle_is_lost [OF test_sched_inv(3), of "0x200"] by auto

text \<open>
  Claim C37. Blocking returns to its caller with another thread named as the running one but the registers not
  switched, so the next timer tick saves the caller's registers over those of that other thread: the context
  it was preempted with is gone, and the caller's own block keeps a stale one.
\<close>

theorem blocking_overwrites_the_next_context:
  assumes "sched_inv s (x # R) W" and "curr_thread s \<noteq> idle_thread s"
  shows "\<exists>s1 s2 fr. sched_block s = ret s1 \<and> curr_thread s1 = x \<and> pit_irq_handler frame s1 = ret (fr, s2)
    \<and> registers (thread_at s2 x) = frame
    \<and> registers (thread_at s2 (curr_thread s)) = registers (thread_at s (curr_thread s))"
proof -
  obtain s1 where s1: "sched_block s = ret s1" "sched_inv s1 R (W @ [curr_thread s])" "curr_thread s1 = x" "kept s s1"
    using block_inv [OF assms] by auto
  have "curr_thread s1 \<noteq> idle_thread s1"
    using sched_invD(11) [OF assms(1)] s1(3,4) by (auto simp: kept_def)
  then obtain s2 where s2: "pit_irq_handler frame s1 = ret (registers (thread_at s2 (curr_thread s2)), s2)"
    "\<forall>u. registers (thread_at s2 u) = (if u = curr_thread s1 then frame else registers (thread_at s1 u))"
    using tick_inv [OF s1(2), of frame] by auto
  have "same_block (thread_at s (curr_thread s)) (thread_at s1 (curr_thread s))" using s1(4) unfolding kept_def by blast
  from same_blockD(2) [OF this] have "registers (thread_at s1 (curr_thread s)) = registers (thread_at s (curr_thread s))" .
  moreover have "curr_thread s \<noteq> x" using sched_invD(3) [OF assms(1)] by auto
  ultimately show ?thesis using s1(1,3) s2 by auto
qed

theorem blocking_overwrites_the_next_context_witness:
  "\<exists>s1 s2 fr. sched_block (test_sched 0x200 [0x300, 0x400] [0x500]) = ret s1
    \<and> pit_irq_handler (zero_frame\<lparr>rip := 0x222\<rparr>) s1 = ret (fr, s2) \<and> rip (registers (thread_at s2 0x300)) = 0x222"
  using blocking_overwrites_the_next_context [OF test_sched_inv(1), of "zero_frame\<lparr>rip := 0x222\<rparr>"] by fastforce

text \<open>
  Claim C38. Removing the threads of the current process takes them out of the waiting queue only: its ready threads stay
  ready, the next one runs, and the current thread itself is put back in the ready queue.
\<close>

theorem dead_process_threads_stay_ready:
  assumes "sched_inv s R W" and "curr_thread s \<noteq> idle_thread s"
  shows "\<exists>s'. remove_dead_process_threads s = ret (True, s') \<and> curr_thread s' = next_of (idle_thread s) R
    \<and> queues s' (tl R @ [curr_thread s])
        (filter (\<lambda>t. m_process (thread_at s t) \<noteq> m_process (thread_at s (curr_thread s))) W)"
  using remove_dead_effect [OF assms(1)] requeue_inv [OF assms(1)] assms(2) sched_invD(2) by fastforce

theorem dead_process_threads_stay_ready_witness:
  "\<exists>s'. remove_dead_process_threads (test_sched 0x200 [0x300, 0x400] [0x500]) = ret (True, s')
    \<and> curr_thread s' = 0x300 \<and> queues s' [0x400, 0x200] []"
  using dead_process_threads_stay_ready [OF test_sched_inv(1)] by (simp add: next_of_def test_thread_def)

end
