(* ===== verification/Syscalls.thy ===== *)
theory Syscalls
  imports Sched_Faults
begin

text \<open>
  System calls: \<open>ProcessBlock::exit\<close>, the handlers of \<^verbatim>\<open>src/src/include/sys/sys_list.hpp\<close>, the dispatcher of
  \<^verbatim>\<open>src/src/kernel/sys/syscalls.cpp\<close> and the entry code \<^verbatim>\<open>src/src/kernel/arch/x86-64/arch/syscall.s\<close> instruction
  by instruction. The frame that the dispatcher gets is the part of the kernel stack that the entry code pushed.
\<close>

section \<open>Leaving a process\<close>

definition process_exit :: "ptr \<Rightarrow> u32 \<Rightarrow> 'a sched_scheme \<Rightarrow> 'a sched_scheme exec" where
  "process_exit this stats = guarded (\<lambda>s.
     if stats = - 1 then
       (if parent (process_at s this) \<noteq> null then
          (let s = upd_process this (\<lambda>p. p\<lparr>p_status := ProcZombie, is_zombie := True, exit_status := stats\<rparr>) s in
           ebind (remove_dead_process_threads s) (\<lambda>(sucess, s).
           ebind (if \<not> sucess then klog_panic ''Something went wrong inside process.cpp'' s else ret s) (\<lambda>s.
           remove_all_threads this s)))
        else
          (let s = upd_process this (\<lambda>p. p\<lparr>p_status := ProcDead, is_zombie := True\<rparr>) s in
           ebind (remove_dead_process_threads s) (\<lambda>(sucess, s).
           ebind (if \<not> sucess then klog_panic ''Something went wrong inside process'' s else ret s) (\<lambda>s.
           remove_all_threads this s))))
     else ret s)"

section \<open>The frame\<close>

record SyscallFrame =
  sf_rax :: u64
  sf_rbx :: u64
  sf_rcx :: u64
  sf_rdx :: u64
  sf_rdi :: u64
  sf_rsi :: u64
  sf_rbp :: u64
  sf_r8 :: u64
  sf_r9 :: u64
  sf_r10 :: u64
  sf_r11 :: u64
  sf_r12 :: u64
  sf_r13 :: u64
  sf_r14 :: u64
  sf_r15 :: u64

text \<open>The structure at an address, in the order of its members.\<close>

definition frame_at :: "mem \<Rightarrow> ptr \<Rightarrow> SyscallFrame" where
  "frame_at m p = \<lparr>sf_rax = read64 m p, sf_rbx = read64 m (p + 8), sf_rcx = read64 m (p + 16), sf_rdx = read64 m (p + 24),
     sf_rdi = read64 m (p + 32), sf_rsi = read64 m (p + 40), sf_rbp = read64 m (p + 48), sf_r8 = read64 m (p + 56),
     sf_r9 = read64 m (p + 64), sf_r10 = read64 m (p + 72), sf_r11 = read64 m (p + 80), sf_r12 = read64 m (p + 88),
     sf_r13 = read64 m (p + 96), sf_r14 = read64 m (p + 104), sf_r15 = read64 m (p + 112)\<rparr>"

definition frame_num :: "SyscallFrame \<Rightarrow> u64" where "frame_num f = sf_rax f"
definition frame_ret :: "ptr \<Rightarrow> ptr" where "frame_ret p = p"
definition arg0 :: "SyscallFrame \<Rightarrow> u64" where "arg0 f = sf_rdi f"
definition arg1 :: "SyscallFrame \<Rightarrow> u64" where "arg1 f = sf_rsi f"
definition arg2 :: "SyscallFrame \<Rightarrow> u64" where "arg2 f = sf_rdx f"
definition arg3 :: "SyscallFrame \<Rightarrow> u64" where "arg3 f = sf_r10 f"
definition arg4 :: "SyscallFrame \<Rightarrow> u64" where "arg4 f = sf_r8 f"
definition arg5 :: "SyscallFrame \<Rightarrow> u64" where "arg5 f = sf_r9 f"

section \<open>The handlers\<close>

definition sys_exit :: "ptr \<Rightarrow> 'a sched_scheme \<Rightarrow> (u64 \<times> 'a sched_scheme) exec" where
  "sys_exit frame s =
     (let status = (ucast (arg0 (frame_at (memory s) frame)) :: u32) in
      ebind (get_current_process s) (\<lambda>(proc, s).
      if proc = null then halt NullDeref
      else
        ebind (remove_all_threads proc s) (\<lambda>s.
        ebind (process_exit proc status s) (\<lambda>s.
        ret (scast status, s)))))"

definition sys_get_pid :: "ptr \<Rightarrow> 'a sched_scheme \<Rightarrow> (u64 \<times> 'a sched_scheme) exec" where
  "sys_get_pid frame s =
     ebind (get_current_process s) (\<lambda>(proc, s).
     if proc = null then halt NullDeref else ret (ucast (pid (process_at s proc)), s))"

definition sys_fork :: "ptr \<Rightarrow> 'a sched_scheme \<Rightarrow> (u64 \<times> 'a sched_scheme) exec" where
  "sys_fork frame s = ret (0, s)"

definition sys_mmap :: "ptr \<Rightarrow> 'a sched_scheme \<Rightarrow> (u64 \<times> 'a sched_scheme) exec" where
  "sys_mmap frame s = ret (0, s)"

definition sys_write :: "ptr \<Rightarrow> 'a sched_scheme \<Rightarrow> (u64 \<times> 'a sched_scheme) exec" where
  "sys_write frame s = ret (0, s)"

definition sys_brk :: "ptr \<Rightarrow> 'a sched_scheme \<Rightarrow> (u64 \<times> 'a sched_scheme) exec" where
  "sys_brk frame s = ret (0, s)"

section \<open>The table and the dispatcher\<close>

text \<open>The functions that the table can point to.\<close>

datatype syscall_fn = Fn_write | Fn_mmap | Fn_brk | Fn_get_pid | Fn_fork | Fn_exit

fun call_syscall :: "syscall_fn \<Rightarrow> ptr \<Rightarrow> 'a sched_scheme \<Rightarrow> (u64 \<times> 'a sched_scheme) exec" where
  "call_syscall Fn_write = sys_write"
| "call_syscall Fn_mmap = sys_mmap"
| "call_syscall Fn_brk = sys_brk"
| "call_syscall Fn_get_pid = sys_get_pid"
| "call_syscall Fn_fork = sys_fork"
| "call_syscall Fn_exit = sys_exit"

definition MAX_SYSCALLS :: nat where "MAX_SYSCALLS = 512"

record syscalls = sched +
  global_syscall :: "syscall_fn option list"

definition init_syscalls :: "'a syscalls_scheme \<Rightarrow> 'a syscalls_scheme" where
  "init_syscalls s =
     (let s = s\<lparr>global_syscall := (global_syscall s)[1 := Some Fn_write]\<rparr>;
          s = s\<lparr>global_syscall := (global_syscall s)[9 := Some Fn_mmap]\<rparr>;
          s = s\<lparr>global_syscall := (global_syscall s)[12 := Some Fn_brk]\<rparr>;
          s = s\<lparr>global_syscall := (global_syscall s)[39 := Some Fn_get_pid]\<rparr>;
          s = s\<lparr>global_syscall := (global_syscall s)[58 := Some Fn_fork]\<rparr>
      in s\<lparr>global_syscall := (global_syscall s)[60 := Some Fn_exit]\<rparr>)"

definition do_syscall_64 :: "ptr \<Rightarrow> 'a syscalls_scheme \<Rightarrow> 'a syscalls_scheme exec" where
  "do_syscall_64 frame s =
     (let syscall_num = frame_num (frame_at (memory s) frame) in
      if syscall_num \<ge> of_nat MAX_SYSCALLS then ret s
      else
        (case global_syscall s ! unat syscall_num of
           None \<Rightarrow> halt NullCall
         | Some fn \<Rightarrow>
             ebind (call_syscall fn frame s) (\<lambda>(v, s).
             ret (s\<lparr>memory := write64 (memory s) (frame_ret frame) v\<rparr>))))"

section \<open>The entry code\<close>

definition MSRSTAR :: u32 where "MSRSTAR = 0xc0000081"
definition MSRLSTAR :: u32 where "MSRLSTAR = 0xc0000082"
definition MSRCSTAR :: u32 where "MSRCSTAR = 0xc0000083"
definition MSRSFMASK :: u32 where "MSRSFMASK = 0xc0000084"
definition MSRGSBASE :: u32 where "MSRGSBASE = 0xc0000101"
definition MSRKGSBASE :: u32 where "MSRKGSBASE = 0xc0000102"

text \<open>The registers of the processor that a program sees, and the pair that instructions change.\<close>

record cpu_regs =
  gprs :: SyscallFrame
  reg_rsp :: u64
  reg_rip :: u64

type_synonym 'a cpu_state = "cpu_regs \<times> 'a syscalls_scheme"

definition swapgs :: "'c \<times> 'a vmm_scheme \<Rightarrow> 'c \<times> 'a vmm_scheme" where
  "swapgs = (\<lambda>(c, s). (c, s\<lparr>msr := (msr s)(MSRGSBASE := msr s MSRKGSBASE, MSRKGSBASE := msr s MSRGSBASE)\<rparr>))"

text \<open>
  An operand relative to the base of the GS segment. With the base at the address \<open>bsp\<close> of the structure \<open>bsp_cpu\<close> it is
  one of its two members, elsewhere the word of memory there.
\<close>

definition gs_read :: "ptr \<Rightarrow> u64 \<Rightarrow> 'a syscalls_scheme \<Rightarrow> u64" where
  "gs_read bsp off s =
     (if msr s MSRGSBASE = bsp \<and> off = 0 then syscall_kernel_rsp s
      else if msr s MSRGSBASE = bsp \<and> off = 8 then syscall_user_rsp s
      else read64 (memory s) (msr s MSRGSBASE + off))"

definition gs_write :: "ptr \<Rightarrow> u64 \<Rightarrow> u64 \<Rightarrow> 'a syscalls_scheme \<Rightarrow> 'a syscalls_scheme" where
  "gs_write bsp off v s =
     (if msr s MSRGSBASE = bsp \<and> off = 0 then s\<lparr>syscall_kernel_rsp := v\<rparr>
      else if msr s MSRGSBASE = bsp \<and> off = 8 then s\<lparr>syscall_user_rsp := v\<rparr>
      else s\<lparr>memory := write64 (memory s) (msr s MSRGSBASE + off) v\<rparr>)"

definition push :: "u64 \<Rightarrow> 'a cpu_state \<Rightarrow> 'a cpu_state" where
  "push v = (\<lambda>(c, s). (c\<lparr>reg_rsp := reg_rsp c - 8\<rparr>, s\<lparr>memory := write64 (memory s) (reg_rsp c - 8) v\<rparr>))"

definition pop :: "(u64 \<Rightarrow> cpu_regs \<Rightarrow> cpu_regs) \<Rightarrow> 'a cpu_state \<Rightarrow> 'a cpu_state" where
  "pop put = (\<lambda>(c, s). (put (read64 (memory s) (reg_rsp c)) (c\<lparr>reg_rsp := reg_rsp c + 8\<rparr>), s))"

text \<open>What the instruction \<open>syscall\<close> does, and \<open>sysretq\<close>; the code and stack segments follow \<open>STAR\<close>.\<close>

definition cpu_syscall :: "'a cpu_state \<Rightarrow> 'a cpu_state" where
  "cpu_syscall = (\<lambda>(c, s).
     (c\<lparr>gprs := (gprs c)\<lparr>sf_rcx := reg_rip c, sf_r11 := rflags s\<rparr>, reg_rip := msr s MSRLSTAR\<rparr>,
      s\<lparr>rflags := rflags s AND NOT (msr s MSRSFMASK)\<rparr>))"

definition cpu_sysret :: "'a cpu_state \<Rightarrow> 'a cpu_state" where
  "cpu_sysret = (\<lambda>(c, s). (c\<lparr>reg_rip := sf_rcx (gprs c)\<rparr>, s\<lparr>rflags := sf_r11 (gprs c)\<rparr>))"

definition push_frame :: "'a cpu_state \<Rightarrow> 'a cpu_state" where
  "push_frame = (\<lambda>(c, s). let f = gprs c in fold push
     [sf_r15 f, sf_r14 f, sf_r13 f, sf_r12 f, sf_r11 f, sf_r10 f, sf_r9 f, sf_r8 f, sf_rbp f, sf_rsi f, sf_rdi f, sf_rdx f,
      sf_rcx f, sf_rbx f, sf_rax f] (c, s))"

definition pop_frame :: "'a cpu_state \<Rightarrow> 'a cpu_state" where
  "pop_frame = fold pop
     [\<lambda>v c. c\<lparr>gprs := (gprs c)\<lparr>sf_rax := v\<rparr>\<rparr>, \<lambda>v c. c\<lparr>gprs := (gprs c)\<lparr>sf_rbx := v\<rparr>\<rparr>, \<lambda>v c. c\<lparr>gprs := (gprs c)\<lparr>sf_rcx := v\<rparr>\<rparr>,
      \<lambda>v c. c\<lparr>gprs := (gprs c)\<lparr>sf_rdx := v\<rparr>\<rparr>, \<lambda>v c. c\<lparr>gprs := (gprs c)\<lparr>sf_rdi := v\<rparr>\<rparr>, \<lambda>v c. c\<lparr>gprs := (gprs c)\<lparr>sf_rsi := v\<rparr>\<rparr>,
      \<lambda>v c. c\<lparr>gprs := (gprs c)\<lparr>sf_rbp := v\<rparr>\<rparr>, \<lambda>v c. c\<lparr>gprs := (gprs c)\<lparr>sf_r8 := v\<rparr>\<rparr>, \<lambda>v c. c\<lparr>gprs := (gprs c)\<lparr>sf_r9 := v\<rparr>\<rparr>,
      \<lambda>v c. c\<lparr>gprs := (gprs c)\<lparr>sf_r10 := v\<rparr>\<rparr>, \<lambda>v c. c\<lparr>gprs := (gprs c)\<lparr>sf_r11 := v\<rparr>\<rparr>, \<lambda>v c. c\<lparr>gprs := (gprs c)\<lparr>sf_r12 := v\<rparr>\<rparr>,
      \<lambda>v c. c\<lparr>gprs := (gprs c)\<lparr>sf_r13 := v\<rparr>\<rparr>, \<lambda>v c. c\<lparr>gprs := (gprs c)\<lparr>sf_r14 := v\<rparr>\<rparr>, \<lambda>v c. c\<lparr>gprs := (gprs c)\<lparr>sf_r15 := v\<rparr>\<rparr>]"

text \<open>
  The call of the C++ function: it may change every scratch register, \<open>clobber\<close>, and keeps the
  registers that the calling convention reserves, among them \<open>rbp\<close> and \<open>rsp\<close>.
\<close>

definition call_dispatcher :: "(SyscallFrame \<Rightarrow> SyscallFrame) \<Rightarrow> 'a cpu_state \<Rightarrow> 'a cpu_state exec" where
  "call_dispatcher clobber = (\<lambda>(c, s).
     ebind (do_syscall_64 (sf_rdi (gprs c)) s) (\<lambda>s.
     ret (c\<lparr>gprs := (clobber (gprs c))\<lparr>sf_rbx := sf_rbx (gprs c), sf_rbp := sf_rbp (gprs c), sf_r12 := sf_r12 (gprs c),
            sf_r13 := sf_r13 (gprs c), sf_r14 := sf_r14 (gprs c), sf_r15 := sf_r15 (gprs c)\<rparr>\<rparr>, s)))"

definition syscall_enter :: "ptr \<Rightarrow> 'a cpu_state \<Rightarrow> 'a cpu_state" where
  "syscall_enter bsp x =
     (let (c, s) = swapgs x;
          s = gs_write bsp 8 (reg_rsp c) s;
          c = c\<lparr>reg_rsp := gs_read bsp 0 s\<rparr>;
          (c, s) = push (gs_read bsp 8 s) (c, s);
          (c, s) = push (sf_r11 (gprs c)) (c, s);
          (c, s) = push (sf_rcx (gprs c)) (c, s);
          (c, s) = push_frame (c, s);
          s = s\<lparr>rflags := rflags s AND NOT 0x400\<rparr>;
          c = c\<lparr>gprs := (gprs c)\<lparr>sf_rdi := reg_rsp c\<rparr>\<rparr>;
          (c, s) = push (sf_rbp (gprs c)) (c, s);
          c = c\<lparr>gprs := (gprs c)\<lparr>sf_rbp := reg_rsp c\<rparr>\<rparr>
      in (c\<lparr>reg_rsp := reg_rsp c AND NOT 15\<rparr>, s))"

definition syscall_leave :: "'a cpu_state \<Rightarrow> 'a cpu_state" where
  "syscall_leave = (\<lambda>(c, s).
     (let c = c\<lparr>reg_rsp := sf_rbp (gprs c)\<rparr>;
          (c, s) = pop (\<lambda>v c. c\<lparr>gprs := (gprs c)\<lparr>sf_rbp := v\<rparr>\<rparr>) (c, s);
          (c, s) = pop_frame (c, s);
          (c, s) = pop (\<lambda>v c. c\<lparr>gprs := (gprs c)\<lparr>sf_rcx := v\<rparr>\<rparr>) (c, s);
          (c, s) = pop (\<lambda>v c. c\<lparr>gprs := (gprs c)\<lparr>sf_r11 := v\<rparr>\<rparr>) (c, s);
          (c, s) = swapgs (c, s);
          c = c\<lparr>reg_rsp := read64 (memory s) (reg_rsp c)\<rparr>
      in cpu_sysret (c, s)))"

definition syscall_hanlder :: "ptr \<Rightarrow> (SyscallFrame \<Rightarrow> SyscallFrame) \<Rightarrow> 'a cpu_state \<Rightarrow> 'a cpu_state exec" where
  "syscall_hanlder bsp clobber x = ebind (call_dispatcher clobber (syscall_enter bsp x)) (\<lambda>x. ret (syscall_leave x))"

text \<open>A system call from user mode, from the instruction \<open>syscall\<close> to the instruction after it.\<close>

definition user_syscall :: "ptr \<Rightarrow> (SyscallFrame \<Rightarrow> SyscallFrame) \<Rightarrow> 'a cpu_state \<Rightarrow> 'a cpu_state exec" where
  "user_syscall bsp clobber x = syscall_hanlder bsp clobber (cpu_syscall x)"

section \<open>Words on the stack\<close>

lemma below_disjoint:
  fixes sp a b :: u64
  assumes "unat a \<le> 1024" and "unat b \<le> 1024" and "8 dvd unat a" and "8 dvd unat b" and "a \<noteq> b"
  shows "span (sp - a) 8 \<inter> span (sp - b) 8 = {}"
proof -
  have "False" if "unat (y + a) < 8" "unat (y + b) < 8" "unat a < unat b" "unat b \<le> 1024" "8 dvd unat a" "8 dvd unat b"
    for y a b :: u64
  proof -
    have "a \<le> b" using that(3) by (simp add: word_le_nat_alt)
    then have d: "unat (b - a) = unat b - unat a" by (rule unat_sub_le)
    have "8 dvd unat b - unat a" using that(5,6) by (rule dvd_diff_nat [rotated])
    then have "8 \<le> unat b - unat a" using that(3) by (intro dvd_imp_le) simp_all
    moreover have "unat ((y + a) + (b - a)) = unat (y + a) + unat (b - a)"
      using d that(1,4) by (intro unat_add_nowrap) simp
    ultimately show False using that(2) d by simp
  qed
  moreover have "unat a < unat b \<or> unat b < unat a" using assms(5) by (metis linorder_neqE_nat word_unat_eq_iff)
  moreover have "x - (sp - a) = x - sp + a" "x - (sp - b) = x - sp + b" for x by simp_all
  ultimately show ?thesis using assms(1-4) unfolding span_def by (auto simp only: disjoint_iff mem_Collect_eq)
qed

lemma read_below:
  fixes sp a b :: u64
  assumes "unat a \<le> 1024" and "unat b \<le> 1024" and "8 dvd unat a" and "8 dvd unat b"
  shows "read64 (write64 m (sp - a) v) (sp - b) = (if a = b then v else read64 m (sp - b))"
  using below_disjoint [OF assms] read64_write64_other by (cases "a = b") simp_all

text \<open>The memory after a sequence of pushes, read and framed.\<close>

primrec push_words :: "mem \<Rightarrow> u64 \<Rightarrow> u64 list \<Rightarrow> mem" where
  "push_words m sp [] = m"
| "push_words m sp (w # ws) = push_words (write64 m (sp - 8) w) (sp - 8) ws"

lemma fold_push:
  "fold push ws (c, s) = (c\<lparr>reg_rsp := reg_rsp c - 8 * of_nat (length ws)\<rparr>, s\<lparr>memory := push_words (memory s) (reg_rsp c) ws\<rparr>)"
  by (induction ws arbitrary: c s) (simp_all add: push_def algebra_simps)

lemma push_words_append: "push_words m sp (ws @ vs) = push_words (push_words m sp ws) (sp - 8 * of_nat (length ws)) vs"
  by (induction ws arbitrary: m sp) (simp_all add: algebra_simps)

lemma unat_slot: "n \<le> 128 \<Longrightarrow> unat (8 * of_nat n :: u64) = 8 * n"
  by (simp add: unat_word_ariths(2) unat_of_nat take_bit_eq_mod)

lemma push_words_read:
  assumes "length ws \<le> 128" and "i < length ws"
  shows "read64 (push_words m sp ws) (sp - 8 * of_nat (Suc i)) = ws ! i"
  using assms
proof (induction ws rule: rev_induct)
  case (snoc w ws)
  let ?n = "Suc (length ws)"
  have "(8 * of_nat ?n = (8 * of_nat (Suc i) :: u64)) = (length ws = i)"
    using snoc.prems unat_slot [of ?n] unat_slot [of "Suc i"] by (auto simp: word_unat_eq_iff simp del: of_nat_Suc)
  moreover have "push_words m sp (ws @ [w]) = write64 (push_words m sp ws) (sp - 8 * of_nat ?n) w"
    by (simp add: push_words_append algebra_simps)
  ultimately show ?case
    using snoc read_below [of "8 * of_nat ?n" "8 * of_nat (Suc i)" "push_words m sp ws" sp w]
      unat_slot [of ?n] unat_slot [of "Suc i"]
    by (auto simp: nth_append simp del: of_nat_Suc)
qed simp

lemma push_words_same:
  assumes "length ws \<le> 128"
  shows "same_on (- span (sp - 8 * of_nat (length ws)) (8 * length ws)) m (push_words m sp ws)"
  using assms
proof (induction ws arbitrary: m sp)
  case (Cons w ws)
  define b where "b = sp - 8 - 8 * of_nat (length ws)"
  have b: "sp - 8 * of_nat (length (w # ws)) = b" "sp - 8 = b + 8 * of_nat (length ws)" by (simp_all add: b_def algebra_simps)
  have sub: "span (b + 8 * of_nat (length ws)) 8 \<subseteq> span b (8 * length (w # ws))"
    using Cons.prems unat_slot [of "length ws"] by (intro span_sub) simp_all
  have "same_on (- span b (8 * length (w # ws))) m (write64 m (sp - 8) w)"
    unfolding b(2) using sub by (intro same_on_write64) blast
  moreover have "same_on (- span b (8 * length ws)) (write64 m (sp - 8) w) (push_words (write64 m (sp - 8) w) (sp - 8) ws)"
    using Cons.IH [of "sp - 8" "write64 m (sp - 8) w"] Cons.prems by (simp add: b_def)
  then have "same_on (- span b (8 * length (w # ws))) (write64 m (sp - 8) w) (push_words (write64 m (sp - 8) w) (sp - 8) ws)"
    using span_mono [of "8 * length ws" "8 * length (w # ws)" b] by (elim same_on_mono) auto
  ultimately show ?case unfolding b(1) push_words.simps by (rule same_on_trans)
qed simp

section \<open>The handlers leave memory, the devices and the saved contexts alone\<close>

definition same_mem :: "'a sched_scheme \<Rightarrow> 'a sched_scheme \<Rightarrow> bool" where
  "same_mem s s' \<longleftrightarrow> memory s' = memory s \<and> msr s' = msr s \<and> io_log s' = io_log s \<and> tick s' = tick s
     \<and> (\<forall>t. registers (thread_at s' t) = registers (thread_at s t))"

lemma same_mem_refl [simp]: "same_mem s s"
  by (simp add: same_mem_def)

lemma same_mem_trans: "same_mem s s' \<Longrightarrow> same_mem s' s'' \<Longrightarrow> same_mem s s''"
  by (simp add: same_mem_def)

text \<open>An outcome that leaves memory alone if it returns; \<open>g\<close> picks the state out of what is returned.\<close>

definition mem_kept :: "('r \<Rightarrow> 'a sched_scheme) \<Rightarrow> 'a sched_scheme \<Rightarrow> 'r exec \<Rightarrow> bool" where
  "mem_kept g s m \<longleftrightarrow> (\<forall>x. m = ret x \<longrightarrow> same_mem s (g x))"

lemma mem_kept_ret [simp]: "mem_kept g s (ret x) = same_mem s (g x)" "mem_kept g s (halt e)" "mem_kept g s diverges"
  by (simp_all add: mem_kept_def)

lemma mem_kept_ebind:
  "mem_kept g' s m \<Longrightarrow> (\<And>x. same_mem s (g' x) \<Longrightarrow> mem_kept g s (f x)) \<Longrightarrow> mem_kept g s (ebind m f)"
  by (auto simp: mem_kept_def ebind_eq_ret)

lemma mem_keptD: "mem_kept g s m \<Longrightarrow> m = ret x \<Longrightarrow> same_mem s (g x)"
  by (simp add: mem_kept_def)

lemma same_mem_ops [simp]:
  "same_mem s (start_slice t s') = same_mem s s'" "same_mem s (use_stack_of t s') = same_mem s s'"
  "same_mem s (set_state x t s') = same_mem s s'" "same_mem s (upd_thread t (\<lambda>b. b\<lparr>scheduled_time := k b\<rparr>) s') = same_mem s s'"
  "same_mem s (upd_thread t (\<lambda>b. b\<lparr>sleep_time := k b\<rparr>) s') = same_mem s s'"
  "same_mem s (upd_process p h s') = same_mem s s'" "same_mem s (ready_push_tail t s') = same_mem s s'"
  "same_mem s (reset_scheduled_time t s') = same_mem s s'" "same_mem s (load_cr3 v s') = same_mem s s'"
  "same_mem s (s'\<lparr>time_quantum_past := b\<rparr>) = same_mem s s'" "same_mem s (s'\<lparr>task_switch_postponed := b\<rparr>) = same_mem s s'"
  "same_mem s (s'\<lparr>hook := nx\<rparr>) = same_mem s s'" "same_mem s (s'\<lparr>waiting_queue := q\<rparr>) = same_mem s s'"
  "same_mem s (s'\<lparr>ready_threads := q\<rparr>) = same_mem s s'" "same_mem s (s'\<lparr>rflags := fl\<rparr>) = same_mem s s'"
  "same_mem s (s'\<lparr>task_switch_counter := n\<rparr>) = same_mem s s'" "same_mem s (s'\<lparr>disable_counter := n\<rparr>) = same_mem s s'"
  "same_mem s (lock_scheduler s') = same_mem s s'"
  by (auto simp: same_mem_def start_slice_def use_stack_of_def set_state_def upd_thread_def upd_process_def
      ready_push_tail_def reset_scheduled_time_def lock_scheduler_def load_cr3_def Let_def case_prod_beta)

lemma load_space_mem: "same_mem s s' \<Longrightarrow> mem_kept (\<lambda>x. x) s (load_space_of t s')"
  by (simp add: load_space_of_def Let_def)

lemma add_ready_mem: "same_mem s s' \<Longrightarrow> mem_kept (\<lambda>x. x) s (add_ready_threads t s')"
  by (auto simp: add_ready_threads_def Let_def case_prod_beta intro!: mem_kept_ebind [OF load_space_mem])

lemma switch_task_mem: "same_mem s s' \<Longrightarrow> mem_kept (\<lambda>x. x) s (switch_task t s')"
  unfolding switch_task_def
  by (auto simp: Let_def intro!: mem_kept_ebind [where g' = "\<lambda>x. x"] load_space_mem add_ready_mem)

lemma schedule_mem: "same_mem s s' \<Longrightarrow> mem_kept (\<lambda>x. x) s (schedule s')"
  by (auto simp: schedule_def Let_def case_prod_beta intro!: switch_task_mem)

lemma remove_loop_mem:
  assumes "same_mem t s"
  shows "mem_kept (\<lambda>x. x) t (remove_loop p it s)"
proof -
  let ?P = "\<lambda>p it s r. \<forall>s'. r = Inr s' \<longrightarrow> same_mem s s'"
  have "?P p it s r" if run: "remove_loop p it s = Some r" for r
  proof (rule remove_loop.raw_induct [of ?P, OF _ run])
    fix f p it and s :: "'a sched_scheme" and r
    assume IH: "\<And>p it s r. f p it s = Some r \<Longrightarrow> ?P p it s r"
      and eq: "(if it_ptr it = null then ret s
        else ebind (remove_waiting_of p (it_ptr it) s) (\<lambda>s. f p (Iterator_inc (hook s) it) s)) = Some r"
    have "mem_kept (\<lambda>x. x) s (remove_waiting_of p (it_ptr it) s)"
      by (auto simp: remove_waiting_of_def waiting_remove_def case_prod_beta mem_kept_def ebind_eq_ret)
    moreover have "mem_kept (\<lambda>x. x) s (f p (Iterator_inc (hook u) it) u)" if "same_mem s u" for u
      using IH same_mem_trans [OF that] by (fastforce simp: mem_kept_def)
    ultimately have "mem_kept (\<lambda>x. x) s (ebind (remove_waiting_of p (it_ptr it) s) (\<lambda>s. f p (Iterator_inc (hook s) it) s))"
      by (rule mem_kept_ebind)
    then show "?P p it s r" using eq by (auto simp: mem_kept_def split: if_splits)
  qed
  then show ?thesis using same_mem_trans [OF assms] by (auto simp: mem_kept_def)
qed

lemma remove_dead_mem: "same_mem s s' \<Longrightarrow> mem_kept snd s (remove_dead_process_threads s')"
  unfolding remove_dead_process_threads_def get_current_process_eq
  by (auto intro!: mem_kept_ebind [where g' = "\<lambda>x. x"] remove_loop_mem schedule_mem)

lemma unlock_scheduler_mem: "same_mem s s' \<Longrightarrow> mem_kept (\<lambda>x. x) s (unlock_scheduler s')"
  by (auto simp: unlock_scheduler_def Let_def intro!: mem_kept_ebind [where g' = "\<lambda>x. x"] schedule_mem)

lemma waiting_remove_mem: "same_mem s s' \<Longrightarrow> mem_kept (\<lambda>x. x) s (waiting_remove t s')"
  by (auto simp: waiting_remove_def mem_kept_def ebind_eq_ret case_prod_beta)

lemma unblock_mem: "same_mem s s' \<Longrightarrow> mem_kept (\<lambda>x. x) s (unblock t s')"
  unfolding unblock_def Let_def
  by (intro mem_kept_ebind [where g' = "\<lambda>x. x"] waiting_remove_mem)
    (auto intro!: mem_kept_ebind [where g' = "\<lambda>x. x"] switch_task_mem unlock_scheduler_mem)

lemma wake_sleeper_mem: "same_mem s s' \<Longrightarrow> mem_kept (\<lambda>x. x) s (wake_sleeper t s')"
  unfolding wake_sleeper_def Let_def by (auto intro!: unblock_mem)

lemma wake_loop_mem:
  assumes "same_mem t s"
  shows "mem_kept (\<lambda>x. x) t (wake_loop it s)"
proof -
  let ?P = "\<lambda>it s r. \<forall>s'. r = Inr s' \<longrightarrow> same_mem s s'"
  have "?P it s r" if run: "wake_loop it s = Some r" for r
  proof (rule wake_loop.raw_induct [of ?P, OF _ run])
    fix f it and s :: "'a sched_scheme" and r
    assume IH: "\<And>it s r. f it s = Some r \<Longrightarrow> ?P it s r"
      and eq: "(if it_ptr it = null then ret s
        else ebind (wake_sleeper (it_ptr it) s) (\<lambda>s. f (Iterator_inc (hook s) it) s)) = Some r"
    have "mem_kept (\<lambda>x. x) s (f (Iterator_inc (hook u) it) u)" if "same_mem s u" for u
      using IH same_mem_trans [OF that] by (fastforce simp: mem_kept_def)
    with wake_sleeper_mem [OF same_mem_refl]
    have "mem_kept (\<lambda>x. x) s (ebind (wake_sleeper (it_ptr it) s) (\<lambda>s. f (Iterator_inc (hook s) it) s))"
      by (rule mem_kept_ebind)
    then show "?P it s r" using eq by (auto simp: mem_kept_def split: if_splits)
  qed
  then show ?thesis using same_mem_trans [OF assms] by (auto simp: mem_kept_def)
qed

text \<open>The timer interrupt saves the frame in the running thread, and otherwise keeps what the handlers keep.\<close>

lemma pit_irq_handler_mem:
  assumes "pit_irq_handler frame s = ret (f, s')"
  shows "memory s' = memory s \<and> msr s' = msr s \<and> io_log s' = io_log s \<and> tick s' = tick s"
proof (cases "curr_thread s = null")
  case False
  define s1 where "s1 = upd_thread (curr_thread s) (\<lambda>t. t\<lparr>total_runtime_ms := total_runtime_ms t + 1\<rparr>)
    (upd_thread (curr_thread s) (\<lambda>t. t\<lparr>registers := frame\<rparr>) (lock_scheduler s))"
  have c: "curr_thread (lock_scheduler s) = curr_thread s" "curr_thread (upd_thread t g (lock_scheduler s)) = curr_thread s" for t g
    by (simp_all add: lock_scheduler_def upd_thread_def)
  let ?rest = "ebind (wake_loop (begin_it (hook s1) (waiting_queue s1)) s1) (\<lambda>s.
      (let now = get_time_milliseconds s;
           delta = now - exec_start_ms (thread_at s (curr_thread s))
       in ebind (if delta \<ge> scheduled_time (thread_at s (curr_thread s)) then schedule s
                 else if delta = DEFAULT_TIME_QUANTUM then schedule (s\<lparr>time_quantum_past := True\<rparr>)
                 else ret s) (\<lambda>s.
          ebind (unlock_scheduler s) (\<lambda>s. ret (registers (thread_at s (curr_thread s)), s)))))"
  have "mem_kept snd s1 ?rest"
    unfolding Let_def
    by (intro mem_kept_ebind [where g' = "\<lambda>x. x"] wake_loop_mem unlock_scheduler_mem) (auto intro: schedule_mem)
  moreover have "?rest = ret (f, s')"
    using assms False unfolding pit_irq_handler_def Let_def c s1_def by simp
  ultimately have "same_mem s1 s'" by (auto dest: mem_keptD)
  moreover have "memory s1 = memory s" "msr s1 = msr s" "io_log s1 = io_log s" "tick s1 = tick s"
    by (simp_all add: s1_def upd_thread_def lock_scheduler_def Let_def)
  ultimately show ?thesis by (simp add: same_mem_def)
qed (use assms in \<open>simp add: pit_irq_handler_def\<close>)

lemma guarded_mem:
  "same_mem s s' \<Longrightarrow> (\<And>u. same_mem s u \<Longrightarrow> mem_kept (\<lambda>x. x) s (body u)) \<Longrightarrow> mem_kept (\<lambda>x. x) s (guarded body s')"
  by (auto simp: guarded_def case_prod_beta intro!: mem_kept_ebind [where g' = "\<lambda>x. x"])

lemma klog_panic_mem: "mem_kept g s (klog_panic fmt s')"
  by (simp add: klog_panic_def mem_kept_def ebind_eq_ret)

lemma remove_all_threads_mem: "same_mem s s' \<Longrightarrow> mem_kept (\<lambda>x. x) s (remove_all_threads this s')"
  by (auto simp: remove_all_threads_def intro!: guarded_mem)

lemma process_exit_mem: "same_mem s s' \<Longrightarrow> mem_kept (\<lambda>x. x) s (process_exit this stat s')"
  unfolding process_exit_def Let_def case_prod_beta
  by (auto intro!: guarded_mem remove_all_threads_mem klog_panic_mem mem_kept_ebind [OF remove_dead_mem]
      mem_kept_ebind [where g' = "\<lambda>x. x"])

lemma call_syscall_mem: "mem_kept snd s (call_syscall fn frame s)"
  by (cases fn) (auto simp: sys_write_def sys_mmap_def sys_brk_def sys_fork_def sys_get_pid_def sys_exit_def Let_def
      get_current_process_eq intro!: mem_kept_ebind [OF remove_all_threads_mem] mem_kept_ebind [OF process_exit_mem])

section \<open>The way in and out\<close>

text \<open>The words on the kernel stack while a system call runs, in the order in which they are pushed.\<close>

definition stacked :: "SyscallFrame \<Rightarrow> u64 \<Rightarrow> u64 list" where
  "stacked f sp = [sp, sf_r11 f, sf_rcx f, sf_r15 f, sf_r14 f, sf_r13 f, sf_r12 f, sf_r11 f, sf_r10 f, sf_r9 f, sf_r8 f, sf_rbp f,
     sf_rsi f, sf_rdi f, sf_rdx f, sf_rcx f, sf_rbx f, sf_rax f, sf_rbp f]"

lemma length_stacked [simp]: "length (stacked f sp) = 19"
  by (simp add: stacked_def)

abbreviation swapped :: "'a vmm_scheme \<Rightarrow> u32 \<Rightarrow> u64" where
  "swapped s \<equiv> (msr s)(MSRGSBASE := msr s MSRKGSBASE, MSRKGSBASE := msr s MSRGSBASE)"

lemma syscall_enter_eq:
  assumes "msr s MSRKGSBASE = bsp"
  shows "syscall_enter bsp (c, s) =
    (c\<lparr>gprs := (gprs c)\<lparr>sf_rdi := syscall_kernel_rsp s - 144, sf_rbp := syscall_kernel_rsp s - 152\<rparr>,
       reg_rsp := (syscall_kernel_rsp s - 152) AND NOT 15\<rparr>,
     s\<lparr>msr := swapped s, syscall_user_rsp := reg_rsp c, rflags := rflags s AND NOT 0x400,
       memory := push_words (memory s) (syscall_kernel_rsp s) (stacked (gprs c) (reg_rsp c))\<rparr>)"
  using assms
  by (simp add: syscall_enter_def swapgs_def gs_write_def gs_read_def push_def push_frame_def stacked_def Let_def
      MSRGSBASE_def MSRKGSBASE_def)

lemma stacked_read:
  assumes "\<And>i. i < 19 \<Longrightarrow> read64 m (k - 8 * of_nat (Suc i)) = stacked f sp ! i"
  shows "read64 m (k - 152) = sf_rbp f" "read64 m (k - 24) = sf_rcx f" "read64 m (k - 16) = sf_r11 f" "read64 m (k - 8) = sp"
    "frame_at m (k - 144) = f"
  using assms [of 0] assms [of 1] assms [of 2] assms [of 3] assms [of 4] assms [of 5] assms [of 6] assms [of 7] assms [of 8]
    assms [of 9] assms [of 10] assms [of 11] assms [of 12] assms [of 13] assms [of 14] assms [of 15] assms [of 16]
    assms [of 17] assms [of 18]
  by (simp_all add: stacked_def frame_at_def)

lemma SyscallFrame_rebuilt:
  "g\<lparr>sf_rax := sf_rax f, sf_rbx := sf_rbx f, sf_rcx := sf_rcx f, sf_rdx := sf_rdx f, sf_rdi := sf_rdi f, sf_rsi := sf_rsi f,
     sf_rbp := sf_rbp f, sf_r8 := sf_r8 f, sf_r9 := sf_r9 f, sf_r10 := sf_r10 f, sf_r11 := sf_r11 f, sf_r12 := sf_r12 f,
     sf_r13 := sf_r13 f, sf_r14 := sf_r14 f, sf_r15 := sf_r15 f\<rparr> = (f :: SyscallFrame)"
  by (cases f) simp

lemma syscall_leave_eq:
  assumes "sf_rbp (gprs c) = k - 152" and "\<And>i. i < 19 \<Longrightarrow> read64 (memory s) (k - 8 * of_nat (Suc i)) = stacked f sp ! i"
  shows "syscall_leave (c, s) = (c\<lparr>gprs := f, reg_rsp := sp, reg_rip := sf_rcx f\<rparr>, s\<lparr>msr := swapped s, rflags := sf_r11 f\<rparr>)"
proof -
  note r = stacked_read [OF assms(2)]
  have f: "sf_rax (frame_at (memory s) (k - 144)) = sf_rax f" "sf_rbx (frame_at (memory s) (k - 144)) = sf_rbx f"
    "sf_rcx (frame_at (memory s) (k - 144)) = sf_rcx f" "sf_rdx (frame_at (memory s) (k - 144)) = sf_rdx f"
    "sf_rdi (frame_at (memory s) (k - 144)) = sf_rdi f" "sf_rsi (frame_at (memory s) (k - 144)) = sf_rsi f"
    "sf_rbp (frame_at (memory s) (k - 144)) = sf_rbp f" "sf_r8 (frame_at (memory s) (k - 144)) = sf_r8 f"
    "sf_r9 (frame_at (memory s) (k - 144)) = sf_r9 f" "sf_r10 (frame_at (memory s) (k - 144)) = sf_r10 f"
    "sf_r11 (frame_at (memory s) (k - 144)) = sf_r11 f" "sf_r12 (frame_at (memory s) (k - 144)) = sf_r12 f"
    "sf_r13 (frame_at (memory s) (k - 144)) = sf_r13 f" "sf_r14 (frame_at (memory s) (k - 144)) = sf_r14 f"
    "sf_r15 (frame_at (memory s) (k - 144)) = sf_r15 f"
    by (simp_all only: r)
  show ?thesis
    using r(1-4) f assms(1)
    by (simp add: syscall_leave_def pop_def pop_frame_def swapgs_def cpu_sysret_def frame_at_def SyscallFrame_rebuilt)
qed

section \<open>A system call\<close>

text \<open>The state in which the kernel serves the call, with the frame at \<open>syscall_kernel_rsp s - 144\<close>.\<close>

definition served_in :: "cpu_regs \<Rightarrow> 'a syscalls_scheme \<Rightarrow> 'a syscalls_scheme" where
  "served_in c s =
     s\<lparr>msr := swapped s, syscall_user_rsp := reg_rsp c, rflags := (rflags s AND NOT (msr s MSRSFMASK)) AND NOT 0x400,
       memory := push_words (memory s) (syscall_kernel_rsp s)
         (stacked ((gprs c)\<lparr>sf_rcx := reg_rip c, sf_r11 := rflags s\<rparr>) (reg_rsp c))\<rparr>"

definition with_result :: "u64 \<Rightarrow> cpu_regs \<Rightarrow> 'a syscalls_scheme \<Rightarrow> cpu_regs" where
  "with_result v c s = c\<lparr>gprs := (gprs c)\<lparr>sf_rax := v, sf_rcx := reg_rip c, sf_r11 := rflags s\<rparr>\<rparr>"

lemma served_in_slots:
  "i < 19 \<Longrightarrow> read64 (memory (served_in c s)) (syscall_kernel_rsp s - 8 * of_nat (Suc i))
     = stacked ((gprs c)\<lparr>sf_rcx := reg_rip c, sf_r11 := rflags s\<rparr>) (reg_rsp c) ! i"
  unfolding served_in_def by (simp add: push_words_read del: of_nat_Suc)

lemma served_in_frame:
  "frame_at (memory (served_in c s)) (syscall_kernel_rsp s - 144) = (gprs c)\<lparr>sf_rcx := reg_rip c, sf_r11 := rflags s\<rparr>"
  by (rule stacked_read(5) [OF served_in_slots])

lemma served_in_memory:
  "same_on (- span (syscall_kernel_rsp s - 152) 152) (memory s) (memory (served_in c s))"
  using push_words_same [of "stacked ((gprs c)\<lparr>sf_rcx := reg_rip c, sf_r11 := rflags s\<rparr>) (reg_rsp c)"]
  by (simp add: served_in_def)

lemma result_slots:
  assumes "i < 19"
  shows "read64 (write64 (memory (served_in c s)) (syscall_kernel_rsp s - 144) v) (syscall_kernel_rsp s - 8 * of_nat (Suc i))
     = stacked ((gprs c)\<lparr>sf_rax := v, sf_rcx := reg_rip c, sf_r11 := rflags s\<rparr>) (reg_rsp c) ! i"
proof -
  have u: "unat (8 * of_nat (Suc i) :: u64) = 8 * Suc i" using assms by (intro unat_slot) simp
  have e: "(144 = (8 * of_nat (Suc i) :: u64)) = (i = 17)"
    unfolding word_unat_eq_iff u by simp
  have "stacked (f\<lparr>sf_rax := v, sf_rcx := x, sf_r11 := y\<rparr>) sp = (stacked (f\<lparr>sf_rcx := x, sf_r11 := y\<rparr>) sp)[17 := v]"
    for f :: SyscallFrame and x y sp
    by (simp add: stacked_def)
  then show ?thesis
    using assms u e read_below [of 144 "8 * of_nat (Suc i)" "memory (served_in c s)" "syscall_kernel_rsp s" v]
      served_in_slots [OF assms, of c s]
    by (simp add: nth_list_update del: of_nat_Suc)
qed

lemma user_syscall_eq:
  assumes "msr s MSRKGSBASE = bsp"
  shows "user_syscall bsp clobber (c, s) =
    (if 512 \<le> sf_rax (gprs c) then ret (with_result (sf_rax (gprs c)) c s, (served_in c s)\<lparr>rflags := rflags s, msr := msr s\<rparr>)
     else case global_syscall s ! unat (sf_rax (gprs c)) of
         None \<Rightarrow> halt NullCall
       | Some fn \<Rightarrow> ebind (call_syscall fn (syscall_kernel_rsp s - 144) (served_in c s)) (\<lambda>(v, s').
           ret (with_result v c s, s'\<lparr>rflags := rflags s, msr := msr s,
             memory := write64 (memory (served_in c s)) (syscall_kernel_rsp s - 144) v\<rparr>)))"
proof -
  let ?k = "syscall_kernel_rsp s" and ?f = "(gprs c)\<lparr>sf_rcx := reg_rip c, sf_r11 := rflags s\<rparr>"
  define c1 where "c1 = c\<lparr>gprs := ?f\<lparr>sf_rdi := ?k - 144, sf_rbp := ?k - 152\<rparr>, reg_rsp := (?k - 152) AND NOT 15, reg_rip := msr s MSRLSTAR\<rparr>"
  have enter: "syscall_enter bsp (cpu_syscall (c, s)) = (c1, served_in c s)"
    using assms by (simp add: cpu_syscall_def syscall_enter_eq served_in_def c1_def)
  have swap: "swapped (s'\<lparr>rflags := fl\<rparr>) = msr s" if "msr s' = msr (served_in c s)" for s' :: "'a syscalls_scheme" and fl
    using that by (auto simp: served_in_def MSRGSBASE_def MSRKGSBASE_def fun_eq_iff)
  have leave0: "syscall_leave (c2, served_in c s) = (c2\<lparr>gprs := ?f, reg_rsp := reg_rsp c, reg_rip := reg_rip c\<rparr>,
      (served_in c s)\<lparr>rflags := rflags s, msr := msr s\<rparr>)" if "sf_rbp (gprs c2) = ?k - 152" for c2
    using syscall_leave_eq [OF that served_in_slots] swap [of "served_in c s"] by simp
  have leave: "syscall_leave (c2, s'\<lparr>memory := write64 (memory (served_in c s)) (?k - 144) v\<rparr>)
      = (c2\<lparr>gprs := ?f\<lparr>sf_rax := v\<rparr>, reg_rsp := reg_rsp c, reg_rip := reg_rip c\<rparr>,
         s'\<lparr>rflags := rflags s, msr := msr s, memory := write64 (memory (served_in c s)) (?k - 144) v\<rparr>)"
    if "sf_rbp (gprs c2) = ?k - 152" "msr s' = msr (served_in c s)" for c2 v and s' :: "'a syscalls_scheme"
    using syscall_leave_eq [OF that(1), of "s'\<lparr>memory := write64 (memory (served_in c s)) (?k - 144) v\<rparr>"
        "(gprs c)\<lparr>sf_rax := v, sf_rcx := reg_rip c, sf_r11 := rflags s\<rparr>" "reg_rsp c"] result_slots [of _ c s v] swap [OF that(2)]
    by (simp del: of_nat_Suc)
  have num: "frame_num (frame_at (memory (served_in c s)) (?k - 144)) = sf_rax (gprs c)"
    by (simp add: frame_num_def served_in_frame)
  have call: "user_syscall bsp clobber (c, s) = ebind (call_dispatcher clobber (c1, served_in c s)) (\<lambda>x. ret (syscall_leave x))"
    by (simp add: user_syscall_def syscall_hanlder_def enter)
  have tab: "global_syscall (served_in c s) = global_syscall s" by (simp add: served_in_def)
  have c1: "sf_rdi (gprs c1) = ?k - 144" "sf_rbp (gprs c1) = ?k - 152" by (simp_all add: c1_def)
  consider (big) "512 \<le> sf_rax (gprs c)" | (none) "\<not> 512 \<le> sf_rax (gprs c)" "global_syscall s ! unat (sf_rax (gprs c)) = None"
    | (some) fn where "\<not> 512 \<le> sf_rax (gprs c)" "global_syscall s ! unat (sf_rax (gprs c)) = Some fn"
    by fastforce
  then show ?thesis
  proof cases
    case big
    then show ?thesis
      by (simp add: call call_dispatcher_def do_syscall_64_def num c1 MAX_SYSCALLS_def leave0 with_result_def c1_def)
  next
    case none
    then show ?thesis by (simp add: call call_dispatcher_def do_syscall_64_def num c1 tab MAX_SYSCALLS_def)
  next
    case some
    show ?thesis
    proof (cases "call_syscall fn (?k - 144) (served_in c s)")
      case (Some r)
      show ?thesis
        using some mem_keptD [OF call_syscall_mem, of fn "?k - 144" "served_in c s"]
        by (cases r)
          (auto simp: call call_dispatcher_def do_syscall_64_def num c1 tab MAX_SYSCALLS_def Some frame_ret_def same_mem_def leave
            with_result_def c1_def)
    qed (use some in \<open>simp add: call call_dispatcher_def do_syscall_64_def num c1 tab MAX_SYSCALLS_def\<close>)
  qed
qed

section \<open>Properties\<close>

definition test_syscalls :: syscalls where
  "test_syscalls = init_syscalls ((sched.extend (test_sched 0x200 [] []) \<lparr>global_syscall = replicate 512 None\<rparr>)
     \<lparr>msr := (\<lambda>_. 0)(MSRKGSBASE := 0x5000, MSRSFMASK := 0x700), rflags := 0x202\<rparr>)"

definition test_regs :: "u64 \<Rightarrow> cpu_regs" where
  "test_regs num = \<lparr>gprs = \<lparr>sf_rax = num, sf_rbx = 1, sf_rcx = 2, sf_rdx = 3, sf_rdi = 4, sf_rsi = 5, sf_rbp = 6, sf_r8 = 7, sf_r9 = 8,
     sf_r10 = 9, sf_r11 = 10, sf_r12 = 11, sf_r13 = 12, sf_r14 = 13, sf_r15 = 14\<rparr>, reg_rsp = 0x7000, reg_rip = 0x400000\<rparr>"

lemma test_syscalls_sel [simp]:
  "msr test_syscalls MSRKGSBASE = 0x5000" "rflags test_syscalls = 0x202" "syscall_kernel_rsp test_syscalls = 0x9200"
  "curr_thread test_syscalls = 0x200" "thread_at test_syscalls = thread_at (test_sched 0x200 [] [])"
  "process_at test_syscalls = (\<lambda>p. test_process (p * 0x1000))"
  by (simp_all add: test_syscalls_def init_syscalls_def Let_def sched.defs MSRKGSBASE_def MSRSFMASK_def test_sched_def procs.defs pit.defs)

lemma global_init: "length (global_syscall s) = 512 \<Longrightarrow> global_syscall (init_syscalls s) ! 39 = Some Fn_get_pid"
  "length (global_syscall s) = 512 \<Longrightarrow> global_syscall (init_syscalls s) ! 60 = Some Fn_exit"
  by (simp_all add: init_syscalls_def Let_def)

lemma test_syscalls_table: "global_syscall test_syscalls ! 39 = Some Fn_get_pid" "global_syscall test_syscalls ! 60 = Some Fn_exit"
  unfolding test_syscalls_def by (rule global_init; simp add: sched.defs)+

text \<open>
  Claim C4. A system call from user mode to the next user instruction, when the user finds \<open>bsp_cpu\<close> behind \<open>swapgs\<close>. The
  handler runs in a state that differs from the one of the program only in 152 bytes of kernel stack, the saved stack pointer,
  the masked flags and the two swapped registers, and finds the registers of the program in its frame. A
  number of 512 or more changes nothing, an empty slot is called as a null pointer, and otherwise the program resumes
  with its own stack pointer, address and flags and with all registers as before but \<open>rax\<close>, which has the result,
  and \<open>rcx\<close> and \<open>r11\<close>, which the instruction itself overwrites.
\<close>

theorem syscall_round_trip:
  assumes "msr s MSRKGSBASE = bsp"
  shows "\<exists>s1. frame_at (memory s1) (syscall_kernel_rsp s - 144) = (gprs c)\<lparr>sf_rcx := reg_rip c, sf_r11 := rflags s\<rparr>
    \<and> same_on (- span (syscall_kernel_rsp s - 152) 152) (memory s) (memory s1)
    \<and> s1 = s\<lparr>memory := memory s1, syscall_user_rsp := reg_rsp c, rflags := (rflags s AND NOT (msr s MSRSFMASK)) AND NOT 0x400,
              msr := (msr s)(MSRGSBASE := bsp, MSRKGSBASE := msr s MSRGSBASE)\<rparr>
    \<and> user_syscall bsp clobber (c, s) =
        (if 512 \<le> sf_rax (gprs c)
         then ret (c\<lparr>gprs := (gprs c)\<lparr>sf_rcx := reg_rip c, sf_r11 := rflags s\<rparr>\<rparr>, s1\<lparr>rflags := rflags s, msr := msr s\<rparr>)
         else case global_syscall s ! unat (sf_rax (gprs c)) of
             None \<Rightarrow> halt NullCall
           | Some fn \<Rightarrow> ebind (call_syscall fn (syscall_kernel_rsp s - 144) s1) (\<lambda>(v, s').
               ret (c\<lparr>gprs := (gprs c)\<lparr>sf_rax := v, sf_rcx := reg_rip c, sf_r11 := rflags s\<rparr>\<rparr>,
                 s'\<lparr>rflags := rflags s, msr := msr s, memory := write64 (memory s1) (syscall_kernel_rsp s - 144) v\<rparr>)))"
proof (intro exI [of _ "served_in c s"] conjI)
  show "served_in c s = s\<lparr>memory := memory (served_in c s), syscall_user_rsp := reg_rsp c,
      rflags := (rflags s AND NOT (msr s MSRSFMASK)) AND NOT 0x400, msr := (msr s)(MSRGSBASE := bsp, MSRKGSBASE := msr s MSRGSBASE)\<rparr>"
    by (simp add: served_in_def assms)
  have "with_result (sf_rax (gprs c)) c s = c\<lparr>gprs := (gprs c)\<lparr>sf_rcx := reg_rip c, sf_r11 := rflags s\<rparr>\<rparr>"
    by (simp add: with_result_def)
  then show "user_syscall bsp clobber (c, s) =
      (if 512 \<le> sf_rax (gprs c)
       then ret (c\<lparr>gprs := (gprs c)\<lparr>sf_rcx := reg_rip c, sf_r11 := rflags s\<rparr>\<rparr>, (served_in c s)\<lparr>rflags := rflags s, msr := msr s\<rparr>)
       else case global_syscall s ! unat (sf_rax (gprs c)) of
           None \<Rightarrow> halt NullCall
         | Some fn \<Rightarrow> ebind (call_syscall fn (syscall_kernel_rsp s - 144) (served_in c s)) (\<lambda>(v, s').
             ret (c\<lparr>gprs := (gprs c)\<lparr>sf_rax := v, sf_rcx := reg_rip c, sf_r11 := rflags s\<rparr>\<rparr>,
               s'\<lparr>rflags := rflags s, msr := msr s,
                 memory := write64 (memory (served_in c s)) (syscall_kernel_rsp s - 144) v\<rparr>)))"
    unfolding user_syscall_eq [OF assms] by (simp only: with_result_def)
qed (rule served_in_frame served_in_memory)+

theorem syscall_round_trip_witness:
  "\<exists>s'. user_syscall 0x5000 id (test_regs 39, test_syscalls) =
     ret (test_regs 39\<lparr>gprs := (gprs (test_regs 39))\<lparr>sf_rax := 1, sf_rcx := 0x400000, sf_r11 := 0x202\<rparr>\<rparr>, s')"
proof -
  have n: "sf_rax (gprs (test_regs 39)) = 39" "reg_rip (test_regs 39) = 0x400000" by (simp_all add: test_regs_def)
  obtain s1 where s1: "s1 = test_syscalls\<lparr>memory := memory s1, syscall_user_rsp := reg_rsp (test_regs 39),
        rflags := (rflags test_syscalls AND NOT (msr test_syscalls MSRSFMASK)) AND NOT 0x400,
        msr := (msr test_syscalls)(MSRGSBASE := 0x5000, MSRKGSBASE := msr test_syscalls MSRGSBASE)\<rparr>"
    and u: "user_syscall 0x5000 id (test_regs 39, test_syscalls) = ebind (call_syscall Fn_get_pid (0x9200 - 144) s1) (\<lambda>(v, s').
       ret (test_regs 39\<lparr>gprs := (gprs (test_regs 39))\<lparr>sf_rax := v, sf_rcx := 0x400000, sf_r11 := 0x202\<rparr>\<rparr>,
         s'\<lparr>rflags := 0x202, msr := msr test_syscalls, memory := write64 (memory s1) (0x9200 - 144) v\<rparr>))"
    using syscall_round_trip [of test_syscalls "0x5000" "test_regs 39" id] by (auto simp: n test_syscalls_table)
  have "curr_thread s1 = 0x200" "thread_at s1 = thread_at (test_sched 0x200 [] [])" "process_at s1 = (\<lambda>p. test_process (p * 0x1000))"
    by (subst s1, simp)+
  then show ?thesis by (simp add: u sys_get_pid_def get_current_process_eq test_thread_def test_process_def)
qed

end
