(* ===== verification/User_Program.thy ===== *)
theory User_Program
  imports Syscalls
begin

text \<open>
  The user side of a system call: the inline assembly of \<^verbatim>\<open>src/src/include/arch/x86-64/arch/sysv_syscalls.h\<close>,
  the wrappers of \<^verbatim>\<open>src/src/user/syscall.c\<close>, the checks of \<^verbatim>\<open>src/src/user/utest.h\<close> and the program
  \<^verbatim>\<open>src/src/user/entry.c\<close> that the kernel loads. The program runs on the registers and the kernel state of
  \<open>Syscalls\<close>. Registers that the compiler is free to use are whatever the state holds; a local variable in memory
  lives at \<open>slot\<close> of the stack pointer.
\<close>

section \<open>Wrappers\<close>

text \<open>The constraints of the assembly load the arguments; its result is \<open>rax\<close>.\<close>

definition trap :: "ptr \<Rightarrow> (SyscallFrame \<Rightarrow> SyscallFrame) \<Rightarrow> (SyscallFrame \<Rightarrow> SyscallFrame) \<Rightarrow> 'a cpu_state \<Rightarrow> (u64 \<times> 'a cpu_state) exec" where
  "trap bsp clobber load = (\<lambda>(c, s).
     ebind (user_syscall bsp clobber (c\<lparr>gprs := load (gprs c)\<rparr>, s)) (\<lambda>(c, s). ret (sf_rax (gprs c), c, s)))"

definition syscall0 :: "ptr \<Rightarrow> (SyscallFrame \<Rightarrow> SyscallFrame) \<Rightarrow> u64 \<Rightarrow> 'a cpu_state \<Rightarrow> (u64 \<times> 'a cpu_state) exec" where
  "syscall0 bsp clobber num = trap bsp clobber (\<lambda>f. f\<lparr>sf_rax := num\<rparr>)"

definition syscall1 :: "ptr \<Rightarrow> (SyscallFrame \<Rightarrow> SyscallFrame) \<Rightarrow> u64 \<Rightarrow> u64 \<Rightarrow> 'a cpu_state \<Rightarrow> (u64 \<times> 'a cpu_state) exec" where
  "syscall1 bsp clobber num a0 = trap bsp clobber (\<lambda>f. f\<lparr>sf_rax := num, sf_rdi := a0\<rparr>)"

definition syscall2 ::
  "ptr \<Rightarrow> (SyscallFrame \<Rightarrow> SyscallFrame) \<Rightarrow> u64 \<Rightarrow> u64 \<Rightarrow> u64 \<Rightarrow> 'a cpu_state \<Rightarrow> (u64 \<times> 'a cpu_state) exec" where
  "syscall2 bsp clobber num a0 a1 = trap bsp clobber (\<lambda>f. f\<lparr>sf_rax := num, sf_rdi := a0, sf_rsi := a1\<rparr>)"

definition syscall3 ::
  "ptr \<Rightarrow> (SyscallFrame \<Rightarrow> SyscallFrame) \<Rightarrow> u64 \<Rightarrow> u64 \<Rightarrow> u64 \<Rightarrow> u64 \<Rightarrow> 'a cpu_state \<Rightarrow> (u64 \<times> 'a cpu_state) exec" where
  "syscall3 bsp clobber num a0 a1 a2 =
     trap bsp clobber (\<lambda>f. f\<lparr>sf_rax := num, sf_rdi := a0, sf_rsi := a1, sf_rdx := a2\<rparr>)"

definition syscall4 ::
  "ptr \<Rightarrow> (SyscallFrame \<Rightarrow> SyscallFrame) \<Rightarrow> u64 \<Rightarrow> u64 \<Rightarrow> u64 \<Rightarrow> u64 \<Rightarrow> u64 \<Rightarrow> 'a cpu_state \<Rightarrow> (u64 \<times> 'a cpu_state) exec" where
  "syscall4 bsp clobber num a0 a1 a2 a3 =
     trap bsp clobber (\<lambda>f. f\<lparr>sf_r10 := a3, sf_rax := num, sf_rdi := a0, sf_rsi := a1, sf_rdx := a2\<rparr>)"

definition syscall5 ::
  "ptr \<Rightarrow> (SyscallFrame \<Rightarrow> SyscallFrame) \<Rightarrow> u64 \<Rightarrow> u64 \<Rightarrow> u64 \<Rightarrow> u64 \<Rightarrow> u64 \<Rightarrow> u64 \<Rightarrow> 'a cpu_state \<Rightarrow> (u64 \<times> 'a cpu_state) exec" where
  "syscall5 bsp clobber num a0 a1 a2 a3 a4 =
     trap bsp clobber (\<lambda>f. f\<lparr>sf_r10 := a3, sf_r8 := a4, sf_rax := num, sf_rdi := a0, sf_rsi := a1, sf_rdx := a2\<rparr>)"

definition syscall6 ::
  "ptr \<Rightarrow> (SyscallFrame \<Rightarrow> SyscallFrame) \<Rightarrow> u64 \<Rightarrow> u64 \<Rightarrow> u64 \<Rightarrow> u64 \<Rightarrow> u64 \<Rightarrow> u64 \<Rightarrow> u64 \<Rightarrow> 'a cpu_state \<Rightarrow> (u64 \<times> 'a cpu_state) exec" where
  "syscall6 bsp clobber num a0 a1 a2 a3 a4 a5 =
     trap bsp clobber (\<lambda>f. f\<lparr>sf_r10 := a3, sf_r8 := a4, sf_r9 := a5, sf_rax := num, sf_rdi := a0, sf_rsi := a1, sf_rdx := a2\<rparr>)"

definition SYS_GETPID :: u64 where "SYS_GETPID = 39"
definition SYS_EXIT :: u64 where "SYS_EXIT = 60"

definition getpid :: "ptr \<Rightarrow> (SyscallFrame \<Rightarrow> SyscallFrame) \<Rightarrow> 'a cpu_state \<Rightarrow> (u64 \<times> 'a cpu_state) exec" where
  "getpid bsp clobber = syscall0 bsp clobber SYS_GETPID"

definition user_exit :: "ptr \<Rightarrow> (SyscallFrame \<Rightarrow> SyscallFrame) \<Rightarrow> u32 \<Rightarrow> 'a cpu_state \<Rightarrow> 'a cpu_state exec" where
  "user_exit bsp clobber status x = ebind (syscall1 bsp clobber SYS_EXIT (scast status) x) (\<lambda>(_, x). ret x)"

section \<open>The test program\<close>

record utest =
  utest_index :: u32
  utest_failed :: u32

definition UT_BEGIN :: utest where
  "UT_BEGIN = \<lparr>utest_index = 0, utest_failed = 0\<rparr>"

definition UT_CHECK :: "bool \<Rightarrow> utest \<Rightarrow> utest" where
  "UT_CHECK expr u =
     (let u = u\<lparr>utest_index := utest_index u + 1\<rparr> in
      if utest_failed u = 0 \<and> \<not> expr then u\<lparr>utest_failed := utest_index u\<rparr> else u)"

definition UT_RESULT :: "utest \<Rightarrow> u32" where
  "UT_RESULT u = utest_failed u"

text \<open>The compiler saves the registers that the assembly names as overwritten and restores them after it.\<close>

definition syscall_preserves_callee_saved ::
  "ptr \<Rightarrow> (SyscallFrame \<Rightarrow> SyscallFrame) \<Rightarrow> 'a cpu_state \<Rightarrow> (bool \<times> 'a cpu_state) exec" where
  "syscall_preserves_callee_saved bsp clobber = (\<lambda>(c, s).
     ebind (user_syscall bsp clobber (c\<lparr>gprs := (gprs c)\<lparr>sf_rbx := 0x1111111111111111, sf_r12 := 0x2222222222222222,
        sf_r13 := 0x3333333333333333, sf_r14 := 0x4444444444444444, sf_r15 := 0x5555555555555555, sf_rax := 39\<rparr>\<rparr>, s)) (\<lambda>(c', s).
     ret (sf_rbx (gprs c') = 0x1111111111111111 \<and> sf_r12 (gprs c') = 0x2222222222222222 \<and> sf_r13 (gprs c') = 0x3333333333333333
            \<and> sf_r14 (gprs c') = 0x4444444444444444 \<and> sf_r15 (gprs c') = 0x5555555555555555,
          c'\<lparr>gprs := (gprs c')\<lparr>sf_rbx := sf_rbx (gprs c), sf_r12 := sf_r12 (gprs c), sf_r13 := sf_r13 (gprs c),
               sf_r14 := sf_r14 (gprs c), sf_r15 := sf_r15 (gprs c)\<rparr>\<rparr>, s)))"

definition user_main :: "ptr \<Rightarrow> (SyscallFrame \<Rightarrow> SyscallFrame) \<Rightarrow> (u64 \<Rightarrow> ptr) \<Rightarrow> 'a cpu_state \<Rightarrow> (u32 \<times> 'a cpu_state) exec" where
  "user_main bsp clobber slot x =
     (let u = UT_BEGIN in
      ebind (getpid bsp clobber x) (\<lambda>(pid, x).
      (let u = UT_CHECK (0 <s pid) u in
       ebind (getpid bsp clobber x) (\<lambda>(again, x).
       (let u = UT_CHECK (again = pid) u in
        ebind (syscall_preserves_callee_saved bsp clobber x) (\<lambda>(ok, x).
        (let u = UT_CHECK ok u;
             (c, s) = x;
             s = s\<lparr>memory := write64 (memory s) (slot (reg_rsp c)) 0x5A5A5A5A\<rparr>
         in ebind (getpid bsp clobber (c, s)) (\<lambda>(_, c, s).
            (let u = UT_CHECK (read64 (memory s) (slot (reg_rsp c)) = 0x5A5A5A5A) u
             in ret (UT_RESULT u, c, s))))))))))"

text \<open>After \<open>exit\<close> the program spins.\<close>

definition user_start :: "ptr \<Rightarrow> (SyscallFrame \<Rightarrow> SyscallFrame) \<Rightarrow> (u64 \<Rightarrow> ptr) \<Rightarrow> 'a cpu_state \<Rightarrow> 'a cpu_state exec" where
  "user_start bsp clobber slot x =
     ebind (user_main bsp clobber slot x) (\<lambda>(status, x).
     ebind (user_exit bsp clobber status x) (\<lambda>x. diverges))"

section \<open>The process id through the trap\<close>

text \<open>
  What a running user program finds: \<open>bsp_cpu\<close> behind \<open>swapgs\<close>, the table filled and a current process.
\<close>

definition user_ready :: "ptr \<Rightarrow> ptr \<Rightarrow> 'a syscalls_scheme \<Rightarrow> bool" where
  "user_ready bsp proc s \<longleftrightarrow> msr s MSRKGSBASE = bsp \<and> global_syscall s ! 39 = Some Fn_get_pid \<and> global_syscall s ! 60 = Some Fn_exit
     \<and> curr_thread s \<noteq> null \<and> m_process (thread_at s (curr_thread s)) = proc \<and> proc \<noteq> null"

lemma user_ready_kept:
  "user_ready bsp proc (s\<lparr>memory := m, syscall_user_rsp := v\<rparr>) = user_ready bsp proc s"
  "user_ready bsp proc (s\<lparr>memory := m\<rparr>) = user_ready bsp proc s"
  by (simp_all add: user_ready_def)

lemma getpid_trap:
  assumes "user_ready bsp proc s" and "sf_rax (gprs c) = 39"
  shows "\<exists>m. user_syscall bsp clobber (c, s)
      = ret (with_result (ucast (pid (process_at s proc))) c s, s\<lparr>memory := m, syscall_user_rsp := reg_rsp c\<rparr>)
    \<and> same_on (- span (syscall_kernel_rsp s - 152) 152) (memory s) m"
proof -
  let ?v = "ucast (pid (process_at s proc)) :: u64" and ?k = "syscall_kernel_rsp s"
  have k: "msr s MSRKGSBASE = bsp" using assms(1) by (simp add: user_ready_def)
  have "call_syscall Fn_get_pid (?k - 144) (served_in c s) = ret (?v, served_in c s)"
    using assms(1) by (simp add: user_ready_def sys_get_pid_def get_current_process_eq served_in_def)
  then have "user_syscall bsp clobber (c, s) = ret (with_result ?v c s,
      (served_in c s)\<lparr>rflags := rflags s, msr := msr s, memory := write64 (memory (served_in c s)) (?k - 144) ?v\<rparr>)"
    using assms by (simp add: user_syscall_eq [OF k] user_ready_def)
  moreover have "(served_in c s)\<lparr>rflags := rflags s, msr := msr s, memory := m\<rparr> = s\<lparr>memory := m, syscall_user_rsp := reg_rsp c\<rparr>" for m
    by (simp add: served_in_def)
  moreover have "same_on (- span (?k - 152) 152) (memory s) (write64 (memory (served_in c s)) (?k - 144) ?v)"
    using served_in_memory [of s c] span_sub [of "8" 8 152 "?k - 152"]
    by (intro same_on_write64_after) auto
  ultimately show ?thesis by auto
qed

text \<open>Between two calls the program keeps its stack pointer, and the kernel everything but memory on its own stack.\<close>

definition after_calls :: "cpu_regs \<Rightarrow> 'a syscalls_scheme \<Rightarrow> cpu_regs \<Rightarrow> 'a syscalls_scheme \<Rightarrow> bool" where
  "after_calls c s c' s' \<longleftrightarrow> reg_rsp c' = reg_rsp c
     \<and> same_on (- span (syscall_kernel_rsp s - 152) 152) (memory s) (memory s')
     \<and> s' = s\<lparr>memory := memory s', syscall_user_rsp := reg_rsp c\<rparr>"

lemma after_calls_trans: "after_calls c s c' s' \<Longrightarrow> after_calls c' s' c'' s'' \<Longrightarrow> after_calls c s c'' s''"
  unfolding after_calls_def
proof (elim conjE, intro conjI)
  assume s': "s' = s\<lparr>memory := memory s', syscall_user_rsp := reg_rsp c\<rparr>"
    and s'': "s'' = s'\<lparr>memory := memory s'', syscall_user_rsp := reg_rsp c'\<rparr>" and r: "reg_rsp c' = reg_rsp c"
    and m: "same_on (- span (syscall_kernel_rsp s - 152) 152) (memory s) (memory s')"
    and m': "same_on (- span (syscall_kernel_rsp s' - 152) 152) (memory s') (memory s'')"
  have k: "syscall_kernel_rsp s' = syscall_kernel_rsp s" by (subst s') simp
  show "same_on (- span (syscall_kernel_rsp s - 152) 152) (memory s) (memory s'')" using same_on_trans [OF m m' [unfolded k]] .
  show "s'' = s\<lparr>memory := memory s'', syscall_user_rsp := reg_rsp c\<rparr>" by (subst s'', subst s') (simp add: r)
qed simp

lemma after_calls_write:
  assumes "after_calls c s c' s'"
  shows "after_calls c (s\<lparr>memory := m\<rparr>) c' (s'\<lparr>memory := m\<rparr>)"
proof -
  have s': "s' = s\<lparr>memory := memory s', syscall_user_rsp := reg_rsp c\<rparr>" using assms by (simp add: after_calls_def)
  have "s'\<lparr>memory := m\<rparr> = s\<lparr>memory := m, syscall_user_rsp := reg_rsp c\<rparr>" by (subst s') simp
  then show ?thesis using assms by (simp add: after_calls_def)
qed

lemma after_calls_state:
  assumes "after_calls c s c' s'"
  shows "user_ready bsp proc s' = user_ready bsp proc s" "process_at s' = process_at s" "syscall_kernel_rsp s' = syscall_kernel_rsp s"
    "reg_rsp c' = reg_rsp c" "same_on (- span (syscall_kernel_rsp s - 152) 152) (memory s) (memory s')"
proof -
  have s': "s' = s\<lparr>memory := memory s', syscall_user_rsp := reg_rsp c\<rparr>" using assms by (simp add: after_calls_def)
  show "user_ready bsp proc s' = user_ready bsp proc s" "process_at s' = process_at s" "syscall_kernel_rsp s' = syscall_kernel_rsp s"
    by (subst s', simp add: user_ready_kept)+
qed (use assms in \<open>simp_all add: after_calls_def\<close>)

lemma getpid_runs:
  assumes "user_ready bsp proc s"
  shows "\<exists>c' s'. getpid bsp clobber (c, s) = ret (ucast (pid (process_at s proc)), c', s') \<and> after_calls c s c' s'"
proof -
  let ?c = "c\<lparr>gprs := (gprs c)\<lparr>sf_rax := 39\<rparr>\<rparr>"
  obtain m where "user_syscall bsp clobber (?c, s)
      = ret (with_result (ucast (pid (process_at s proc))) ?c s, s\<lparr>memory := m, syscall_user_rsp := reg_rsp c\<rparr>)"
    "same_on (- span (syscall_kernel_rsp s - 152) 152) (memory s) m"
    using getpid_trap [OF assms, of ?c clobber] by auto
  then show ?thesis
    by (auto simp: getpid_def syscall0_def trap_def SYS_GETPID_def with_result_def after_calls_def)
qed

lemma callee_saved_runs:
  assumes "user_ready bsp proc s"
  shows "\<exists>c' s'. syscall_preserves_callee_saved bsp clobber (c, s) = ret (True, c', s') \<and> after_calls c s c' s'"
proof -
  let ?c = "c\<lparr>gprs := (gprs c)\<lparr>sf_rbx := 0x1111111111111111, sf_r12 := 0x2222222222222222, sf_r13 := 0x3333333333333333,
    sf_r14 := 0x4444444444444444, sf_r15 := 0x5555555555555555, sf_rax := 39\<rparr>\<rparr>"
  obtain m where "user_syscall bsp clobber (?c, s)
      = ret (with_result (ucast (pid (process_at s proc))) ?c s, s\<lparr>memory := m, syscall_user_rsp := reg_rsp c\<rparr>)"
    "same_on (- span (syscall_kernel_rsp s - 152) 152) (memory s) m"
    using getpid_trap [OF assms, of ?c clobber] by auto
  then show ?thesis
    by (auto simp: syscall_preserves_callee_saved_def with_result_def after_calls_def)
qed

lemma pid_positive: "0 <s (ucast (w :: u16) :: u64) \<longleftrightarrow> w \<noteq> 0"
proof -
  have b: "uint w < 2 ^ 16" using uint_lt2p [of w] by simp
  have "- (2 ^ 63) \<le> uint w" by (rule order_trans [OF _ uint_ge_0]) simp
  then have "signed_take_bit 63 (uint w) = uint w" using b by (intro signed_take_bit_int_eq_self) simp_all
  moreover have "uint (ucast w :: u64) = uint w" using b by (simp add: unsigned_ucast_eq take_bit_int_eq_self)
  ultimately have "sint (ucast w :: u64) = uint w" by (simp add: sint_uint)
  then show ?thesis by (simp add: word_sless_alt less_le uint_0_iff)
qed

lemma user_main_runs:
  assumes r: "user_ready bsp proc s" and slot: "span (slot (reg_rsp c)) 8 \<inter> span (syscall_kernel_rsp s - 152) 152 = {}"
  shows "\<exists>c' s' m. user_main bsp clobber slot (c, s) = ret (if pid (process_at s proc) = 0 then 1 else 0, c', s')
    \<and> after_calls c (s\<lparr>memory := m\<rparr>) c' s'
    \<and> same_on (- span (syscall_kernel_rsp s - 152) 152 - span (slot (reg_rsp c)) 8) (memory s) m"
proof -
  let ?p = "ucast (pid (process_at s proc)) :: u64"
  obtain c1 s1 where 1: "getpid bsp clobber (c, s) = ret (?p, c1, s1)" "after_calls c s c1 s1"
    using getpid_runs [OF r] by blast
  note a1 = after_calls_state [OF 1(2)]
  obtain c2 s2 where 2: "getpid bsp clobber (c1, s1) = ret (?p, c2, s2)" "after_calls c1 s1 c2 s2"
    using getpid_runs [of bsp proc s1 clobber c1] a1(1,2) r by auto
  have "after_calls c s c2 s2" using 1(2) 2(2) by (rule after_calls_trans)
  note a2 = after_calls_state [OF this]
  obtain c3 s3 where 3: "syscall_preserves_callee_saved bsp clobber (c2, s2) = ret (True, c3, s3)" "after_calls c2 s2 c3 s3"
    using callee_saved_runs [of bsp proc s2 clobber c2] a2(1) r by auto
  have s3: "after_calls c s c3 s3" using \<open>after_calls c s c2 s2\<close> 3(2) by (rule after_calls_trans)
  note a3 = after_calls_state [OF s3]
  define m where "m = write64 (memory s3) (slot (reg_rsp c3)) 0x5A5A5A5A"
  obtain c4 s4 where 4: "getpid bsp clobber (c3, s3\<lparr>memory := m\<rparr>) = ret (?p, c4, s4)" "after_calls c3 (s3\<lparr>memory := m\<rparr>) c4 s4"
    using getpid_runs [of bsp proc "s3\<lparr>memory := m\<rparr>" clobber c3] a3(1,2) r by (auto simp: user_ready_kept)
  have "read64 (memory s4) (slot (reg_rsp c)) = read64 m (slot (reg_rsp c))"
    using after_calls_state(5) [OF 4(2)] slot a3(3) by (intro same_on_read64) auto
  then have canary: "read64 (memory s4) (slot (reg_rsp c4)) = 0x5A5A5A5A"
    using after_calls_state(4) [OF 4(2)] a3(4) by (simp add: m_def)
  have "user_main bsp clobber slot (c, s) = ret (if pid (process_at s proc) = 0 then 1 else 0, c4, s4)"
    by (simp add: user_main_def 1(1) 2(1) 3(1) 4(1) [unfolded m_def] canary UT_BEGIN_def UT_CHECK_def UT_RESULT_def Let_def pid_positive)
  moreover have "after_calls c (s\<lparr>memory := m\<rparr>) c4 s4"
    by (rule after_calls_trans [OF after_calls_write [OF s3] 4(2)])
  moreover have "same_on (- span (syscall_kernel_rsp s - 152) 152 - span (slot (reg_rsp c)) 8) (memory s) m"
    unfolding m_def using a3(4,5) by (intro same_on_write64_after) (auto elim: same_on_mono)
  ultimately show ?thesis by blast
qed

section \<open>Leaving\<close>

lemma ucast_scast_32: "(ucast (scast (x :: u32) :: u64) :: u32) = x"
  by (rule bit_word_eqI) (auto simp: bit_simps)

lemma sys_exit_returns:
  assumes "curr_thread s \<noteq> null" and "m_process (thread_at s (curr_thread s)) = proc" and "proc \<noteq> null"
    and "(ucast (arg0 (frame_at (memory s) frame)) :: u32) = status" and "status \<noteq> - 1"
  shows "\<exists>fl. sys_exit frame s = ret (scast status, (upd_process proc (\<lambda>p. p\<lparr>p_threads := clear_all (p_threads p)\<rparr>) s)\<lparr>rflags := fl\<rparr>)"
  using assms
  by (simp add: sys_exit_def get_current_process_eq remove_all_threads_def process_exit_def guarded_def IrqRAIGaurd_enter_def
      upd_process_def) blast

lemma user_exit_returns:
  assumes "user_ready bsp proc s" and "status \<noteq> - 1"
  shows "\<exists>c' s'. user_exit bsp clobber status (c, s) = ret (c', s') \<and> reg_rip c' = reg_rip c \<and> reg_rsp c' = reg_rsp c
    \<and> s' = s\<lparr>memory := memory s', syscall_user_rsp := reg_rsp c,
         process_at := (process_at s)(proc := (process_at s proc)\<lparr>p_threads := clear_all (p_threads (process_at s proc))\<rparr>)\<rparr>"
proof -
  let ?c = "c\<lparr>gprs := (gprs c)\<lparr>sf_rax := 60, sf_rdi := scast status\<rparr>\<rparr>" and ?k = "syscall_kernel_rsp s"
  note u = assms(1) [unfolded user_ready_def]
  have k: "msr s MSRKGSBASE = bsp" using u by simp
  have "(ucast (arg0 (frame_at (memory (served_in ?c s)) (?k - 144))) :: u32) = status"
    using served_in_frame [of ?c s] by (simp add: arg0_def ucast_scast_32)
  then obtain fl where "sys_exit (?k - 144) (served_in ?c s)
      = ret (scast status, (upd_process proc (\<lambda>p. p\<lparr>p_threads := clear_all (p_threads p)\<rparr>) (served_in ?c s))\<lparr>rflags := fl\<rparr>)"
    using sys_exit_returns [of "served_in ?c s" proc "?k - 144" status] u assms(2) by (auto simp: served_in_def)
  then have "user_exit bsp clobber status (c, s) = ret (with_result (scast status) ?c s,
      (upd_process proc (\<lambda>p. p\<lparr>p_threads := clear_all (p_threads p)\<rparr>) (served_in ?c s))
        \<lparr>rflags := rflags s, msr := msr s, memory := write64 (memory (served_in ?c s)) (?k - 144) (scast status)\<rparr>)"
    using u by (simp add: user_exit_def syscall1_def trap_def SYS_EXIT_def user_syscall_eq [OF k])
  then show ?thesis by (simp add: with_result_def upd_process_def served_in_def)
qed

section \<open>Properties\<close>

text \<open>
  Claim C11. The program that the kernel loads, run to the end of \<open>main\<close> through the inline assembly, the entry code, the
  dispatcher and the handlers: \<open>main\<close> returns, all four checks pass and the result is 0 for every process with a nonzero id (with
  id 0 the first check fails and the result is 1). Its stack pointer is unchanged, and the kernel has changed
  nothing but its own stack and the saved stack pointer, so that the memory of the program differs in the local variable only.
\<close>

theorem user_tests_pass:
  assumes "user_ready bsp proc s" and "span (slot (reg_rsp c)) 8 \<inter> span (syscall_kernel_rsp s - 152) 152 = {}"
  shows "\<exists>c' s'. user_main bsp clobber slot (c, s) = ret (if pid (process_at s proc) = 0 then 1 else 0, c', s')
    \<and> reg_rsp c' = reg_rsp c \<and> s' = s\<lparr>memory := memory s', syscall_user_rsp := reg_rsp c\<rparr>
    \<and> same_on (- span (syscall_kernel_rsp s - 152) 152 - span (slot (reg_rsp c)) 8) (memory s) (memory s')"
proof -
  obtain c' s' m where run: "user_main bsp clobber slot (c, s) = ret (if pid (process_at s proc) = 0 then 1 else 0, c', s')"
    and a: "after_calls c (s\<lparr>memory := m\<rparr>) c' s'"
    and m: "same_on (- span (syscall_kernel_rsp s - 152) 152 - span (slot (reg_rsp c)) 8) (memory s) m"
    using user_main_runs [of bsp proc s slot c clobber, OF assms] by blast
  have "same_on (- span (syscall_kernel_rsp s - 152) 152 - span (slot (reg_rsp c)) 8) m (memory s')"
    using a by (auto simp: after_calls_def elim: same_on_mono)
  then show ?thesis using run a same_on_trans [OF m] by (auto simp: after_calls_def)
qed

lemma test_user_ready: "user_ready 0x5000 0x20 test_syscalls"
  by (simp add: user_ready_def test_syscalls_table test_thread_def)

theorem user_tests_pass_witness:
  "\<exists>x. user_main 0x5000 id (\<lambda>sp. sp - 16) (test_regs 0, test_syscalls) = ret (0, x)"
proof -
  have "span ((\<lambda>sp. sp - 16) (reg_rsp (test_regs 0))) 8 \<inter> span (syscall_kernel_rsp test_syscalls - 152) 152 = {}"
    by (auto simp: test_regs_def span_nowrap)
  from user_tests_pass [of "0x5000" "0x20" test_syscalls "\<lambda>sp. sp - 16" "test_regs 0", OF test_user_ready this, of id] show ?thesis by (auto simp: test_process_def)
qed

text \<open>
  Claim C40. Exit does not exit: for every status but -1 the call returns to the program at the next instruction with its
  own stack. Of the process only the list of its threads is emptied; its state and its exit status are as
  before, and the scheduler goes on running the same thread. After \<open>exit\<close> the program \<open>_start\<close> therefore spins for ever.
\<close>

theorem exit_returns_to_the_program:
  assumes "user_ready bsp proc s" and "status \<noteq> - 1"
  shows "(\<exists>c' s'. user_exit bsp clobber status (c, s) = ret (c', s') \<and> reg_rip c' = reg_rip c \<and> reg_rsp c' = reg_rsp c
      \<and> s' = s\<lparr>memory := memory s', syscall_user_rsp := reg_rsp c,
           process_at := (process_at s)(proc := (process_at s proc)\<lparr>p_threads := clear_all (p_threads (process_at s proc))\<rparr>)\<rparr>)
    \<and> (span (slot (reg_rsp c)) 8 \<inter> span (syscall_kernel_rsp s - 152) 152 = {} \<longrightarrow> user_start bsp clobber slot (c, s) = diverges)"
proof (intro conjI impI)
  assume "span (slot (reg_rsp c)) 8 \<inter> span (syscall_kernel_rsp s - 152) 152 = {}"
  then obtain c1 s1 m where run: "user_main bsp clobber slot (c, s) = ret (if pid (process_at s proc) = 0 then 1 else 0, c1, s1)"
    and a: "after_calls c (s\<lparr>memory := m\<rparr>) c1 s1"
    using user_main_runs [of bsp proc s slot c clobber, OF assms(1)] by blast
  have r: "user_ready bsp proc s1" using after_calls_state(1) [OF a] assms(1) by (simp add: user_ready_kept)
  have "\<exists>x. user_exit bsp clobber (if pid (process_at s proc) = 0 then 1 else 0) (c1, s1) = ret x"
    using user_exit_returns [OF r, of 0 clobber c1] user_exit_returns [OF r, of 1 clobber c1] by auto
  then show "user_start bsp clobber slot (c, s) = diverges" by (auto simp: user_start_def run)
qed (rule user_exit_returns [OF assms])

theorem exit_returns_to_the_program_witness:
  "(\<exists>x. user_exit 0x5000 id 0 (test_regs 0, test_syscalls) = ret x)
   \<and> user_start 0x5000 id (\<lambda>sp. sp - 16) (test_regs 0, test_syscalls) = diverges"
proof -
  have "span ((\<lambda>sp. sp - 16) (reg_rsp (test_regs 0))) 8 \<inter> span (syscall_kernel_rsp test_syscalls - 152) 152 = {}"
    by (auto simp: test_regs_def span_nowrap)
  then show ?thesis
    using exit_returns_to_the_program [OF test_user_ready, of 0 id "test_regs 0" "\<lambda>sp. sp - 16"] by auto
qed

end
