(* ===== verification/Cpu_Tables.thy ===== *)
theory Cpu_Tables
  imports Syscalls
begin

text \<open>
  The tables of the processor: the segment descriptors of \<^verbatim>\<open>src/src/kernel/arch/x86-64/system/gdt.cpp\<close>, the interrupt gates
  of \<^verbatim>\<open>idt.cpp\<close> with the table of exception handlers of \<^verbatim>\<open>irq.cpp\<close>, and the model specific registers
  that \<^verbatim>\<open>src/src/kernel/arch/x86-64/arch/cpu.cpp\<close> programs for system calls. The addresses that the linker assigns
  are a parameter.
\<close>

record layout =
  addr_tss :: u64
  addr_gdt_entries :: u64
  addr_idt_table :: u64
  addr_bsp_cpu :: u64
  addr_syscall_hanlder :: u64
  irq_stubs :: "u64 list"

section \<open>Structures\<close>

record GDTR =
  gdtr_limit :: u16
  gdtr_address :: u64

record TssDescriptor =
  td_limit00 :: u16
  td_base0 :: u16
  td_base1 :: u8
  td_access :: u8
  td_limit1 :: u8
  td_flags :: u8
  td_base2 :: u8
  td_base3 :: u32
  td_reserved :: u32

definition sizeof_TssSegments :: nat where "sizeof_TssSegments = 4 + 12 * 8 + 2 + 2"

record idtr =
  idtr_limit :: u16
  idtr_base :: u64

record IdtEntry =
  offset0 :: u16
  selector :: u16
  ist_flags :: u16
  offset1 :: u16
  offset2 :: u32
  resered :: u32

definition IDT_VECTOR :: nat where "IDT_VECTOR = 256"

text \<open>
  The exception handlers that the table can point to: one-line functions that halt with a name, and two with a body
  of their own.
\<close>

datatype IrqHandler = halting_handler "char list" | gp_fault | pagefault

record seg_regs =
  seg_cs :: u16
  seg_ds :: u16
  seg_es :: u16
  seg_fs :: u16
  seg_gs :: u16
  seg_ss :: u16
  seg_tr :: u16

record tables = syscalls +
  gdt_entries :: "u64 list"
  gdtr_reg :: GDTR
  segs :: seg_regs
  idt_table :: "IdtEntry list"
  idtr_reg :: idtr
  irq_handlers :: "IrqHandler option list"

section \<open>The global descriptor table\<close>

text \<open>The packed structure as the two words that it occupies; the two four-bit members share a byte.\<close>

definition tss_seg0 :: "TssDescriptor \<Rightarrow> u64" where
  "tss_seg0 d = ucast (td_limit00 d) OR push_bit 16 (ucast (td_base0 d)) OR push_bit 32 (ucast (td_base1 d))
     OR push_bit 40 (ucast (td_access d)) OR push_bit 48 (ucast (td_limit1 d AND 0xF)) OR push_bit 52 (ucast (td_flags d AND 0xF))
     OR push_bit 56 (ucast (td_base2 d))"

definition tss_seg1 :: "TssDescriptor \<Rightarrow> u64" where
  "tss_seg1 d = ucast (td_base3 d) OR push_bit 32 (ucast (td_reserved d))"

definition init_gdt_entries :: "layout \<Rightarrow> 'a tables_scheme \<Rightarrow> 'a tables_scheme exec" where
  "init_gdt_entries la s =
     (let g = (gdt_entries s)[0 := 0];
          kernel_code = (0 :: u64);
          kernel_code = kernel_code OR push_bit 8 0b1011;
          kernel_code = kernel_code OR push_bit 12 1;
          kernel_code = kernel_code OR push_bit 13 0;
          kernel_code = kernel_code OR push_bit 15 1;
          kernel_code = kernel_code OR push_bit 21 1;
          g = g[1 := push_bit 32 kernel_code];
          kernel_data = (0 :: u64);
          kernel_data = kernel_data OR push_bit 8 0b0011;
          kernel_data = kernel_data OR push_bit 12 1;
          kernel_data = kernel_data OR push_bit 13 0;
          kernel_data = kernel_data OR push_bit 15 1;
          kernel_data = kernel_data OR push_bit 21 1;
          g = g[2 := push_bit 32 kernel_data];
          user_data = kernel_data OR push_bit 13 3;
          g = g[3 := push_bit 32 user_data];
          user_code = kernel_code OR push_bit 13 3;
          g = g[4 := push_bit 32 user_code];
          base = addr_tss la;
          desc = \<lparr>td_limit00 = of_nat (sizeof_TssSegments - 1), td_base0 = ucast (base AND 0xFFFF), td_base1 = ucast (drop_bit 16 base),
            td_access = 0x89, td_limit1 = 0, td_flags = 0, td_base2 = ucast (drop_bit 24 base), td_base3 = ucast (drop_bit 32 base),
            td_reserved = 0\<rparr>;
          g = g[5 := tss_seg0 desc];
          g = g[6 := tss_seg1 desc]
      in klog (''gdt: entries initialized'' @ [CHR 0x0A]) [] (s\<lparr>gdt_entries := g\<rparr>))"

text \<open>The assembly routine loads the table, the task register and every segment register.\<close>

definition gdt_flush :: "GDTR \<Rightarrow> 'a tables_scheme \<Rightarrow> 'a tables_scheme" where
  "gdt_flush r s = s\<lparr>gdtr_reg := r, segs := \<lparr>seg_cs = 0x08, seg_ds = 0x10, seg_es = 0x10, seg_fs = 0x10, seg_gs = 0x10, seg_ss = 0x10,
     seg_tr = 0x28\<rparr>\<rparr>"

definition refresh :: "layout \<Rightarrow> 'a tables_scheme \<Rightarrow> 'a tables_scheme exec" where
  "refresh la s =
     klog (''gdt: loaded successfully'' @ [CHR 0x0A]) []
       (gdt_flush \<lparr>gdtr_limit = 7 * 8 - 1, gdtr_address = addr_gdt_entries la\<rparr> s)"

definition inital_init :: "layout \<Rightarrow> 'a tables_scheme \<Rightarrow> (bool \<times> 'a tables_scheme) exec" where
  "inital_init la s = ebind (init_gdt_entries la s) (\<lambda>s. ebind (refresh la s) (\<lambda>s. ret (True, s)))"

section \<open>The interrupt descriptor table\<close>

definition x86_div_handler :: IrqHandler where "x86_div_handler = halting_handler ''divide error (#DE)''"
definition x86_debug_handler :: IrqHandler where "x86_debug_handler = halting_handler ''debug (#DB)''"
definition x86_nmi_handler :: IrqHandler where "x86_nmi_handler = halting_handler ''NMI''"
definition x86_breakpoint_handler :: IrqHandler where "x86_breakpoint_handler = halting_handler ''breakpoint (#BP)''"
definition x86_overflow_handler :: IrqHandler where "x86_overflow_handler = halting_handler ''overflow (#OF)''"
definition x86_bound_range_exceeded_handler :: IrqHandler where
  "x86_bound_range_exceeded_handler = halting_handler ''bound range exceeded (#BR)''"
definition x86_invalid_op_handler :: IrqHandler where "x86_invalid_op_handler = halting_handler ''invalid opcode (#UD)''"
definition x86_device_not_available_handler :: IrqHandler where
  "x86_device_not_available_handler = halting_handler ''device not available (#NM)''"
definition x86_double_fault_handler :: IrqHandler where "x86_double_fault_handler = halting_handler ''double fault (#DF)''"
definition x86_coproc_seg_overrun_handler :: IrqHandler where
  "x86_coproc_seg_overrun_handler = halting_handler ''coprocessor segment overrun''"
definition x86_invalid_tss_handler :: IrqHandler where "x86_invalid_tss_handler = halting_handler ''invalid TSS (#TS)''"
definition x86_seg_not_present_handler :: IrqHandler where
  "x86_seg_not_present_handler = halting_handler ''segment not present (#NP)''"
definition x86_stack_seg_fault_handler :: IrqHandler where
  "x86_stack_seg_fault_handler = halting_handler ''stack segment fault (#SS)''"
definition x86_x87_floating_point_handler :: IrqHandler where
  "x86_x87_floating_point_handler = halting_handler ''x87 floating point (#MF)''"
definition x86_alignment_check_handler :: IrqHandler where
  "x86_alignment_check_handler = halting_handler ''alignment check (#AC)''"
definition x86_machine_check_handler :: IrqHandler where "x86_machine_check_handler = halting_handler ''machine check (#MC)''"
definition x86_simd_exception_handler :: IrqHandler where
  "x86_simd_exception_handler = halting_handler ''SIMD floating point (#XM)''"
definition x86_virt_exception_handler :: IrqHandler where "x86_virt_exception_handler = halting_handler ''virtualization (#VE)''"
definition x86_control_protection_exception_handler :: IrqHandler where
  "x86_control_protection_exception_handler = halting_handler ''control protection (#CP)''"
definition x86_hypervisor_injection_exception_handler :: IrqHandler where
  "x86_hypervisor_injection_exception_handler = halting_handler ''hypervisor injection (#HV)''"
definition x86_vmm_comm_exception_handler :: IrqHandler where
  "x86_vmm_comm_exception_handler = halting_handler ''VMM communication (#VC)''"
definition x86_security_exception_handler :: IrqHandler where
  "x86_security_exception_handler = halting_handler ''security exception (#SX)''"

definition x86_exception_hanlders :: "IrqHandler option list" where
  "x86_exception_hanlders =
    [Some x86_div_handler, Some x86_debug_handler, Some x86_nmi_handler, Some x86_breakpoint_handler, Some x86_overflow_handler,
     Some x86_bound_range_exceeded_handler, Some x86_invalid_op_handler, Some x86_device_not_available_handler,
     Some x86_double_fault_handler, Some x86_coproc_seg_overrun_handler, Some x86_invalid_tss_handler,
     Some x86_seg_not_present_handler, Some x86_stack_seg_fault_handler, Some gp_fault, Some pagefault, None,
     Some x86_x87_floating_point_handler, Some x86_alignment_check_handler, Some x86_machine_check_handler,
     Some x86_simd_exception_handler, Some x86_virt_exception_handler, Some x86_control_protection_exception_handler,
     None, None, None, None, None, None, Some x86_hypervisor_injection_exception_handler, Some x86_vmm_comm_exception_handler,
     Some x86_security_exception_handler, None]"

definition set_idt_entries :: "u8 \<Rightarrow> u64 \<Rightarrow> u8 \<Rightarrow> u8 \<Rightarrow> u8 \<Rightarrow> 'a tables_scheme \<Rightarrow> 'a tables_scheme" where
  "set_idt_entries index handler ist dpl type s =
     (let address = handler;
          entry = idt_table s ! unat index;
          entry = entry\<lparr>offset0 := ucast address\<rparr>;
          entry = entry\<lparr>offset1 := ucast (drop_bit 16 address)\<rparr>;
          entry = entry\<lparr>offset2 := ucast (drop_bit 32 address)\<rparr>;
          entry = entry\<lparr>selector := ucast KERNEL_CODE\<rparr>;
          entry = entry\<lparr>ist_flags := ucast (ist AND 0b111) OR push_bit 8 (ucast type) OR push_bit 13 (ucast (dpl AND 0b11)) OR push_bit 15 1\<rparr>
      in s\<lparr>idt_table := (idt_table s)[unat index := entry]\<rparr>)"

definition register_exception_handler :: "u8 \<Rightarrow> IrqHandler \<Rightarrow> 'a tables_scheme \<Rightarrow> 'a tables_scheme exec" where
  "register_exception_handler n handler s =
     (if n \<ge> 32 then
        ebind (klog (''irq: out of bounds exception vector %u: must be 0-31'' @ [CHR 0x0A]) [IntArg (ucast n)] s) (\<lambda>s.
        halt (Halted ''cli; hlt''))
      else ret (s\<lparr>irq_handlers := (irq_handlers s)[unat n := Some handler]\<rparr>))"

definition deregister_handler :: "u8 \<Rightarrow> 'a tables_scheme \<Rightarrow> 'a tables_scheme" where
  "deregister_handler n s = s\<lparr>irq_handlers := (irq_handlers s)[unat n := None]\<rparr>"

definition default_exception :: "layout \<Rightarrow> nat \<Rightarrow> 'a tables_scheme \<Rightarrow> 'a tables_scheme exec" where
  "default_exception la i s =
     (let s = set_idt_entries (of_nat i) (irq_stubs la ! i) 0 0 0xF s in
      case x86_exception_hanlders ! i of
        None \<Rightarrow> ret s
      | Some h \<Rightarrow> register_exception_handler (of_nat i) h s)"

definition idt_init :: "layout \<Rightarrow> 'a tables_scheme \<Rightarrow> 'a tables_scheme exec" where
  "idt_init la s =
     (let s = fold (\<lambda>i. set_idt_entries (of_nat i) (irq_stubs la ! i) 0 0 0xE) [0..<IDT_VECTOR] s in
      ebind (klog (''%s%s[debug] default init exception stubs %s'' @ [CHR 0x0A])
        [StrArg (Some BOLD), StrArg (Some BLUE), StrArg (Some RESET)] s) (\<lambda>s.
      ebind (for_each (default_exception la) [0..<32] s) (\<lambda>s.
      klog (''%s%s[debug] finished default init exception stubs%s'' @ [CHR 0x0A])
        [StrArg (Some BOLD), StrArg (Some BLUE), StrArg (Some RESET)] s)))"

definition idtr_asm_load :: "layout \<Rightarrow> 'a tables_scheme \<Rightarrow> 'a tables_scheme exec" where
  "idtr_asm_load la s =
     (let s = s\<lparr>rflags := cli (rflags s)\<rparr>;
          s = s\<lparr>idtr_reg := \<lparr>idtr_limit = of_nat (IDT_VECTOR * 16 - 1), idtr_base = addr_idt_table la\<rparr>\<rparr>;
          s = s\<lparr>rflags := sti (rflags s)\<rparr>
      in klog (''idt: loaded successfully'' @ [CHR 0x0A]) [] s)"

section \<open>Model specific registers\<close>

definition IA32_APIC_BASE :: u32 where "IA32_APIC_BASE = 0x1B"
definition APIC_GLOBAL_ENABLE :: u64 where "APIC_GLOBAL_ENABLE = push_bit 11 1"

definition read_msr :: "u32 \<Rightarrow> 'a vmm_scheme \<Rightarrow> u64" where
  "read_msr r s =
     (let lo = (ucast (msr s r) :: u32);
          hi = (ucast (drop_bit 32 (msr s r)) :: u32)
      in push_bit 32 (ucast hi) OR ucast lo)"

definition write_msr :: "u32 \<Rightarrow> u64 \<Rightarrow> 'a vmm_scheme \<Rightarrow> 'a vmm_scheme" where
  "write_msr r val s =
     (let a = (ucast val :: u32);
          d = (ucast (drop_bit 32 val) :: u32)
      in s\<lparr>msr := (msr s)(r := push_bit 32 (ucast d) OR ucast a)\<rparr>)"

definition disable_lapic :: "'a vmm_scheme \<Rightarrow> 'a vmm_scheme" where
  "disable_lapic s = write_msr IA32_APIC_BASE (read_msr IA32_APIC_BASE s AND NOT APIC_GLOBAL_ENABLE) s"

definition init_syscall :: "layout \<Rightarrow> 'a tables_scheme \<Rightarrow> 'a tables_scheme exec" where
  "init_syscall la s =
     (let s = write_msr MSRGSBASE (addr_bsp_cpu la) s;
          s = write_msr MSRKGSBASE 0 s;
          efer = read_msr MSREFER s;
          efer = efer OR 1;
          s = write_msr MSREFER efer s;
          star = 0;
          star = star OR push_bit 32 0x08;
          star = star OR push_bit 48 0x10;
          s = write_msr MSRSTAR star s in
      ebind (klog (''syscall: STAR=0x%llx (syscall cs 0x%llx)'' @ [CHR 0x0A]) [LongArg star, LongArg (drop_bit 32 star AND 0xFFFF)] s) (\<lambda>s.
      (let s = write_msr MSRCSTAR 0 s;
           entry = addr_syscall_hanlder la;
           s = write_msr MSRLSTAR entry s;
           s = write_msr MSRSFMASK 0x700 s in
       ebind (klog (''syscall: LSTAR=0x%llx SFMASK=0x%llx EFER.SCE=%u'' @ [CHR 0x0A])
         [LongArg entry, LongArg (read_msr MSRSFMASK s), IntArg (ucast (read_msr MSREFER s AND 1))] s) (\<lambda>s.
       ebind (if read_msr MSRLSTAR s \<noteq> entry then klog_panic (''syscall: LSTAR readback mismatch'' @ [CHR 0x0A]) s else ret s) (\<lambda>s.
       klog (''%s%ssyscall: entry configured%s'' @ [CHR 0x0A]) [StrArg (Some BOLD), StrArg (Some GREEN), StrArg (Some RESET)] s)))))"

definition init_cpu :: "'a syscalls_scheme \<Rightarrow> 'a syscalls_scheme" where
  "init_cpu s = (let s = init_syscalls s in s\<lparr>syscall_kernel_rsp := tss_rsp0 s\<rparr>)"

section \<open>Messages\<close>

text \<open>With a terminal a message changes nothing but what the terminal was given.\<close>

lemma klog_returns:
  assumes "g_tty s = Some tty" and "vsnprintf fmt args = ret buf" and "length buf < 1024"
  shows "\<exists>out. klog fmt args s = ret (s\<lparr>flanterm_out := out\<rparr>)"
  using assms
  by (auto simp: klog_def write_terminal_def
      intro: exI [of _ "flanterm_out s @ buf"] exI [of _ "flanterm_out s"])

lemma klog_plain:
  assumes "g_tty s = Some tty" and "CHR ''%'' \<notin> set t" and "length t < 512"
  shows "\<exists>out. klog t [] s = ret (s\<lparr>flanterm_out := out\<rparr>)"
proof (rule klog_returns [OF assms(1)])
  show "vsnprintf t [] = ret (crlf t)" using vsnprintf_text [OF assms(2), of "[]" "[]"] by simp
  have "length (crlf t) \<le> 2 * length t" by (induction t) (auto simp: crlf_def)
  then show "length (crlf t) < 1024" using assms(3) by simp
qed

section \<open>Reading the tables back\<close>

lemma word_halves: "push_bit 32 (ucast (ucast (drop_bit 32 v) :: u32)) OR ucast (ucast v :: u32) = (v :: u64)"
  by (rule bit_word_eqI) (auto simp: bit_simps)

lemma read_msr_eq [simp]: "read_msr r s = msr s r"
  by (simp add: read_msr_def Let_def word_halves)

lemma write_msr_eq [simp]: "write_msr r v s = s\<lparr>msr := (msr s)(r := v)\<rparr>"
  by (simp add: write_msr_def Let_def word_halves)

text \<open>What the processor reads in a gate and in a descriptor.\<close>

definition gate_address :: "IdtEntry \<Rightarrow> u64" where
  "gate_address e = ucast (offset0 e) OR push_bit 16 (ucast (offset1 e)) OR push_bit 32 (ucast (offset2 e))"

definition gate_type :: "IdtEntry \<Rightarrow> u16" where "gate_type e = drop_bit 8 (ist_flags e) AND 0xF"
definition gate_dpl :: "IdtEntry \<Rightarrow> u16" where "gate_dpl e = drop_bit 13 (ist_flags e) AND 3"
definition gate_ist :: "IdtEntry \<Rightarrow> u16" where "gate_ist e = ist_flags e AND 7"
definition gate_present :: "IdtEntry \<Rightarrow> bool" where "gate_present e \<longleftrightarrow> bit (ist_flags e) 15"

definition desc_present :: "u64 \<Rightarrow> bool" where "desc_present d \<longleftrightarrow> bit d 47"
definition desc_dpl :: "u64 \<Rightarrow> u64" where "desc_dpl d = drop_bit 45 d AND 3"
definition desc_code64 :: "u64 \<Rightarrow> bool" where "desc_code64 d \<longleftrightarrow> bit d 44 \<and> bit d 43 \<and> bit d 53 \<and> \<not> bit d 54"
definition desc_data :: "u64 \<Rightarrow> bool" where "desc_data d \<longleftrightarrow> bit d 44 \<and> \<not> bit d 43 \<and> bit d 41"
definition tss_base :: "u64 \<Rightarrow> u64 \<Rightarrow> u64" where
  "tss_base lo hi = take_bit 24 (drop_bit 16 lo) OR push_bit 24 (drop_bit 56 lo) OR push_bit 32 hi"

definition gate_of :: "u64 \<Rightarrow> u8 \<Rightarrow> IdtEntry \<Rightarrow> IdtEntry" where
  "gate_of a ty e = e\<lparr>offset0 := ucast a, offset1 := ucast (drop_bit 16 a), offset2 := ucast (drop_bit 32 a), selector := ucast KERNEL_CODE,
     ist_flags := push_bit 8 (ucast ty) OR 0x8000\<rparr>"

lemma gate_of_fields:
  "gate_address (gate_of a ty e) = a" "selector (gate_of a ty e) = 8"
  "gate_present (gate_of a 0xE e)" "gate_dpl (gate_of a 0xE e) = 0" "gate_ist (gate_of a 0xE e) = 0" "gate_type (gate_of a 0xE e) = 0xE"
  "gate_present (gate_of a 0xF e)" "gate_dpl (gate_of a 0xF e) = 0" "gate_ist (gate_of a 0xF e) = 0" "gate_type (gate_of a 0xF e) = 0xF"
proof -
  show "gate_address (gate_of a ty e) = a"
  proof (rule bit_word_eqI)
    fix n assume "n < LENGTH(64)"
    then show "bit (gate_address (gate_of a ty e)) n = bit a n"
      by (cases "n < 16"; cases "n < 32") (auto simp: gate_address_def gate_of_def bit_simps)
  qed
qed (simp_all add: gate_of_def KERNEL_CODE_def gate_present_def gate_dpl_def gate_ist_def gate_type_def push_bit_eq_mult drop_bit_eq_div)

lemma set_idt_entries_eq:
  "i < 256 \<Longrightarrow> set_idt_entries (of_nat i) a 0 0 ty s = s\<lparr>idt_table := (idt_table s)[i := gate_of a ty (idt_table s ! i)]\<rparr>"
  by (simp add: set_idt_entries_def gate_of_def Let_def unat_of_nat_small or.assoc push_bit_eq_mult)

lemma fold_upt_update:
  "n \<le> length xs \<Longrightarrow> fold (\<lambda>i xs. xs[i := f i (xs ! i)]) [0..<n] xs = map (\<lambda>i. f i (xs ! i)) [0..<n] @ drop n xs"
proof (induction n)
  case (Suc n)
  then have "drop n xs = xs ! n # drop (Suc n) xs" by (simp add: Cons_nth_drop_Suc)
  then show ?case using Suc by (simp add: list_update_append nth_append)
qed simp

text \<open>The table after \<open>idt_init\<close>.\<close>

definition idt_of :: "layout \<Rightarrow> IdtEntry list \<Rightarrow> IdtEntry list" where
  "idt_of la es = map (\<lambda>i. gate_of (irq_stubs la ! i) (if i < 32 then 0xF else 0xE) (es ! i)) [0..<256]"

definition handlers_of :: "IrqHandler option list \<Rightarrow> IrqHandler option list" where
  "handlers_of hs = map (\<lambda>i. case x86_exception_hanlders ! i of None \<Rightarrow> hs ! i | Some h \<Rightarrow> Some h) [0..<32] @ drop 32 hs"

lemma stub_loop:
  assumes "length (idt_table s) = 256"
  shows "fold (\<lambda>i. set_idt_entries (of_nat i) (irq_stubs la ! i) 0 0 0xE) [0..<IDT_VECTOR] s
    = s\<lparr>idt_table := map (\<lambda>i. gate_of (irq_stubs la ! i) 0xE (idt_table s ! i)) [0..<256]\<rparr>"
proof -
  let ?f = "\<lambda>i xs. xs[i := gate_of (irq_stubs la ! i) 0xE (xs ! i)]"
  have "fold (\<lambda>i. set_idt_entries (of_nat i) (irq_stubs la ! i) 0 0 0xE) [0..<n] s = s\<lparr>idt_table := fold ?f [0..<n] (idt_table s)\<rparr>"
    if "n \<le> 256" for n
    using that by (induction n) (simp_all add: set_idt_entries_eq)
  from this [of 256] show ?thesis
    using fold_upt_update [of 256 "idt_table s" "\<lambda>i. gate_of (irq_stubs la ! i) 0xE"] assms by (simp add: IDT_VECTOR_def)
qed

lemma default_exception_eq:
  assumes "i < 32"
  shows "default_exception la i s = ret (s\<lparr>idt_table := (idt_table s)[i := gate_of (irq_stubs la ! i) 0xF (idt_table s ! i)],
     irq_handlers := (irq_handlers s)[i := (case x86_exception_hanlders ! i of None \<Rightarrow> irq_handlers s ! i | Some h \<Rightarrow> Some h)]\<rparr>)"
proof -
  have "\<not> (32 :: u8) \<le> of_nat i" "unat (of_nat i :: u8) = i" using assms by (simp_all add: word_le_nat_alt unat_of_nat_small)
  then show ?thesis
    using assms by (simp add: default_exception_def register_exception_handler_def set_idt_entries_eq split: option.split)
qed

lemma exception_loop:
  assumes "length (idt_table s) = 256" and "length (irq_handlers s) = 256"
  shows "for_each (default_exception la) [0..<32] s
    = ret (s\<lparr>idt_table := map (\<lambda>i. gate_of (irq_stubs la ! i) 0xF (idt_table s ! i)) [0..<32] @ drop 32 (idt_table s),
           irq_handlers := handlers_of (irq_handlers s)\<rparr>)"
proof -
  let ?f = "\<lambda>i xs. xs[i := gate_of (irq_stubs la ! i) 0xF (xs ! i)]"
  let ?h = "\<lambda>i xs. xs[i := (case x86_exception_hanlders ! i of None \<Rightarrow> xs ! i | Some h \<Rightarrow> Some h)]"
  have "for_each (default_exception la) [0..<n] s
      = ret (s\<lparr>idt_table := fold ?f [0..<n] (idt_table s), irq_handlers := fold ?h [0..<n] (irq_handlers s)\<rparr>)" if "n \<le> 32" for n
    using that by (induction n) (simp_all add: for_each_append default_exception_eq cong: option.case_cong)
  from this [of 32] show ?thesis
    using fold_upt_update [of 32 "idt_table s" "\<lambda>i. gate_of (irq_stubs la ! i) 0xF"]
      fold_upt_update [of 32 "irq_handlers s" "\<lambda>i x. case x86_exception_hanlders ! i of None \<Rightarrow> x | Some h \<Rightarrow> Some h"] assms
    by (simp add: handlers_of_def del: upt_rec_numeral)
qed

lemma stub_messages:
  "g_tty s = Some tty \<Longrightarrow> \<exists>out. klog (''%s%s[debug] default init exception stubs %s'' @ [CHR 0x0A])
      [StrArg (Some BOLD), StrArg (Some BLUE), StrArg (Some RESET)] s = ret (s\<lparr>flanterm_out := out\<rparr>)"
  "g_tty s = Some tty \<Longrightarrow> \<exists>out. klog (''%s%s[debug] finished default init exception stubs%s'' @ [CHR 0x0A])
      [StrArg (Some BOLD), StrArg (Some BLUE), StrArg (Some RESET)] s = ret (s\<lparr>flanterm_out := out\<rparr>)"
  by (rule klog_returns, assumption, simp, simp add: BOLD_def BLUE_def RESET_def)+

lemma idt_init_run:
  assumes "g_tty s = Some tty" and "length (idt_table s) = 256" and "length (irq_handlers s) = 256"
  shows "\<exists>out. idt_init la s = ret (s\<lparr>idt_table := idt_of la (idt_table s), irq_handlers := handlers_of (irq_handlers s), flanterm_out := out\<rparr>)"
proof -
  let ?t = "map (\<lambda>i. gate_of (irq_stubs la ! i) 0xE (idt_table s ! i)) [0..<256]"
  let ?t' = "map (\<lambda>i. gate_of (irq_stubs la ! i) 0xF (?t ! i)) [0..<32] @ drop 32 ?t"
  have gg: "gate_of a t (gate_of a u e) = gate_of a t e" for a t u e by (simp add: gate_of_def)
  have t: "?t' = idt_of la (idt_table s)"
    by (rule nth_equalityI) (simp_all add: idt_of_def nth_append gg del: upt_rec_numeral)
  obtain o1 where 1: "klog (''%s%s[debug] default init exception stubs %s'' @ [CHR 0x0A])
        [StrArg (Some BOLD), StrArg (Some BLUE), StrArg (Some RESET)] (s\<lparr>idt_table := ?t\<rparr>) = ret (s\<lparr>idt_table := ?t, flanterm_out := o1\<rparr>)"
    using stub_messages(1) [of "s\<lparr>idt_table := ?t\<rparr>"] assms(1) by (auto simp del: upt_rec_numeral)
  have 2: "for_each (default_exception la) [0..<32] (s\<lparr>idt_table := ?t, flanterm_out := o1\<rparr>)
      = ret (s\<lparr>idt_table := idt_of la (idt_table s), irq_handlers := handlers_of (irq_handlers s), flanterm_out := o1\<rparr>)"
    using exception_loop [of "s\<lparr>idt_table := ?t, flanterm_out := o1\<rparr>" la] assms(3) t by (simp del: upt_rec_numeral)
  show ?thesis
    unfolding idt_init_def Let_def stub_loop [OF assms(2)] 1 ebind_simps 2
    using stub_messages(2) [of "s\<lparr>idt_table := idt_of la (idt_table s), irq_handlers := handlers_of (irq_handlers s), flanterm_out := o1\<rparr>"] assms(1)
    by simp
qed

definition tss_desc :: "u64 \<Rightarrow> TssDescriptor" where
  "tss_desc a = \<lparr>td_limit00 = 0x67, td_base0 = ucast (a AND 0xFFFF), td_base1 = ucast (drop_bit 16 a), td_access = 0x89, td_limit1 = 0,
      td_flags = 0, td_base2 = ucast (drop_bit 24 a), td_base3 = ucast (drop_bit 32 a), td_reserved = 0\<rparr>"

definition gdt_of :: "layout \<Rightarrow> u64 list" where
  "gdt_of la = [0, 0x00209B0000000000, 0x0020930000000000, 0x0020F30000000000, 0x0020FB0000000000,
     tss_seg0 (tss_desc (addr_tss la)), tss_seg1 (tss_desc (addr_tss la))]"

lemma tss_seg0_bits:
  assumes "td_base0 d = ucast a" "td_base1 d = ucast (drop_bit 16 a)" "td_base2 d = ucast (drop_bit 24 a)" "td_limit1 d = 0" "td_flags d = 0"
    and "n < 64"
  shows "bit (tss_seg0 d) n \<longleftrightarrow> (if n < 16 then bit (td_limit00 d) n else if n < 40 then bit (a :: u64) (n - 16)
     else if n < 48 then bit (td_access d) (n - 40) else n \<ge> 56 \<and> bit a (n - 32))"
proof -
  have w: "bit (x :: u16) k \<Longrightarrow> k < 16" "bit (y :: u8) k \<Longrightarrow> k < 8" for x y k
    using bit_imp_le_length [of x k] bit_imp_le_length [of y k] by auto
  show ?thesis using assms by (auto simp: tss_seg0_def bit_simps dest: w)
qed

lemma tss_descriptor_fields:
  "tss_base (tss_seg0 (tss_desc a)) (tss_seg1 (tss_desc a)) = a"
  "take_bit 16 (tss_seg0 (tss_desc a)) = 0x67" "take_bit 8 (drop_bit 40 (tss_seg0 (tss_desc a))) = 0x89"
proof -
  have "a AND 0xFFFF = take_bit 16 a" by (simp add: take_bit_eq_mask mask_eq_exp_minus_1)
  then have u: "ucast (a AND 0xFFFF) = (ucast a :: u16)" by (simp only:) (rule bit_word_eqI, simp add: bit_simps)
  let ?d = "tss_desc a"
  have d: "td_base0 ?d = ucast a" "td_base1 ?d = ucast (drop_bit 16 a)" "td_base2 ?d = ucast (drop_bit 24 a)" "td_limit1 ?d = 0"
    "td_flags ?d = 0" "td_base3 ?d = ucast (drop_bit 32 a)" "td_reserved ?d = 0"
    by (simp_all add: tss_desc_def u)
  note b = tss_seg0_bits [OF d(1-5)]
  show "tss_base (tss_seg0 ?d) (tss_seg1 ?d) = a"
  proof (rule bit_word_eqI)
    fix n assume "n < LENGTH(64)"
    then show "bit (tss_base (tss_seg0 ?d) (tss_seg1 ?d)) n = bit a n"
      by (cases "n < 24"; cases "n < 32") (auto simp: tss_base_def tss_seg1_def d bit_simps b dest: bit_imp_le_length)
  qed
  have "take_bit 16 (tss_seg0 ?d) = ucast (td_limit00 ?d)"
    by (rule bit_word_eqI) (auto simp: bit_simps b dest: bit_imp_le_length)
  then show "take_bit 16 (tss_seg0 ?d) = 0x67" by (simp add: tss_desc_def)
  have "take_bit 8 (drop_bit 40 (tss_seg0 ?d)) = ucast (td_access ?d)"
  proof (rule bit_word_eqI)
    fix n
    show "bit (take_bit 8 (drop_bit 40 (tss_seg0 ?d))) n = bit (ucast (td_access ?d) :: u64) n"
      using bit_imp_le_length [of "td_access ?d" n] by (cases "n < 8") (auto simp: bit_simps b)
  qed
  then show "take_bit 8 (drop_bit 40 (tss_seg0 ?d)) = 0x89" by (simp add: tss_desc_def)
qed

lemma init_gdt_entries_run:
  assumes "g_tty s = Some tty" and "length (gdt_entries s) = 7"
  shows "\<exists>out. init_gdt_entries la s = ret (s\<lparr>gdt_entries := gdt_of la, flanterm_out := out\<rparr>)"
proof -
  have g: "(gdt_entries s)[0 := a, 1 := b, 2 := c, 3 := d, 4 := e, 5 := f, 6 := g] = [a, b, c, d, e, f, g]" for a b c d e f g
    using assms(2) by (simp add: list_eq_iff_nth_eq less_Suc_eq numeral_eq_Suc)
  show ?thesis
    unfolding init_gdt_entries_def Let_def g
    using klog_plain [of "s\<lparr>gdt_entries := gdt_of la\<rparr>" tty "''gdt: entries initialized'' @ [CHR 0x0A]"] assms(1)
    by (simp add: gdt_of_def sizeof_TssSegments_def tss_desc_def)
qed

lemma inital_init_run:
  assumes "g_tty s = Some tty" and "length (gdt_entries s) = 7"
  shows "\<exists>out. inital_init la s = ret (True, s\<lparr>gdt_entries := gdt_of la, flanterm_out := out,
    gdtr_reg := \<lparr>gdtr_limit = 55, gdtr_address = addr_gdt_entries la\<rparr>,
    segs := \<lparr>seg_cs = 0x08, seg_ds = 0x10, seg_es = 0x10, seg_fs = 0x10, seg_gs = 0x10, seg_ss = 0x10, seg_tr = 0x28\<rparr>\<rparr>)"
proof -
  obtain o1 where 1: "init_gdt_entries la s = ret (s\<lparr>gdt_entries := gdt_of la, flanterm_out := o1\<rparr>)"
    using init_gdt_entries_run [OF assms] by blast
  let ?s = "gdt_flush \<lparr>gdtr_limit = 7 * 8 - 1, gdtr_address = addr_gdt_entries la\<rparr> (s\<lparr>gdt_entries := gdt_of la, flanterm_out := o1\<rparr>)"
  obtain o2 where 2: "klog (''gdt: loaded successfully'' @ [CHR 0x0A]) [] ?s = ret (?s\<lparr>flanterm_out := o2\<rparr>)"
    using klog_plain [of ?s tty "''gdt: loaded successfully'' @ [CHR 0x0A]"] assms(1) by (auto simp: gdt_flush_def)
  show ?thesis unfolding inital_init_def 1 ebind_simps refresh_def 2 by (intro exI [of _ o2]) (simp add: gdt_flush_def)
qed

lemma idtr_asm_load_run:
  assumes "g_tty s = Some tty"
  shows "\<exists>out. idtr_asm_load la s = ret (s\<lparr>idtr_reg := \<lparr>idtr_limit = 0xFFF, idtr_base = addr_idt_table la\<rparr>,
    rflags := sti (cli (rflags s)), flanterm_out := out\<rparr>)"
  unfolding idtr_asm_load_def Let_def
  using klog_plain [of "s\<lparr>idtr_reg := \<lparr>idtr_limit = 0xFFF, idtr_base = addr_idt_table la\<rparr>, rflags := sti (cli (rflags s))\<rparr>" tty
      "''idt: loaded successfully'' @ [CHR 0x0A]"] assms
  by (simp add: IDT_VECTOR_def)

text \<open>The registers after \<open>init_syscall\<close>.\<close>

definition msrs_of :: "layout \<Rightarrow> (u32 \<Rightarrow> u64) \<Rightarrow> u32 \<Rightarrow> u64" where
  "msrs_of la m = m(MSRGSBASE := addr_bsp_cpu la, MSRKGSBASE := 0, MSREFER := m MSREFER OR 1, MSRSTAR := 0x0010000800000000,
     MSRCSTAR := 0, MSRLSTAR := addr_syscall_hanlder la, MSRSFMASK := 0x700)"

lemma print_hex_short: "length (print_hex (unat (x :: u64))) \<le> 16"
  using print_hex_length [of "unat x" 16] u64_less_2p64 [of x] by simp

lemma u32_less_2p32: "unat (x :: u32) < 2 ^ 32"
  using unsigned_less [of x] by simp

lemma print_dec_short: "length (print_dec (unat (x :: u32))) \<le> 10"
  using print_dec_length [of "unat x" 10] u32_less_2p32 [of x] by simp

lemma syscall_messages:
  assumes "g_tty s = Some tty"
  shows "\<exists>out. klog (''syscall: STAR=0x%llx (syscall cs 0x%llx)'' @ [CHR 0x0A]) [LongArg v, LongArg w] s = ret (s\<lparr>flanterm_out := out\<rparr>)"
    "\<exists>out. klog (''syscall: LSTAR=0x%llx SFMASK=0x%llx EFER.SCE=%u'' @ [CHR 0x0A]) [LongArg v, LongArg w, IntArg x] s = ret (s\<lparr>flanterm_out := out\<rparr>)"
    "\<exists>out. klog (''%s%ssyscall: entry configured%s'' @ [CHR 0x0A]) [StrArg (Some BOLD), StrArg (Some GREEN), StrArg (Some RESET)] s
       = ret (s\<lparr>flanterm_out := out\<rparr>)"
  using print_hex_short [of v] print_hex_short [of w] print_dec_short [of x]
  by - (rule klog_returns [OF assms], simp, simp add: BOLD_def GREEN_def RESET_def)+

lemma init_syscall_run:
  assumes "g_tty s = Some tty"
  shows "\<exists>out. init_syscall la s = ret (s\<lparr>msr := msrs_of la (msr s), flanterm_out := out\<rparr>)"
proof -
  define m1 where "m1 = (msr s)(MSRGSBASE := addr_bsp_cpu la, MSRKGSBASE := 0, MSREFER := msr s MSREFER OR 1, MSRSTAR := 0x0010000800000000)"
  define m2 where "m2 = m1(MSRCSTAR := 0, MSRLSTAR := addr_syscall_hanlder la, MSRSFMASK := 0x700)"
  have efer: "((msr s)(MSRGSBASE := addr_bsp_cpu la, MSRKGSBASE := 0)) MSREFER = msr s MSREFER" and lstar: "m2 MSRLSTAR = addr_syscall_hanlder la"
    by (simp_all add: m2_def MSRGSBASE_def MSRKGSBASE_def MSREFER_def MSRLSTAR_def MSRSFMASK_def)
  have star: "(0 :: u64) OR push_bit 32 8 OR push_bit 48 0x10 = 0x0010000800000000" "drop_bit 32 (0x0010000800000000 :: u64) AND 0xFFFF = 8"
    by (simp_all add: push_bit_eq_mult drop_bit_eq_div)
  have run: "init_syscall la s =
      ebind (klog (''syscall: STAR=0x%llx (syscall cs 0x%llx)'' @ [CHR 0x0A]) [LongArg 0x0010000800000000, LongArg 8] (s\<lparr>msr := m1\<rparr>)) (\<lambda>s.
      (let s = s\<lparr>msr := (msr s)(MSRCSTAR := 0, MSRLSTAR := addr_syscall_hanlder la, MSRSFMASK := 0x700)\<rparr> in
       ebind (klog (''syscall: LSTAR=0x%llx SFMASK=0x%llx EFER.SCE=%u'' @ [CHR 0x0A])
         [LongArg (addr_syscall_hanlder la), LongArg (msr s MSRSFMASK), IntArg (ucast (msr s MSREFER AND 1))] s) (\<lambda>s.
       ebind (if msr s MSRLSTAR \<noteq> addr_syscall_hanlder la
              then klog_panic (''syscall: LSTAR readback mismatch'' @ [CHR 0x0A]) s else ret s) (\<lambda>s.
       klog (''%s%ssyscall: entry configured%s'' @ [CHR 0x0A]) [StrArg (Some BOLD), StrArg (Some GREEN), StrArg (Some RESET)] s))))"
    unfolding init_syscall_def Let_def write_msr_eq read_msr_eq star m1_def efer [symmetric] by simp
  obtain o1 where 1: "klog (''syscall: STAR=0x%llx (syscall cs 0x%llx)'' @ [CHR 0x0A])
      [LongArg 0x0010000800000000, LongArg 8] (s\<lparr>msr := m1\<rparr>) = ret (s\<lparr>msr := m1, flanterm_out := o1\<rparr>)"
    using syscall_messages(1) [of "s\<lparr>msr := m1\<rparr>" tty "0x0010000800000000" 8] assms by auto
  have s2: "s\<lparr>msr := m1, flanterm_out := o1\<rparr>\<lparr>msr := (msr (s\<lparr>msr := m1, flanterm_out := o1\<rparr>))
      (MSRCSTAR := 0, MSRLSTAR := addr_syscall_hanlder la, MSRSFMASK := 0x700)\<rparr> = s\<lparr>msr := m2, flanterm_out := o1\<rparr>"
    by (simp add: m2_def)
  obtain o2 where 2: "klog (''syscall: LSTAR=0x%llx SFMASK=0x%llx EFER.SCE=%u'' @ [CHR 0x0A])
      [LongArg (addr_syscall_hanlder la), LongArg (msr (s\<lparr>msr := m2, flanterm_out := o1\<rparr>) MSRSFMASK),
       IntArg (ucast (msr (s\<lparr>msr := m2, flanterm_out := o1\<rparr>) MSREFER AND 1))] (s\<lparr>msr := m2, flanterm_out := o1\<rparr>)
      = ret (s\<lparr>msr := m2, flanterm_out := o2\<rparr>)"
    using syscall_messages(2) [of "s\<lparr>msr := m2, flanterm_out := o1\<rparr>" tty "addr_syscall_hanlder la" "m2 MSRSFMASK"
        "ucast (m2 MSREFER AND 1)"] assms by auto
  have "msrs_of la (msr s) = m2" by (simp add: msrs_of_def m2_def m1_def)
  then show ?thesis
    unfolding run 1 ebind_simps Let_def s2 2
    using syscall_messages(3) [of "s\<lparr>msr := m2, flanterm_out := o2\<rparr>" tty] assms by (simp add: lstar)
qed

end
