(* ===== verification/Keyboard.thy ===== *)
theory Keyboard
  imports Ring_Buffer Port_IO
begin

text \<open>
  The PS/2 keyboard: the scan codes of \<^verbatim>\<open>src/src/include/arch/x86-64/arch/event.hpp\<close> and the driver
  \<^verbatim>\<open>src/src/kernel/drivers/ps2.cpp\<close>, which turns the bytes of the controller into key codes in
  a ring buffer. The controller is the device parameter of the port operations.
\<close>

section \<open>Scan codes\<close>

text \<open>A scan code is any byte; the enumerators are names for some of them.\<close>

type_synonym ScanCode = u8

definition scan_codes :: "(string \<times> ScanCode) list" where
  "scan_codes =
     [(''Escape'', 0x01), (''Num1'', 0x02), (''Num2'', 0x03), (''Num3'', 0x04), (''Num4'', 0x05), (''Num5'', 0x06),
      (''Num6'', 0x07), (''Num7'', 0x08), (''Num8'', 0x09), (''Num9'', 0x0A), (''Num0'', 0x0B), (''Minus'', 0x0C),
      (''Equals'', 0x0D), (''Backspace'', 0x0E), (''Tab'', 0x0F), (''Q'', 0x10), (''W'', 0x11), (''E'', 0x12),
      (''R'', 0x13), (''T'', 0x14), (''Y'', 0x15), (''U'', 0x16), (''I'', 0x17), (''O'', 0x18), (''P'', 0x19),
      (''LeftBracket'', 0x1A), (''RightBracket'', 0x1B), (''Enter'', 0x1C), (''LeftCtrl'', 0x1D), (''A'', 0x1E),
      (''S'', 0x1F), (''D'', 0x20), (''F'', 0x21), (''G'', 0x22), (''H'', 0x23), (''J'', 0x24), (''K'', 0x25),
      (''L'', 0x26), (''Semicolon'', 0x27), (''Apostrophe'', 0x28), (''Backtick'', 0x29), (''LeftShift'', 0x2A),
      (''Backslash'', 0x2B), (''Z'', 0x2C), (''X'', 0x2D), (''C'', 0x2E), (''V'', 0x2F), (''B'', 0x30), (''N'', 0x31),
      (''M'', 0x32), (''Comma'', 0x33), (''Period'', 0x34), (''Slash'', 0x35), (''RightShift'', 0x36),
      (''KeypadStar'', 0x37), (''LeftAlt'', 0x38), (''Space'', 0x39), (''CapsLock'', 0x3A), (''F1'', 0x3B),
      (''F2'', 0x3C), (''F3'', 0x3D), (''F4'', 0x3E), (''F5'', 0x3F), (''F6'', 0x40), (''F7'', 0x41), (''F8'', 0x42),
      (''F9'', 0x43), (''F10'', 0x44), (''NumLock'', 0x45), (''ScrollLock'', 0x46), (''Keypad7'', 0x47),
      (''Keypad8'', 0x48), (''Keypad9'', 0x49), (''KeypadMinus'', 0x4A), (''Keypad4'', 0x4B), (''Keypad5'', 0x4C),
      (''Keypad6'', 0x4D), (''KeypadPlus'', 0x4E), (''Keypad1'', 0x4F), (''Keypad2'', 0x50), (''Keypad3'', 0x51),
      (''Keypad0'', 0x52), (''KeypadPeriod'', 0x53), (''F11'', 0x57), (''F12'', 0x58), (''KeypadEnter'', 0x9C),
      (''RightCtrl'', 0x9D), (''KeypadSlash'', 0xB5), (''RightAlt'', 0xB8), (''Home'', 0xC7), (''Up'', 0xC8),
      (''PageUp'', 0xC9), (''Left'', 0xCB), (''Right'', 0xCD), (''End'', 0xCF), (''Down'', 0xD0),
      (''PageDown'', 0xD1), (''Insert'', 0xD2), (''Delete'', 0xD3)]"

definition ScanCode_Backspace :: ScanCode where "ScanCode_Backspace = 0x0E"
definition ScanCode_Enter :: ScanCode where "ScanCode_Enter = 0x1C"
definition ScanCode_KeypadEnter :: ScanCode where "ScanCode_KeypadEnter = 0x9C"

definition ps2_is_release :: "u8 \<Rightarrow> bool" where
  "ps2_is_release byte \<longleftrightarrow> byte AND 0x80 \<noteq> 0"

definition ps2_single_byte :: "u8 \<Rightarrow> ScanCode" where
  "ps2_single_byte byte = byte AND 0x7F"

definition ps2_extend_codes :: "u8 \<Rightarrow> ScanCode" where
  "ps2_extend_codes byte = 0x80 OR (byte AND 0x7F)"

section \<open>The driver\<close>

datatype PS2Ack = PS2_Ack | PS2_Nack | PS2_Error

datatype KeyState = State_None | State_E0

definition DATA_PORT :: u8 where "DATA_PORT = 0x60"
definition STATUS_PORT :: u8 where "STATUS_PORT = 0x64"
definition CMD_PORT :: u8 where "CMD_PORT = 0x64"
definition SCANNING_BYTE :: u8 where "SCANNING_BYTE = 0xF4"
definition DISABLE_SCANNING :: u8 where "DISABLE_SCANNING = 0xF5"
definition RESEND :: u8 where "RESEND = 0xFE"
definition ACK :: u8 where "ACK = 0xFA"
definition DISABLE_PORT1 :: u8 where "DISABLE_PORT1 = 0xAD"
definition ENABLE_PORT1 :: u8 where "ENABLE_PORT1 = 0xAE"
definition CPU_RESET :: u8 where "CPU_RESET = 0xFE"
definition MAX_RETRY :: u8 where "MAX_RETRY = 3"

record Ps2Keyboard =
  last_data :: u8
  nack_count :: u8
  kb_data :: KeyboardBuffer
  signal :: PS2Ack
  state_machine :: KeyState

text \<open>The member initialisers; the bytes of the buffer itself are not initialised.\<close>

definition Ps2Keyboard_init :: "u8 list \<Rightarrow> Ps2Keyboard" where
  "Ps2Keyboard_init slots = \<lparr>last_data = 0, nack_count = 0, kb_data = fresh_buffer slots, signal = PS2_Ack,
     state_machine = State_None\<rparr>"

definition read_data :: "device \<Rightarrow> 'a io_scheme \<Rightarrow> u8 \<times> 'a io_scheme" where
  "read_data D s = inb D (ucast DATA_PORT) s"

definition write_cmd :: "u8 \<Rightarrow> 'a io_scheme \<Rightarrow> 'a io_scheme" where
  "write_cmd byte s = outb (ucast CMD_PORT) byte s"

definition write_data :: "u8 \<Rightarrow> Ps2Keyboard \<times> 'a io_scheme \<Rightarrow> Ps2Keyboard \<times> 'a io_scheme" where
  "write_data byte = (\<lambda>(kb, s). (kb\<lparr>last_data := byte\<rparr>, outb (ucast DATA_PORT) byte s))"

definition on_recieve :: "u8 \<Rightarrow> Ps2Keyboard \<times> 'a io_scheme \<Rightarrow> (Ps2Keyboard \<times> 'a io_scheme) exec" where
  "on_recieve byte = (\<lambda>(kb, s).
     (if byte = ACK then ret (kb\<lparr>signal := PS2_Ack, nack_count := 0\<rparr>, s)
      else if byte = RESEND then
        (let kb = kb\<lparr>signal := PS2_Nack\<rparr>;
             kb = kb\<lparr>nack_count := nack_count kb + 1\<rparr> in
         if nack_count kb \<ge> MAX_RETRY then
           ret (kb\<lparr>nack_count := 0, signal := PS2_Error\<rparr>, write_cmd DISABLE_PORT1 s)
         else ret (write_data (last_data kb) (kb, s)))
      else if byte = 0xE0 then ret (kb\<lparr>state_machine := State_E0\<rparr>, s)
      else
        (let curr_code = (case state_machine kb of
                            State_None \<Rightarrow> ps2_single_byte byte
                          | State_E0 \<Rightarrow> ps2_extend_codes byte);
             kb = kb\<lparr>state_machine := State_None\<rparr> in
         if ps2_is_release byte then ret (kb, s)
         else ebind (buf_write (kb_data kb) curr_code) (\<lambda>b. ret (kb\<lparr>kb_data := b\<rparr>, s)))))"

text \<open>The controller may hold any number of bytes back, so draining it need not end.\<close>

partial_function (option) drain :: "device \<Rightarrow> 'a io_scheme \<Rightarrow> 'a io_scheme exec" where
  "drain D s =
     (let (st, s) = inb D (ucast STATUS_PORT) s in
      if st AND 1 \<noteq> 0 then (let (v, s) = inb D (ucast DATA_PORT) s in drain D s) else ret s)"

definition ps2_keyboard_init :: "device \<Rightarrow> Ps2Keyboard \<times> 'a io_scheme \<Rightarrow> (Ps2Keyboard \<times> 'a io_scheme) exec" where
  "ps2_keyboard_init D = (\<lambda>(kb, s). ebind (drain D s) (\<lambda>s. ret (write_data SCANNING_BYTE (kb, s))))"

section \<open>Keys on the wire\<close>

text \<open>
  Scan code set 1: a key sends its code when it is pressed and its code with the top bit set when it is
  released; the keys whose enumerator has the top bit set send the prefix \<open>0xE0\<close> first.
\<close>

datatype key_event = Press ScanCode | Release ScanCode

fun wire :: "key_event \<Rightarrow> u8 list" where
  "wire (Press c) = (if c AND 0x80 = 0 then [c] else [0xE0, c AND 0x7F])"
| "wire (Release c) = (if c AND 0x80 = 0 then [c OR 0x80] else [0xE0, c])"

fun key_of :: "key_event \<Rightarrow> ScanCode" where
  "key_of (Press c) = c"
| "key_of (Release c) = c"

fun pressed :: "key_event list \<Rightarrow> ScanCode list" where
  "pressed [] = []"
| "pressed (Press c # es) = c # pressed es"
| "pressed (Release c # es) = pressed es"

text \<open>No byte of a known key is one of the three bytes the driver treats specially.\<close>

definition plain_code :: "u8 \<Rightarrow> bool" where
  "plain_code c \<longleftrightarrow> c AND 0x7F \<notin> {0x60, 0x7A, 0x7E}"

lemma scan_codes_plain: "list_all (\<lambda>nc. plain_code (snd nc)) scan_codes"
  unfolding scan_codes_def plain_code_def by simp

lemma byte_masks: "(0x7F :: u8) = mask 7" "(0x80 :: u8) = NOT (mask 7)"
  by (simp_all add: mask_eq_exp_minus_1)

lemma masked_byte:
  fixes c :: u8
  shows "(c AND 0x7F) AND 0x80 = 0" "(c OR 0x80) AND 0x80 = 0x80" "(c OR 0x80) AND 0x7F = c AND 0x7F"
    "c AND 0x80 = 0 \<Longrightarrow> c AND 0x7F = c" "c AND 0x80 \<noteq> 0 \<Longrightarrow> 0x80 OR ((c AND 0x7F) AND 0x7F) = c"
proof -
  show "(c AND 0x7F) AND 0x80 = 0" "(c OR 0x80) AND 0x80 = 0x80" "(c OR 0x80) AND 0x7F = c AND 0x7F"
    unfolding byte_masks by (auto simp: bit_eq_iff bit_simps)
  show "c AND 0x80 = 0 \<Longrightarrow> c AND 0x7F = c"
    unfolding byte_masks by (auto simp: bit_eq_iff bit_simps)
  assume "c AND 0x80 \<noteq> 0"
  then obtain n where n: "\<not> n < 7" "n < 8" "bit c n"
    unfolding byte_masks by (auto simp: bit_eq_iff bit_simps)
  then have "n = 7" by simp
  have top: "bit c m" if "m < 8" "\<not> m < 7" for m
  proof -
    have "m = n" using that \<open>n = 7\<close> by simp
    then show ?thesis using n(3) by simp
  qed
  show "0x80 OR ((c AND 0x7F) AND 0x7F) = c"
    unfolding byte_masks by (rule bit_word_eqI) (auto simp: bit_simps top)
qed

definition kb_idle :: "Ps2Keyboard \<Rightarrow> bool" where
  "kb_idle kb \<longleftrightarrow> state_machine kb = State_None \<and> ring_inv (kb_data kb)"

text \<open>A byte of a key, in the two states of the decoder.\<close>

lemma key_byte:
  assumes "plain_code b"
  shows "on_recieve b (kb, s) =
     (let code = (if state_machine kb = State_None then b AND 0x7F else 0x80 OR (b AND 0x7F)) in
      if b AND 0x80 \<noteq> 0 then ret (kb\<lparr>state_machine := State_None\<rparr>, s)
      else ebind (buf_write (kb_data kb) code) (\<lambda>q. ret (kb\<lparr>state_machine := State_None, kb_data := q\<rparr>, s)))"
proof -
  have "b \<noteq> ACK" "b \<noteq> RESEND" "b \<noteq> 0xE0"
    using assms by (auto simp: plain_code_def ACK_def RESEND_def)
  then show ?thesis
    by (cases "state_machine kb") (simp_all add: on_recieve_def Let_def ps2_is_release_def ps2_single_byte_def ps2_extend_codes_def)
qed

lemma prefix_byte: "on_recieve 0xE0 (kb, s) = ret (kb\<lparr>state_machine := State_E0\<rparr>, s)"
  by (simp add: on_recieve_def ACK_def RESEND_def)

lemma plain_masked: "plain_code (c AND 0x7F) = plain_code c" "plain_code (c OR 0x80) = plain_code c"
  using masked_byte(3) [of c] by (simp_all add: plain_code_def and.assoc)

lemma release_key:
  assumes "plain_code c" and "kb_idle kb"
  shows "for_each on_recieve (wire (Release c)) (kb, s) = ret (kb, s)"
proof -
  have "kb\<lparr>state_machine := State_None\<rparr> = kb" using assms(2) by (simp add: kb_idle_def)
  then show ?thesis
    using assms masked_byte(2) [of c]
    by (cases "c AND 0x80 = 0") (simp_all add: key_byte plain_masked prefix_byte Let_def)
qed

lemma press_key:
  assumes "plain_code c" and "kb_idle kb"
  shows "for_each on_recieve (wire (Press c)) (kb, s) = ebind (buf_write (kb_data kb) c) (\<lambda>q. ret (kb\<lparr>kb_data := q\<rparr>, s))"
proof -
  have st: "state_machine kb = State_None" "kb\<lparr>state_machine := State_None, kb_data := q\<rparr> = kb\<lparr>kb_data := q\<rparr>" for q
    using assms(2) by (simp_all add: kb_idle_def)
  show ?thesis
  proof (cases "c AND 0x80 = 0")
    case True
    then show ?thesis
      using assms(1) st masked_byte(4) [OF True] by (simp add: key_byte Let_def ebind_def split: option.splits sum.splits)
  next
    case False
    then show ?thesis
      using assms(1) st masked_byte(1,5) [of c]
      by (simp add: key_byte plain_masked prefix_byte Let_def ebind_def split: option.splits sum.splits)
  qed
qed

section \<open>Properties\<close>

text \<open>
  Claim C13. Typing: any sequence of presses and releases of keys the driver knows, sent by the keyboard in scan code
  set 1 with prefixes, is decoded exactly. The buffer gains the codes of the pressed keys in order and nothing else,
  nothing is sent to the controller, and the decoder is idle again, as long as the buffer has room.
\<close>

theorem typed_keys_arrive_in_order:
  assumes "kb_idle kb" and "\<forall>e \<in> set es. key_of e \<in> snd ` set scan_codes"
    and "length (ring_contents (kb_data kb)) + length (pressed es) \<le> ring_capacity (kb_data kb)"
  shows "\<exists>q. for_each on_recieve (concat (map wire es)) (kb, s) = ret (kb\<lparr>kb_data := q\<rparr>, s)
    \<and> kb_idle (kb\<lparr>kb_data := q\<rparr>) \<and> ring_contents q = ring_contents (kb_data kb) @ pressed es"
  using assms
proof (induction es arbitrary: kb)
  case Nil
  then show ?case by (intro exI [of _ "kb_data kb"]) simp
next
  case (Cons e es)
  have plain: "plain_code (key_of e)" using Cons.prems(2) scan_codes_plain by (auto simp: list_all_iff)
  show ?case
  proof (cases e)
    case (Release c)
    then show ?thesis
      using Cons release_key [OF plain Cons.prems(1), of s] by (simp add: for_each_append)
  next
    case (Press c)
    have inv: "ring_inv (kb_data kb)" using Cons.prems(1) by (simp add: kb_idle_def)
    have "unat (rb_size (kb_data kb)) < ring_capacity (kb_data kb)" using Cons.prems(3) Press by simp
    from buf_write_room [OF inv this, of c]
    obtain q where q: "buf_write (kb_data kb) c = ret q" "ring_inv q" "ring_contents q = ring_contents (kb_data kb) @ [c]"
      "ring_capacity q = ring_capacity (kb_data kb)" by blast
    have "kb_idle (kb\<lparr>kb_data := q\<rparr>)" using Cons.prems(1) q(2) by (simp add: kb_idle_def)
    moreover have "length (ring_contents q) + length (pressed es) \<le> ring_capacity q"
      using Cons.prems(3) Press unfolding q(3,4) by simp
    ultimately obtain q' where "for_each on_recieve (concat (map wire es)) (kb\<lparr>kb_data := q\<rparr>, s) = ret (kb\<lparr>kb_data := q'\<rparr>, s)"
      "kb_idle (kb\<lparr>kb_data := q'\<rparr>)" "ring_contents q' = ring_contents q @ pressed es"
      using Cons.IH [of "kb\<lparr>kb_data := q\<rparr>"] Cons.prems(2) by auto
    moreover have "for_each on_recieve (wire e) (kb, s) = ret (kb\<lparr>kb_data := q\<rparr>, s)"
      using press_key [OF _ Cons.prems(1), of c s] plain Press q(1) by simp
    ultimately show ?thesis using q(3) Press by (intro exI [of _ q']) (simp add: for_each_append)
  qed
qed

theorem typed_keys_arrive_in_order_witness:
  "\<exists>q. for_each on_recieve [0x1E, 0x9E, 0xE0, 0x48, 0xE0, 0xC8, 0x30] (Ps2Keyboard_init (replicate 255 0), vmm.extend blank_vmm \<lparr>io_log = []\<rparr>)
       = ret ((Ps2Keyboard_init (replicate 255 0))\<lparr>kb_data := q\<rparr>, vmm.extend blank_vmm \<lparr>io_log = []\<rparr>)
     \<and> ring_contents q = [0x1E, 0xC8, 0x30]"
proof -
  have "kb_idle (Ps2Keyboard_init (replicate 255 0))"
    by (auto simp: kb_idle_def Ps2Keyboard_init_def intro!: ring_inv_fresh)
  moreover have "{0x1E, 0xC8, 0x30} \<subseteq> snd ` set scan_codes" by (simp add: scan_codes_def)
  ultimately show ?thesis
    using typed_keys_arrive_in_order [of "Ps2Keyboard_init (replicate 255 0)"
        "[Press 0x1E, Release 0x1E, Press 0xC8, Release 0xC8, Press 0x30]" "vmm.extend blank_vmm \<lparr>io_log = []\<rparr>"]
    by (auto simp: Ps2Keyboard_init_def)
qed

section \<open>Starting the keyboard\<close>

text \<open>The log after \<open>n\<close> bytes were taken from the controller, and whether it has one more.\<close>

primrec drain_log :: "device \<Rightarrow> nat \<Rightarrow> io_event list \<Rightarrow> io_event list" where
  "drain_log D 0 es = es"
| "drain_log D (Suc n) es = (let es = es @ [In 0x64 (D 0x64 es)] in drain_log D n (es @ [In 0x60 (D 0x60 es)]))"

definition has_byte :: "device \<Rightarrow> nat \<Rightarrow> io_event list \<Rightarrow> bool" where
  "has_byte D n es \<longleftrightarrow> D 0x64 (drain_log D n es) AND 1 \<noteq> 0"

lemma ports: "(ucast STATUS_PORT :: u16) = 0x64" "(ucast DATA_PORT :: u16) = 0x60"
  by (simp_all add: STATUS_PORT_def DATA_PORT_def)

lemma drain_stops:
  "\<not> has_byte D n (io_log s) \<Longrightarrow> (\<And>i. i < n \<Longrightarrow> has_byte D i (io_log s)) \<Longrightarrow>
   drain D s = ret (s\<lparr>io_log := drain_log D n (io_log s) @ [In 0x64 (D 0x64 (drain_log D n (io_log s)))]\<rparr>)"
proof (induction n arbitrary: s)
  case 0
  then show ?case by (subst drain.simps) (simp add: has_byte_def inb_def ports Let_def)
next
  case (Suc n)
  let ?e = "io_log s @ [In 0x64 (D 0x64 (io_log s))]"
  let ?s = "s\<lparr>io_log := ?e @ [In 0x60 (D 0x60 ?e)]\<rparr>"
  have st: "D 0x64 (io_log s) AND 1 \<noteq> 0" using Suc.prems(2) [of 0] by (simp add: has_byte_def)
  have "has_byte D i (io_log ?s) = has_byte D (Suc i) (io_log s)" for i by (simp add: has_byte_def Let_def)
  then have "drain D ?s = ret (?s\<lparr>io_log := drain_log D n (io_log ?s) @ [In 0x64 (D 0x64 (drain_log D n (io_log ?s)))]\<rparr>)"
    using Suc.prems by (intro Suc.IH) auto
  then show ?case using st by (subst drain.simps) (simp add: inb_def ports Let_def)
qed

lemma drain_dry: "drain D s = Some r \<Longrightarrow> \<exists>n. \<not> has_byte D n (io_log s)"
proof (rule drain.raw_induct [of "\<lambda>D s r. \<exists>n. \<not> has_byte D n (io_log s)" D s r])
  fix f D and s :: "'a io_scheme" and r
  assume IH: "\<And>D s r. f D s = Some r \<Longrightarrow> \<exists>n. \<not> has_byte D n (io_log s)"
    and eq: "(let (st, s) = inb D (ucast STATUS_PORT) s in
        if st AND 1 \<noteq> 0 then (let (v, s) = inb D (ucast DATA_PORT) s in f D s) else ret s) = Some r"
  let ?e = "io_log s @ [In 0x64 (D 0x64 (io_log s))]"
  show "\<exists>n. \<not> has_byte D n (io_log s)"
  proof (cases "D 0x64 (io_log s) AND 1 = 0")
    case True
    then show ?thesis by (intro exI [of _ 0]) (simp add: has_byte_def)
  next
    case False
    then have "f D (s\<lparr>io_log := ?e @ [In 0x60 (D 0x60 ?e)]\<rparr>) = Some r"
      using eq by (simp add: inb_def ports Let_def)
    from IH [OF this] obtain n where "\<not> has_byte D n (?e @ [In 0x60 (D 0x60 ?e)])" by auto
    then show ?thesis by (intro exI [of _ "Suc n"]) (simp add: has_byte_def Let_def)
  qed
qed

lemma ps2_init_returns:
  assumes "\<exists>n. \<not> has_byte D n (io_log s)"
  shows "ps2_keyboard_init D (kb, s) =
    (let es = drain_log D (LEAST n. \<not> has_byte D n (io_log s)) (io_log s) in
     ret (kb\<lparr>last_data := 0xF4\<rparr>, s\<lparr>io_log := es @ [In 0x64 (D 0x64 es), Out 0x60 0xF4]\<rparr>))"
proof -
  have "\<not> has_byte D (LEAST n. \<not> has_byte D n (io_log s)) (io_log s)" using assms by (rule LeastI_ex)
  moreover have "i < (LEAST n. \<not> has_byte D n (io_log s)) \<Longrightarrow> has_byte D i (io_log s)" for i using not_less_Least by blast
  ultimately have "drain D s = ret (s\<lparr>io_log := drain_log D (LEAST n. \<not> has_byte D n (io_log s)) (io_log s)
      @ [In 0x64 (D 0x64 (drain_log D (LEAST n. \<not> has_byte D n (io_log s)) (io_log s)))]\<rparr>)"
    by (rule drain_stops)
  then show ?thesis by (simp add: ps2_keyboard_init_def write_data_def outb_def ports SCANNING_BYTE_def Let_def)
qed

text \<open>
  Claim C24. Starting the keyboard ends exactly when the controller runs dry: if some number of bytes empties it, the driver
  takes the least such number, one per full status, and then sends the byte that enables scanning and
  remembers it for a resend; against a controller that always reports another byte it loops for ever.
\<close>

theorem keyboard_init_terminates:
  "ps2_keyboard_init D (kb, s) =
     (if \<exists>n. \<not> has_byte D n (io_log s) then
        (let es = drain_log D (LEAST n. \<not> has_byte D n (io_log s)) (io_log s) in
         ret (kb\<lparr>last_data := 0xF4\<rparr>, s\<lparr>io_log := es @ [In 0x64 (D 0x64 es), Out 0x60 0xF4]\<rparr>))
      else diverges)"
proof (cases "\<exists>n. \<not> has_byte D n (io_log s)")
  case True
  show ?thesis unfolding if_P [OF True] by (rule ps2_init_returns [OF True])
next
  case False
  then have "drain D s = None" using drain_dry [of D s] by (cases "drain D s") auto
  then show ?thesis using False by (simp add: ps2_keyboard_init_def)
qed

end
