(* ===== verification/Interrupts.thy ===== *)
theory Interrupts
  imports Cpu_Tables Keyboard
begin

text \<open>
  Interrupts: the controllers and the dispatcher of \<^verbatim>\<open>src/src/kernel/arch/x86-64/system/irq.cpp\<close>, the exception handlers
  of \<^verbatim>\<open>exceptions.cpp\<close>, the timer and keyboard of \<^verbatim>\<open>src/src/kernel/arch/x86-64/dev\<close>, and the part of the boot sequence
  that sets them up (\<^verbatim>\<open>arch.cpp\<close> and \<^verbatim>\<open>src/src/kmain.cpp\<close>). A handler gets the saved registers as a frame and returns
  the frame that the interrupt returns to.
\<close>

section \<open>The interrupt controllers\<close>

definition MASTER_CMD :: u16 where "MASTER_CMD = 0x20"
definition MASTER_DATA :: u16 where "MASTER_DATA = 0x21"
definition SLAVE_CMD :: u16 where "SLAVE_CMD = 0xA0"
definition SLAVE_DATA :: u16 where "SLAVE_DATA = 0xA1"
definition BEGIN_INIT :: u8 where "BEGIN_INIT = 0x11"
definition ICW3_MASTER :: u8 where "ICW3_MASTER = 0x04"
definition ICW3_SLAVE :: u8 where "ICW3_SLAVE = 0x02"
definition ICW4_8086 :: u8 where "ICW4_8086 = 0x01"
definition EOI :: u8 where "EOI = 0x20"
definition IRQ_MASTER :: u8 where "IRQ_MASTER = 0x20"
definition IRQ_SLAVE :: u8 where "IRQ_SLAVE = 0x28"

lemmas pic_defs = MASTER_CMD_def MASTER_DATA_def SLAVE_CMD_def SLAVE_DATA_def BEGIN_INIT_def ICW3_MASTER_def ICW3_SLAVE_def
  ICW4_8086_def EOI_def IRQ_MASTER_def IRQ_SLAVE_def

definition pic_remap :: "'a console_scheme \<Rightarrow> 'a console_scheme exec" where
  "pic_remap s =
     (let s = outb MASTER_CMD BEGIN_INIT s;
          s = outb SLAVE_CMD BEGIN_INIT s;
          s = outb MASTER_DATA IRQ_MASTER s;
          s = outb SLAVE_DATA IRQ_SLAVE s;
          s = outb MASTER_DATA ICW3_MASTER s;
          s = outb SLAVE_DATA ICW3_SLAVE s;
          s = outb MASTER_DATA ICW4_8086 s;
          s = outb SLAVE_DATA ICW4_8086 s
      in klog (''irq: PIC remapped (master=0x20, slave=0x28)'' @ [CHR 0x0A]) [] s)"

definition pic_disable :: "'a io_scheme \<Rightarrow> 'a io_scheme" where
  "pic_disable s = outb SLAVE_CMD 0xFF (outb MASTER_CMD 0xFF s)"

definition eoi :: "u8 \<Rightarrow> 'a io_scheme \<Rightarrow> 'a io_scheme" where
  "eoi vector s =
     (let s = (if vector \<ge> 8 then outb SLAVE_CMD 0x20 s else s)
      in outb MASTER_CMD 0x20 s)"

definition irq_mask :: "device \<Rightarrow> u8 \<Rightarrow> 'a console_scheme \<Rightarrow> 'a console_scheme exec" where
  "irq_mask D irq_line s =
     ebind (klog (''Masking Irq: %u'' @ [CHR 0x0A]) [IntArg (ucast irq_line)] s) (\<lambda>s.
     (let (port, irq_line) = (if irq_line < 8 then (MASTER_DATA, irq_line) else (SLAVE_DATA, irq_line - 8));
          (v, s) = inb D port s;
          val = v OR ucast (push_bit (unat irq_line) (1 :: u32))
      in ret (outb port val s)))"

definition irq_unmask :: "device \<Rightarrow> u8 \<Rightarrow> 'a io_scheme \<Rightarrow> 'a io_scheme" where
  "irq_unmask D irq_line s =
     (let (port, irq_line) = (if irq_line < 8 then (MASTER_DATA, irq_line) else (SLAVE_DATA, irq_line - 8));
          (v, s) = inb D port s;
          val = v AND ucast (NOT (push_bit (unat irq_line) (1 :: u32)))
      in outb port val s)"

section \<open>Devices\<close>

record devices = tables +
  g_keyboard :: Ps2Keyboard

definition isr_timer :: "IrqFrame \<Rightarrow> 'a devices_scheme \<Rightarrow> (IrqFrame \<times> 'a devices_scheme) exec" where
  "isr_timer frame s =
     (let s = increase_tick s;
          s = increase_time s
      in ebind (pit_irq_handler frame s) (\<lambda>(frame, s). ret (frame, eoi 0 s)))"

definition timer_init :: "device \<Rightarrow> 'a devices_scheme \<Rightarrow> 'a devices_scheme exec" where
  "timer_init D s =
     ebind (klog (''%s%s[init] timer: initializing PIT%s'' @ [CHR 0x0A]) [StrArg (Some BOLD), StrArg (Some RED), StrArg (Some RESET)] s) (\<lambda>s.
     ebind (init_pit CHANNEL0_CMD ACCESSLH MODE3 s) (\<lambda>s.
     (let s = reset_tick s;
          s = irq_unmask D 0 s
      in klog (''timer: IRQ0 unmasked'' @ [CHR 0x0A]) [] s)))"

text \<open>
  Waiting in \<open>hlt\<close> for interrupts: what happens until the processor goes on is the parameter.
\<close>

partial_function (option) sleep_until :: "('a pit_scheme \<Rightarrow> 'a pit_scheme) \<Rightarrow> u64 \<Rightarrow> 'a pit_scheme \<Rightarrow> 'a pit_scheme exec" where
  "sleep_until hlt target s = (if get_time_milliseconds s < target then sleep_until hlt target (hlt s) else ret s)"

definition timer_sleep :: "('a pit_scheme \<Rightarrow> 'a pit_scheme) \<Rightarrow> u64 \<Rightarrow> 'a pit_scheme \<Rightarrow> 'a pit_scheme exec" where
  "timer_sleep hlt milli s = (let target = get_time_milliseconds s + milli in sleep_until hlt target s)"

definition isr_keyboard :: "device \<Rightarrow> IrqFrame \<Rightarrow> 'a devices_scheme \<Rightarrow> (IrqFrame \<times> 'a devices_scheme) exec" where
  "isr_keyboard D frame s =
     (let (byte, s) = read_data D s in
      ebind (on_recieve byte (g_keyboard s, s)) (\<lambda>(kb, s).
      ret (frame, eoi 1 (s\<lparr>g_keyboard := kb\<rparr>))))"

definition keyboard_init :: "device \<Rightarrow> 'a devices_scheme \<Rightarrow> 'a devices_scheme exec" where
  "keyboard_init D s =
     ebind (klog (''%s%s[init] Keyboard %s'' @ [CHR 0x0A]) [StrArg (Some BOLD), StrArg (Some RED), StrArg (Some RESET)] s) (\<lambda>s.
     ebind (ps2_keyboard_init D (g_keyboard s, s)) (\<lambda>(kb, s).
     (let s = irq_unmask D 1 (s\<lparr>g_keyboard := kb\<rparr>)
      in klog (''keyboard: IRQ1 unmasked'' @ [CHR 0x0A]) [] s)))"

definition keyboard_reset :: "'a io_scheme \<Rightarrow> 'a io_scheme" where
  "keyboard_reset s = write_cmd CPU_RESET s"

section \<open>Exceptions\<close>

definition halt_on_exception :: "char list \<Rightarrow> IrqFrame \<Rightarrow> 'a console_scheme \<Rightarrow> 'b exec" where
  "halt_on_exception name frame s =
     ebind (klog (''%s%s[#EXCEPTION] %s%s'' @ [CHR 0x0A])
       [StrArg (Some BOLD), StrArg (Some RED), StrArg (Some name), StrArg (Some RESET)] s) (\<lambda>s.
     ebind (klog (''%s  rip=%llx  cs=%llx  rflags=%llx%s'' @ [CHR 0x0A])
       [StrArg (Some RED), LongArg (rip frame), LongArg (cs frame), LongArg (frame_rflags frame), StrArg (Some RESET)] s) (\<lambda>s.
     ebind (klog (''%s  rsp=%llx  ss=%llx  error=%llx%s'' @ [CHR 0x0A])
       [StrArg (Some RED), LongArg (rsp frame), LongArg (ss frame), LongArg (frame_error frame), StrArg (Some RESET)] s) (\<lambda>s.
     ebind (klog (''%s  rax=%llx  rbx=%llx  rcx=%llx  rdx=%llx%s'' @ [CHR 0x0A])
       [StrArg (Some RED), LongArg (rax frame), LongArg (rbx frame), LongArg (rcx frame), LongArg (rdx frame), StrArg (Some RESET)] s) (\<lambda>s.
     ebind (klog (''%s  rsi=%llx  rdi=%llx  rbp=%llx%s'' @ [CHR 0x0A])
       [StrArg (Some RED), LongArg (rsi frame), LongArg (rdi frame), LongArg (rbp frame), StrArg (Some RESET)] s) (\<lambda>s.
     ebind (klog (''%s  r8=%llx   r9=%llx   r10=%llx  r11=%llx%s'' @ [CHR 0x0A])
       [StrArg (Some RED), LongArg (r8 frame), LongArg (r9 frame), LongArg (r10 frame), LongArg (r11 frame), StrArg (Some RESET)] s) (\<lambda>s.
     ebind (klog (''%s  r12=%llx  r13=%llx  r14=%llx  r15=%llx%s'' @ [CHR 0x0A])
       [StrArg (Some RED), LongArg (r12 frame), LongArg (r13 frame), LongArg (r14 frame), LongArg (r15 frame), StrArg (Some RESET)] s) (\<lambda>s.
     halt (Halted ''cli; hlt''))))))))"

definition x86_gp_fault_handler :: "IrqFrame \<Rightarrow> 'a devices_scheme \<Rightarrow> (IrqFrame \<times> 'a devices_scheme) exec" where
  "x86_gp_fault_handler frame s =
     (let (thread, s) = get_current_thread s in
      if thread = null then halt NullDeref
      else if is_user (process_at s (m_process (thread_at s thread))) \<and> (cs frame AND 3) = 3 then
        ebind (klog ''killing user process'' [] s) (\<lambda>s.
        ebind (process_exit (m_process (thread_at s thread)) (- 1) s) (\<lambda>s.
        ebind (schedule s) (\<lambda>s. ret (frame, s))))
      else halt (Halted ''cli; hlt''))"

definition x86_pagefault_handler :: "IrqFrame \<Rightarrow> 'a devices_scheme \<Rightarrow> (IrqFrame \<times> 'a devices_scheme) exec" where
  "x86_pagefault_handler frame s = halt_on_exception ''Page Fault (#PF)'' frame s"

fun call_handler :: "IrqHandler \<Rightarrow> IrqFrame \<Rightarrow> 'a devices_scheme \<Rightarrow> (IrqFrame \<times> 'a devices_scheme) exec" where
  "call_handler (halting_handler name) frame s = halt_on_exception name frame s"
| "call_handler gp_fault frame s = x86_gp_fault_handler frame s"
| "call_handler pagefault frame s = x86_pagefault_handler frame s"

section \<open>Dispatch\<close>

definition hardware_interrupt_dispatch ::
  "device \<Rightarrow> u8 \<Rightarrow> IrqFrame \<Rightarrow> 'a devices_scheme \<Rightarrow> (IrqFrame \<times> 'a devices_scheme) exec" where
  "hardware_interrupt_dispatch D irq_line frame s =
     (if irq_line = 0 then isr_timer frame s
      else if irq_line = 1 then isr_keyboard D frame s
      else ret (frame, s))"

definition arch_interrupt_handler ::
  "device \<Rightarrow> IrqFrame \<Rightarrow> u32 \<Rightarrow> 'a devices_scheme \<Rightarrow> (IrqFrame \<times> 'a devices_scheme) exec" where
  "arch_interrupt_handler D frame vector s =
     (if vector < 32 then
        (case irq_handlers s ! unat vector of
           Some h \<Rightarrow> call_handler h frame s
         | None \<Rightarrow>
             ebind (klog (''unhandled CPU exception %u'' @ [CHR 0x0A]) [IntArg vector] s) (\<lambda>s.
             halt (Halted ''cli; hlt'')))
      else if vector < 48 then hardware_interrupt_dispatch D (ucast (vector - 32)) frame s
      else ret (frame, s))"

section \<open>Setting up\<close>

definition exception_load :: "device \<Rightarrow> layout \<Rightarrow> 'a tables_scheme \<Rightarrow> 'a tables_scheme exec" where
  "exception_load D la s =
     (let s = disable_lapic s in
      ebind (pic_remap s) (\<lambda>s.
      ebind (for_each (\<lambda>i. irq_mask D (of_nat i)) [0..<16] s) (\<lambda>s.
      ebind (klog (''Loading Interrupts/Idt'' @ [CHR 0x0A]) [] s) (\<lambda>s.
      ebind (idt_init la s) (\<lambda>s.
      idtr_asm_load la s)))))"

text \<open>From the first message of \<open>kmain\<close> to the system call registers.\<close>

definition kmain_setup :: "device \<Rightarrow> layout \<Rightarrow> 'a devices_scheme \<Rightarrow> 'a devices_scheme exec" where
  "kmain_setup D la s =
     ebind (klog (''Started Kernel'' @ [CHR 0x0A]) [] s) (\<lambda>s.
     ebind (inital_init la s) (\<lambda>(first_init, s).
     ebind (if first_init then exception_load D la s else ret s) (\<lambda>s.
     ebind (timer_init D s) (\<lambda>s.
     ebind (keyboard_init D s) (\<lambda>s.
     init_syscall la (init_cpu s))))))"

section \<open>The interrupt controller as a device\<close>

text \<open>
  The documented behaviour of an 8259 controller, as far as the kernel uses it: a command with bit 4 set starts the
  initialisation and clears the mask, the next three bytes on the data port are the vector base, the wiring and
  the mode, and every later byte there is the mask, which the data port reads back.
\<close>

record pic =
  awaiting :: nat
  imr :: u8
  vec_base :: u8

fun pic_step :: "u16 \<Rightarrow> u16 \<Rightarrow> pic \<Rightarrow> io_event \<Rightarrow> pic" where
  "pic_step cmd dat pc (Out p v) =
     (if p = cmd then (if bit v 4 then pc\<lparr>awaiting := 3, imr := 0\<rparr> else pc)
      else if p = dat then
        (if awaiting pc = 0 then pc\<lparr>imr := v\<rparr>
         else if awaiting pc = 3 then pc\<lparr>awaiting := 2, vec_base := v\<rparr>
         else pc\<lparr>awaiting := awaiting pc - 1\<rparr>)
      else pc)"
| "pic_step cmd dat pc (In p v) = pc"

definition pic_after :: "u16 \<Rightarrow> u16 \<Rightarrow> pic \<Rightarrow> io_event list \<Rightarrow> pic" where
  "pic_after cmd dat pc es = foldl (pic_step cmd dat) pc es"

lemma pic_after_append [simp]:
  "pic_after cmd dat pc (es @ [e]) = pic_step cmd dat (pic_after cmd dat pc es) e"
  "pic_after cmd dat pc [] = pc"
  "pic_after cmd dat pc (es @ e # es') = pic_after cmd dat (pic_step cmd dat (pic_after cmd dat pc es) e) es'"
  "pic_after cmd dat pc (e # es) = pic_after cmd dat (pic_step cmd dat pc e) es"
  by (simp_all add: pic_after_def)

text \<open>Both controllers, initialised, with their masks.\<close>

definition pics :: "pic \<Rightarrow> pic \<Rightarrow> u8 \<Rightarrow> u8 \<Rightarrow> io_event list \<Rightarrow> bool" where
  "pics pm ps m n es \<longleftrightarrow> pic_after 0x20 0x21 pm es = \<lparr>awaiting = 0, imr = m, vec_base = 0x20\<rparr>
     \<and> pic_after 0xA0 0xA1 ps es = \<lparr>awaiting = 0, imr = n, vec_base = 0x28\<rparr>"

definition pic_device :: "pic \<Rightarrow> pic \<Rightarrow> device \<Rightarrow> bool" where
  "pic_device pm ps D \<longleftrightarrow> (\<forall>es. D 0x21 es = imr (pic_after 0x20 0x21 pm es) \<and> D 0xA1 es = imr (pic_after 0xA0 0xA1 ps es))"

lemma pics_other:
  "p \<notin> {0x20, 0x21, 0xA0, 0xA1} \<Longrightarrow> pics pm ps m n (es @ [Out p v]) = pics pm ps m n es"
  "pics pm ps m n (es @ [In p v]) = pics pm ps m n es"
  by (simp_all add: pics_def)

lemma pics_mask:
  "pics pm ps m n es \<Longrightarrow> pics pm ps v n (es @ [In 0x21 w, Out 0x21 v])" "pics pm ps m n es \<Longrightarrow> pics pm ps m v (es @ [In 0xA1 w, Out 0xA1 v])"
  by (simp_all add: pics_def)

lemma pic_remap_run:
  assumes "g_tty s = Some tty"
  shows "\<exists>out es. pic_remap s = ret (s\<lparr>io_log := es, flanterm_out := out\<rparr>) \<and> pics pm ps 0 0 es"
proof -
  let ?es = "io_log s @ [Out 0x20 0x11, Out 0xA0 0x11, Out 0x21 0x20, Out 0xA1 0x28, Out 0x21 4, Out 0xA1 2, Out 0x21 1, Out 0xA1 1]"
  have "\<exists>out. klog (''irq: PIC remapped (master=0x20, slave=0x28)'' @ [CHR 0x0A]) [] (s\<lparr>io_log := ?es\<rparr>) = ret (s\<lparr>io_log := ?es, flanterm_out := out\<rparr>)"
    using klog_plain [of "s\<lparr>io_log := ?es\<rparr>" tty "''irq: PIC remapped (master=0x20, slave=0x28)'' @ [CHR 0x0A]"] assms by simp
  then obtain out where "klog (''irq: PIC remapped (master=0x20, slave=0x28)'' @ [CHR 0x0A]) [] (s\<lparr>io_log := ?es\<rparr>) = ret (s\<lparr>io_log := ?es, flanterm_out := out\<rparr>)"
    by blast
  then have "pic_remap s = ret (s\<lparr>io_log := ?es, flanterm_out := out\<rparr>)"
    by (simp add: pic_remap_def Let_def outb_def pic_defs)
  moreover have "pics pm ps 0 0 ?es" by (simp add: pics_def bit_numeral_rec)
  ultimately show ?thesis by blast
qed

lemma line_bit:
  assumes "i < 16"
  shows "(ucast (push_bit (unat (if of_nat i < (8 :: u8) then of_nat i else of_nat i - 8 :: u8)) (1 :: u32)) :: u8) = push_bit (i mod 8) 1"
proof -
  have "i \<in> {0, 1, 2, 3, 4, 5, 6, 7, 8, 9, 10, 11, 12, 13, 14, 15}" using assms unfolding insert_iff empty_iff by presburger
  then show ?thesis by (elim insertE emptyE) (simp_all add: push_bit_eq_mult)
qed

lemma irq_mask_run:
  assumes "g_tty s = Some tty" and "i < 16"
  shows "\<exists>out. irq_mask D (of_nat i) s = ret (s\<lparr>flanterm_out := out, io_log := io_log s @
    (let p = if i < 8 then 0x21 else 0xA1 in [In p (D p (io_log s)), Out p (D p (io_log s) OR push_bit (i mod 8) 1)])\<rparr>)"
proof -
  have "\<exists>out. klog (''Masking Irq: %u'' @ [CHR 0x0A]) [IntArg (ucast (of_nat i :: u8))] s = ret (s\<lparr>flanterm_out := out\<rparr>)"
    using print_dec_short [of "ucast (of_nat i :: u8)"] by - (rule klog_returns [OF assms(1)], simp, simp)
  then obtain out where out: "klog (''Masking Irq: %u'' @ [CHR 0x0A]) [IntArg (ucast (of_nat i :: u8))] s = ret (s\<lparr>flanterm_out := out\<rparr>)"
    by blast
  have "(of_nat i < (8 :: u8)) = (i < 8)" using assms(2) by (simp add: word_less_nat_alt unat_of_nat_small)
  then show ?thesis
    using line_bit [OF assms(2)]
    unfolding irq_mask_def out ebind_simps
    by (cases "i < 8") (auto simp: Let_def inb_def outb_def pic_defs intro!: exI [of _ out])
qed

lemma mask_loop:
  assumes "g_tty s = Some tty" and "pic_device pm ps D" and "pics pm ps 0 0 (io_log s)"
  shows "n \<le> 16 \<Longrightarrow> \<exists>out es. for_each (\<lambda>i. irq_mask D (of_nat i)) [0..<n] s = ret (s\<lparr>flanterm_out := out, io_log := es\<rparr>)
    \<and> pics pm ps (mask (min n 8)) (mask (n - 8)) es"
proof (induction n)
  case 0
  show ?case using assms(3) by (auto intro!: exI [of _ "flanterm_out s"] exI [of _ "io_log s"])
next
  case (Suc n)
  then obtain out es where run: "for_each (\<lambda>i. irq_mask D (of_nat i)) [0..<n] s = ret (s\<lparr>flanterm_out := out, io_log := es\<rparr>)"
    and p: "pics pm ps (mask (min n 8)) (mask (n - 8)) es" by auto
  have d: "D 0x21 es = mask (min n 8)" "D 0xA1 es = mask (n - 8)" using assms(2) p by (auto simp: pic_device_def pics_def)
  have g: "g_tty (s\<lparr>flanterm_out := out, io_log := es\<rparr>) = Some tty" using assms(1) by simp
  define es' where "es' = es @ (let p = if n < 8 then 0x21 else 0xA1 in [In p (D p es), Out p (D p es OR push_bit (n mod 8) 1)])"
  obtain o2 where step: "irq_mask D (of_nat n) (s\<lparr>flanterm_out := out, io_log := es\<rparr>) = ret (s\<lparr>flanterm_out := o2, io_log := es'\<rparr>)"
    using irq_mask_run [OF g, of n D] Suc.prems by (auto simp: es'_def)
  have "pics pm ps (mask (min (Suc n) 8)) (mask (Suc n - 8)) es'"
  proof (cases "n < 8")
    case True
    then show ?thesis using pics_mask(1) [OF p] d by (simp add: es'_def mask_Suc_exp or.commute)
  next
    case False
    then have "Suc n - 8 = Suc (n - 8)" "n mod 8 = n - 8" using Suc.prems by (simp_all add: mod_if)
    then have "mask (Suc n - 8) = mask (n - 8) OR (push_bit (n mod 8) 1 :: u8)" by (simp add: mask_Suc_exp or.commute)
    then show ?thesis using pics_mask(2) [OF p] d False by (simp add: es'_def)
  qed
  then show ?case by (intro exI [of _ o2] exI [of _ es']) (simp add: for_each_append run step)
qed

lemma exception_load_run:
  assumes "g_tty s = Some tty" and "pic_device pm ps D" and "length (idt_table s) = 256" and "length (irq_handlers s) = 256"
  shows "\<exists>out es m. exception_load D la s = ret (s\<lparr>msr := m, io_log := es, idt_table := idt_of la (idt_table s),
      irq_handlers := handlers_of (irq_handlers s), idtr_reg := \<lparr>idtr_limit = 0xFFF, idtr_base = addr_idt_table la\<rparr>,
      rflags := sti (cli (rflags s)), flanterm_out := out\<rparr>)
    \<and> pics pm ps 0xFF 0xFF es \<and> m = (msr s)(IA32_APIC_BASE := msr s IA32_APIC_BASE AND NOT APIC_GLOBAL_ENABLE)"
proof -
  define m where "m = (msr s)(IA32_APIC_BASE := msr s IA32_APIC_BASE AND NOT APIC_GLOBAL_ENABLE)"
  obtain o1 e1 where 1: "pic_remap (s\<lparr>msr := m\<rparr>) = ret (s\<lparr>msr := m, io_log := e1, flanterm_out := o1\<rparr>)" "pics pm ps 0 0 e1"
    using pic_remap_run [of "s\<lparr>msr := m\<rparr>" tty pm ps] assms(1) by auto
  obtain o2 e2 where 2: "for_each (\<lambda>i. irq_mask D (of_nat i)) [0..<16] (s\<lparr>msr := m, io_log := e1, flanterm_out := o1\<rparr>)
      = ret (s\<lparr>msr := m, io_log := e1, flanterm_out := o1\<rparr>\<lparr>flanterm_out := o2, io_log := e2\<rparr>)" "pics pm ps 0xFF 0xFF e2"
    using mask_loop [of "s\<lparr>msr := m, io_log := e1, flanterm_out := o1\<rparr>" tty pm ps D 16] assms(1,2) 1(2)
    by (auto simp: mask_eq_exp_minus_1 simp del: upt_rec_numeral)
  let ?s2 = "s\<lparr>msr := m, io_log := e1, flanterm_out := o1\<rparr>\<lparr>flanterm_out := o2, io_log := e2\<rparr>"
  obtain o3 where 3: "klog (''Loading Interrupts/Idt'' @ [CHR 0x0A]) [] ?s2 = ret (?s2\<lparr>flanterm_out := o3\<rparr>)"
    using klog_plain [of ?s2 tty "''Loading Interrupts/Idt'' @ [CHR 0x0A]"] assms(1) by auto
  obtain o4 where 4: "idt_init la (?s2\<lparr>flanterm_out := o3\<rparr>) = ret (?s2\<lparr>flanterm_out := o3\<rparr>\<lparr>idt_table := idt_of la (idt_table s),
      irq_handlers := handlers_of (irq_handlers s), flanterm_out := o4\<rparr>)"
    using idt_init_run [of "?s2\<lparr>flanterm_out := o3\<rparr>" tty la] assms by auto
  let ?s4 = "?s2\<lparr>flanterm_out := o3\<rparr>\<lparr>idt_table := idt_of la (idt_table s), irq_handlers := handlers_of (irq_handlers s), flanterm_out := o4\<rparr>"
  obtain o5 where 5: "idtr_asm_load la ?s4 = ret (?s4\<lparr>idtr_reg := \<lparr>idtr_limit = 0xFFF, idtr_base = addr_idt_table la\<rparr>,
      rflags := sti (cli (rflags ?s4)), flanterm_out := o5\<rparr>)"
    using idtr_asm_load_run [of ?s4 tty la] assms(1) by auto
  have "exception_load D la s = ret (?s4\<lparr>idtr_reg := \<lparr>idtr_limit = 0xFFF, idtr_base = addr_idt_table la\<rparr>,
      rflags := sti (cli (rflags ?s4)), flanterm_out := o5\<rparr>)"
    unfolding exception_load_def disable_lapic_def Let_def read_msr_eq write_msr_eq m_def [symmetric] 1(1) ebind_simps 2(1) 3 4 5 ..
  then show ?thesis
    using 2(2) m_def by (intro exI [of _ o5] exI [of _ e2] exI [of _ m]) simp
qed

lemma device_messages:
  assumes "g_tty s = Some tty"
  shows "\<exists>out. klog (''%s%s[init] timer: initializing PIT%s'' @ [CHR 0x0A]) [StrArg (Some BOLD), StrArg (Some RED), StrArg (Some RESET)] s
      = ret (s\<lparr>flanterm_out := out\<rparr>)"
    "\<exists>out. klog (''%s%s[init] Keyboard %s'' @ [CHR 0x0A]) [StrArg (Some BOLD), StrArg (Some RED), StrArg (Some RESET)] s
      = ret (s\<lparr>flanterm_out := out\<rparr>)"
  by (rule klog_returns [OF assms], simp, simp add: BOLD_def RED_def RESET_def)+

lemma mask_numerals: "(4294967294 :: u8) = - 2" "(4294967293 :: u8) = - 3"
  by simp_all

lemma timer_init_run:
  assumes "g_tty s = Some tty" and "pic_device pm ps D" and "pics pm ps m n (io_log s)"
  shows "\<exists>out es. timer_init D s = ret (s\<lparr>tick := 0, pit_clocks := 0, io_log := es, flanterm_out := out\<rparr>) \<and> pics pm ps (m AND NOT 1) n es"
proof -
  obtain o1 where 1: "klog (''%s%s[init] timer: initializing PIT%s'' @ [CHR 0x0A]) [StrArg (Some BOLD), StrArg (Some RED), StrArg (Some RESET)] s
      = ret (s\<lparr>flanterm_out := o1\<rparr>)" using device_messages(1) [OF assms(1)] by blast
  define e1 where "e1 = io_log s @ [Out 0x43 0x36, Out 0x40 0xA9, Out 0x40 0x04]"
  have p1: "pics pm ps m n e1" using assms(3) by (simp add: e1_def pics_def)
  define e2 where "e2 = e1 @ [In 0x21 m, Out 0x21 (m AND NOT 1)]"
  have d: "D 0x21 e1 = m" using assms(2) p1 by (simp add: pic_device_def pics_def)
  have 2: "irq_unmask D 0 (reset_tick (s\<lparr>flanterm_out := o1, io_log := e1\<rparr>)) = s\<lparr>flanterm_out := o1, tick := 0, pit_clocks := 0, io_log := e2\<rparr>"
    using d by (simp add: irq_unmask_def reset_tick_def inb_def outb_def pic_defs Let_def e2_def mask_numerals)
  obtain o3 where 3: "klog (''timer: IRQ0 unmasked'' @ [CHR 0x0A]) [] (s\<lparr>flanterm_out := o1, tick := 0, pit_clocks := 0, io_log := e2\<rparr>)
      = ret (s\<lparr>flanterm_out := o1, tick := 0, pit_clocks := 0, io_log := e2\<rparr>\<lparr>flanterm_out := o3\<rparr>)"
    using klog_plain [of "s\<lparr>flanterm_out := o1, tick := 0, pit_clocks := 0, io_log := e2\<rparr>" tty "''timer: IRQ0 unmasked'' @ [CHR 0x0A]"] assms(1)
    by auto
  have i: "io_log (s\<lparr>flanterm_out := o1\<rparr>) @ [Out 0x43 0x36, Out 0x40 0xA9, Out 0x40 0x04] = e1" by (simp add: e1_def)
  have "timer_init D s = ret (s\<lparr>flanterm_out := o1, tick := 0, pit_clocks := 0, io_log := e2\<rparr>\<lparr>flanterm_out := o3\<rparr>)"
    unfolding timer_init_def 1 ebind_simps init_pit_run i Let_def 2 3 ..
  moreover have "pics pm ps (m AND NOT 1) n e2" unfolding e2_def by (rule pics_mask(1) [OF p1])
  ultimately show ?thesis by (intro exI [of _ o3] exI [of _ e2]) simp
qed

lemma pics_drain: "pics pm ps m n (drain_log D k es) = pics pm ps m n es"
  by (induction k arbitrary: es) (simp_all add: Let_def pics_def)

lemma keyboard_init_run:
  assumes "g_tty s = Some tty" and "pic_device pm ps D" and "pics pm ps m n (io_log s)" and "\<exists>k. \<not> has_byte D k (io_log s)"
  shows "\<exists>out es kb. keyboard_init D s = ret (s\<lparr>g_keyboard := kb, io_log := es, flanterm_out := out\<rparr>) \<and> pics pm ps (m AND NOT 2) n es
    \<and> kb = (g_keyboard s)\<lparr>last_data := 0xF4\<rparr>"
proof -
  obtain o1 where 1: "klog (''%s%s[init] Keyboard %s'' @ [CHR 0x0A]) [StrArg (Some BOLD), StrArg (Some RED), StrArg (Some RESET)] s
      = ret (s\<lparr>flanterm_out := o1\<rparr>)" using device_messages(2) [OF assms(1)] by blast
  define kb where "kb = (g_keyboard s)\<lparr>last_data := 0xF4\<rparr>"
  define e0 where "e0 = drain_log D (LEAST k. \<not> has_byte D k (io_log s)) (io_log s)"
  define e1 where "e1 = e0 @ [In 0x64 (D 0x64 e0), Out 0x60 0xF4]"
  have p1: "pics pm ps m n e1" using assms(3) pics_drain [of pm ps m n D] by (simp add: e1_def e0_def pics_def)
  define e2 where "e2 = e1 @ [In 0x21 m, Out 0x21 (m AND NOT 2)]"
  have d: "D 0x21 e1 = m" using assms(2) p1 by (simp add: pic_device_def pics_def)
  have init: "ps2_keyboard_init D (g_keyboard (s\<lparr>flanterm_out := o1\<rparr>), s\<lparr>flanterm_out := o1\<rparr>) = ret (kb, s\<lparr>flanterm_out := o1, io_log := e1\<rparr>)"
    using ps2_init_returns [of D "s\<lparr>flanterm_out := o1\<rparr>" "g_keyboard s"] assms(4) by (simp add: e1_def e0_def kb_def Let_def)
  have 2: "irq_unmask D 1 (s\<lparr>flanterm_out := o1, io_log := e1, g_keyboard := kb\<rparr>) = s\<lparr>flanterm_out := o1, g_keyboard := kb, io_log := e2\<rparr>"
    using d by (simp add: irq_unmask_def inb_def outb_def pic_defs Let_def e2_def push_bit_eq_mult mask_numerals)
  obtain o3 where 3: "klog (''keyboard: IRQ1 unmasked'' @ [CHR 0x0A]) [] (s\<lparr>flanterm_out := o1, g_keyboard := kb, io_log := e2\<rparr>)
      = ret (s\<lparr>flanterm_out := o1, g_keyboard := kb, io_log := e2\<rparr>\<lparr>flanterm_out := o3\<rparr>)"
    using klog_plain [of "s\<lparr>flanterm_out := o1, g_keyboard := kb, io_log := e2\<rparr>" tty "''keyboard: IRQ1 unmasked'' @ [CHR 0x0A]"] assms(1)
    by auto
  have "keyboard_init D s = ret (s\<lparr>flanterm_out := o1, g_keyboard := kb, io_log := e2\<rparr>\<lparr>flanterm_out := o3\<rparr>)"
    unfolding keyboard_init_def 1 ebind_simps init case_prod_conv Let_def 2 3 ..
  moreover have "pics pm ps (m AND NOT 2) n e2" unfolding e2_def by (rule pics_mask(1) [OF p1])
  ultimately show ?thesis using kb_def by (intro exI [of _ o3] exI [of _ e2] exI [of _ kb]) simp
qed

section \<open>Waiting for the clock\<close>

text \<open>When every wake-up is a tick, a sleep of \<open>k\<close> milliseconds returns after \<open>k\<close> ticks.\<close>

lemma milliseconds_tick: "unat (tick s) < 2 ^ 54 \<Longrightarrow> get_time_milliseconds s = tick s"
  by (simp add: get_time_milliseconds_def FREQUENCY_def word_unat_eq_iff unat_div unat_word_ariths)

lemma sleep_until_returns:
  assumes "\<And>s. tick (hlt s) = tick s + 1"
  shows "unat (tick s) + k < 2 ^ 54 \<Longrightarrow> \<exists>s'. sleep_until hlt (tick s + of_nat k) s = ret s' \<and> tick s' = tick s + of_nat k"
proof (induction k arbitrary: s)
  case 0
  then show ?case by (simp add: sleep_until.simps milliseconds_tick)
next
  case (Suc k)
  have n: "unat (of_nat (Suc k) :: u64) = Suc k" using Suc.prems by (intro unat_of_nat_small) simp
  have sum: "unat (tick s + of_nat (Suc k)) = unat (tick s) + Suc k" using unat_add_nowrap [of "tick s" "of_nat (Suc k)"] Suc.prems n by simp
  have "tick s < tick s + of_nat (Suc k)" unfolding word_less_nat_alt sum by simp
  then have "sleep_until hlt (tick s + of_nat (Suc k)) s = sleep_until hlt (tick (hlt s) + of_nat k) (hlt s)"
    using Suc.prems by (subst sleep_until.simps) (simp add: milliseconds_tick assms add.assoc)
  moreover have "unat (tick (hlt s)) + k < 2 ^ 54"
    using Suc.prems assms unat_add_nowrap [of "tick s" 1] by simp
  ultimately show ?case using Suc.IH [of "hlt s"] by (auto simp: assms add.assoc)
qed

lemma timer_sleep_returns:
  assumes "\<And>s. tick (hlt s) = tick s + 1" and "unat (tick s) + k < 2 ^ 54"
  shows "\<exists>s'. timer_sleep hlt (of_nat k) s = ret s' \<and> tick s' = tick s + of_nat k"
  using sleep_until_returns [OF assms(1), of s k] assms(2) by (simp add: timer_sleep_def milliseconds_tick)

section \<open>Properties\<close>

text \<open>
  What the set-up has to establish. A gate leads to its stub, in the kernel code segment and with the privilege of the kernel;
  exceptions have trap gates and interrupts have gates that mask interrupts.
\<close>

definition gates_ok :: "layout \<Rightarrow> IdtEntry list \<Rightarrow> bool" where
  "gates_ok la es \<longleftrightarrow> length es = 256 \<and> (\<forall>v < 256. gate_address (es ! v) = irq_stubs la ! v \<and> selector (es ! v) = ucast KERNEL_CODE
     \<and> gate_present (es ! v) \<and> gate_dpl (es ! v) = 0 \<and> gate_ist (es ! v) = 0 \<and> gate_type (es ! v) = (if v < 32 then 0xF else 0xE))"

text \<open>The descriptor that a selector picks, and its kind at a privilege level.\<close>

definition segment :: "u64 list \<Rightarrow> u64 \<Rightarrow> u64" where
  "segment g sel = g ! unat (sel div 8)"

definition code_at :: "u64 \<Rightarrow> u64 \<Rightarrow> bool" where
  "code_at ring d \<longleftrightarrow> desc_present d \<and> desc_code64 d \<and> desc_dpl d = ring"

definition data_at :: "u64 \<Rightarrow> u64 \<Rightarrow> bool" where
  "data_at ring d \<longleftrightarrow> desc_present d \<and> desc_data d \<and> desc_dpl d = ring"

text \<open>The selectors that \<open>syscall\<close> and \<open>sysretq\<close> load, computed by the processor from one register.\<close>

definition syscall_cs :: "(u32 \<Rightarrow> u64) \<Rightarrow> u64" where "syscall_cs m = drop_bit 32 (m MSRSTAR) AND 0xFFFC"
definition syscall_ss :: "(u32 \<Rightarrow> u64) \<Rightarrow> u64" where "syscall_ss m = (drop_bit 32 (m MSRSTAR) AND 0xFFFF) + 8"
definition sysret_cs :: "(u32 \<Rightarrow> u64) \<Rightarrow> u64" where "sysret_cs m = (drop_bit 48 (m MSRSTAR) + 16) OR 3"
definition sysret_ss :: "(u32 \<Rightarrow> u64) \<Rightarrow> u64" where "sysret_ss m = (drop_bit 48 (m MSRSTAR) + 8) OR 3"

lemmas selector_defs = syscall_cs_def syscall_ss_def sysret_cs_def sysret_ss_def segment_def code_at_def data_at_def
  desc_present_def desc_code64_def desc_data_def desc_dpl_def

definition segments_ok :: "layout \<Rightarrow> u64 list \<Rightarrow> (u32 \<Rightarrow> u64) \<Rightarrow> bool" where
  "segments_ok la g m \<longleftrightarrow> code_at 0 (segment g (ucast KERNEL_CODE)) \<and> data_at 0 (segment g (ucast KERNEL_DATA))
     \<and> code_at 3 (segment g (ucast USER_CODE)) \<and> data_at 3 (segment g (ucast USER_DATA))
     \<and> syscall_cs m = ucast KERNEL_CODE \<and> syscall_ss m = ucast KERNEL_DATA
     \<and> sysret_cs m = ucast USER_CODE OR 3 \<and> sysret_ss m = ucast USER_DATA OR 3
     \<and> tss_base (segment g 0x28) (segment g 0x30) = addr_tss la"

lemma gates_ok_idt_of: "gates_ok la (idt_of la es)"
  by (auto simp: gates_ok_def idt_of_def gate_of_fields KERNEL_CODE_def simp del: upt_rec_numeral)

lemma segments_ok_gdt_of: "m MSRSTAR = 0x0010000800000000 \<Longrightarrow> segments_ok la (gdt_of la) m"
  by (simp add: segments_ok_def selector_defs gdt_of_def tss_descriptor_fields KERNEL_CODE_def KERNEL_DATA_def USER_CODE_def USER_DATA_def
      drop_bit_eq_div bit_iff_odd_drop_bit)

lemma devices_set_up:
  fixes s :: "'a devices_scheme"
  assumes "g_tty s = Some tty" and "length (gdt_entries s) = 7" and "length (idt_table s) = 256" and "length (irq_handlers s) = 256"
    and "length (global_syscall s) = 512" and "pic_device pm ps D" and "\<forall>es. \<exists>k. \<not> has_byte D k es"
  shows "\<exists>s'. kmain_setup D la s = init_syscall la (init_cpu s') \<and> g_tty s' = Some tty \<and> gdt_entries s' = gdt_of la
    \<and> seg_cs (segs s') = 8 \<and> seg_ss (segs s') = 0x10 \<and> idt_table s' = idt_of la (idt_table s)
    \<and> irq_handlers s' = handlers_of (irq_handlers s) \<and> global_syscall s' = global_syscall s \<and> tss_rsp0 s' = tss_rsp0 s
    \<and> interrupts_on (rflags s') \<and> pics pm ps 0xFC 0xFF (io_log s')"
proof -
  obtain o1 where 1: "klog (''Started Kernel'' @ [CHR 0x0A]) [] s = ret (s\<lparr>flanterm_out := o1\<rparr>)"
    using klog_plain [OF assms(1), of "''Started Kernel'' @ [CHR 0x0A]"] by auto
  obtain s2 where 2: "inital_init la (s\<lparr>flanterm_out := o1\<rparr>) = ret (True, s2)" "g_tty s2 = Some tty" "gdt_entries s2 = gdt_of la"
    "seg_cs (segs s2) = 8" "seg_ss (segs s2) = 0x10" "idt_table s2 = idt_table s" "irq_handlers s2 = irq_handlers s"
    "global_syscall s2 = global_syscall s" "tss_rsp0 s2 = tss_rsp0 s"
    using inital_init_run [of "s\<lparr>flanterm_out := o1\<rparr>" tty la] assms(1,2) by auto
  have len: "length (idt_table s2) = 256" "length (irq_handlers s2) = 256" using 2(6,7) assms(3,4) by simp_all
  obtain s3 where 3: "exception_load D la s2 = ret s3" "g_tty s3 = Some tty" "gdt_entries s3 = gdt_of la" "segs s3 = segs s2"
    "idt_table s3 = idt_of la (idt_table s)" "irq_handlers s3 = handlers_of (irq_handlers s)" "global_syscall s3 = global_syscall s"
    "tss_rsp0 s3 = tss_rsp0 s" "interrupts_on (rflags s3)" "pics pm ps 0xFF 0xFF (io_log s3)"
    using exception_load_run [OF 2(2) assms(6) len, of la] 2 by auto
  obtain s4 where 4: "timer_init D s3 = ret s4" "g_tty s4 = Some tty" "gdt_entries s4 = gdt_of la" "segs s4 = segs s2"
    "idt_table s4 = idt_of la (idt_table s)" "irq_handlers s4 = handlers_of (irq_handlers s)" "global_syscall s4 = global_syscall s"
    "tss_rsp0 s4 = tss_rsp0 s" "interrupts_on (rflags s4)" "pics pm ps 0xFE 0xFF (io_log s4)"
    using timer_init_run [OF 3(2) assms(6) 3(10)] 3 by auto
  have "\<exists>k. \<not> has_byte D k (io_log s4)" using assms(7) by blast
  then obtain s5 where 5: "keyboard_init D s4 = ret s5" "g_tty s5 = Some tty" "gdt_entries s5 = gdt_of la" "segs s5 = segs s2"
    "idt_table s5 = idt_of la (idt_table s)" "irq_handlers s5 = handlers_of (irq_handlers s)" "global_syscall s5 = global_syscall s"
    "tss_rsp0 s5 = tss_rsp0 s" "interrupts_on (rflags s5)" "pics pm ps 0xFC 0xFF (io_log s5)"
    using keyboard_init_run [OF 4(2) assms(6) 4(10)] 4 by auto
  have "kmain_setup D la s = init_syscall la (init_cpu s5)"
    by (simp only: kmain_setup_def 1 2(1) 3(1) 4(1) 5(1) ebind_simps case_prod_conv if_True)
  then show ?thesis using 2(4,5) 5(2-10) by auto
qed


definition test_devices :: devices where
  "test_devices = tables.extend (syscalls.extend (sched.extend (test_sched 0x200 [0x300, 0x400] [0x500]) \<lparr>global_syscall = replicate 512 None\<rparr>)
     \<lparr>gdt_entries = replicate 7 0, gdtr_reg = \<lparr>gdtr_limit = 0, gdtr_address = 0\<rparr>,
      segs = \<lparr>seg_cs = 0, seg_ds = 0, seg_es = 0, seg_fs = 0, seg_gs = 0, seg_ss = 0, seg_tr = 0\<rparr>,
      idt_table = replicate 256 \<lparr>offset0 = 0, selector = 0, ist_flags = 0, offset1 = 0, offset2 = 0, resered = 0\<rparr>,
      idtr_reg = \<lparr>idtr_limit = 0, idtr_base = 0\<rparr>, irq_handlers = replicate 256 None\<rparr>)
     \<lparr>g_keyboard = Ps2Keyboard_init (replicate 255 0)\<rparr>"

definition test_pics :: device where
  "test_pics p es = (if p = 0x21 then imr (pic_after 0x20 0x21 \<lparr>awaiting = 0, imr = 0, vec_base = 0\<rparr> es)
     else if p = 0xA1 then imr (pic_after 0xA0 0xA1 \<lparr>awaiting = 0, imr = 0, vec_base = 0\<rparr> es) else 0)"


end
