(* ===== verification/Interrupt_Entry.thy ===== *)
theory Interrupt_Entry
  imports Interrupts
begin

text \<open>
  The way into an interrupt handler and back: the delivery by the processor, the stub of
  \<^verbatim>\<open>src/src/kernel/arch/x86-64/system/isr.s\<close> instruction by instruction, and \<open>iretq\<close>. The registers of the
  processor are held in an \<open>IrqFrame\<close>, whose error and flags members are not used there: the flags are those of the
  machine. With the scheduler this is the whole of a context switch.
\<close>

type_synonym 'a irq_state = "IrqFrame \<times> 'a devices_scheme"

section \<open>The stub\<close>

definition irq_push :: "u64 \<Rightarrow> 'a irq_state \<Rightarrow> 'a irq_state" where
  "irq_push v = (\<lambda>(c, s). (c\<lparr>rsp := rsp c - 8\<rparr>, s\<lparr>memory := write64 (memory s) (rsp c - 8) v\<rparr>))"

definition irq_pop :: "(u64 \<Rightarrow> IrqFrame \<Rightarrow> IrqFrame) \<Rightarrow> 'a irq_state \<Rightarrow> 'a irq_state" where
  "irq_pop put = (\<lambda>(c, s). (put (read64 (memory s) (rsp c)) (c\<lparr>rsp := rsp c + 8\<rparr>), s))"

definition has_error_code :: "nat \<Rightarrow> bool" where
  "has_error_code i \<longleftrightarrow> i \<in> {8, 10, 11, 12, 13, 14, 17, 21, 29, 30}"

text \<open>
  Delivery: from user mode the stack is the one in the task state segment. The stack is aligned, five registers and
  for some exceptions an error code are pushed, and an interrupt gate masks interrupts.
\<close>

definition cpu_interrupt :: "nat \<Rightarrow> u64 \<Rightarrow> 'a irq_state \<Rightarrow> 'a irq_state" where
  "cpu_interrupt i err = (\<lambda>(c, s).
     (let sp = (if cs c AND 3 \<noteq> 0 then tss_rsp0 s else rsp c) AND NOT 15;
          frame = [ss c, rsp c, rflags s, cs c, rip c] @ (if has_error_code i then [err] else []);
          s = s\<lparr>rflags := rflags s AND NOT 0x34100\<rparr>;
          s = (if gate_type (idt_table s ! i) = 0xE then s\<lparr>rflags := cli (rflags s)\<rparr> else s)
      in fold irq_push frame (c\<lparr>rsp := sp, cs := ucast KERNEL_CODE, rip := gate_address (idt_table s ! i)\<rparr>, s)))"

definition stub_error :: "nat \<Rightarrow> 'a irq_state \<Rightarrow> 'a irq_state" where
  "stub_error i x = (if has_error_code i then x else irq_push 0 x)"

definition stub_enter :: "nat \<Rightarrow> 'a irq_state \<Rightarrow> 'a irq_state" where
  "stub_enter i x =
     (let (c, s) = stub_error i x;
          (c, s) = (if read64 (memory s) (rsp c + 16) AND 3 \<noteq> 0 then swapgs (c, s) else (c, s));
          s = s\<lparr>rflags := rflags s AND NOT 0x400\<rparr>;
          (c, s) = fold irq_push [rax c, rbx c, rcx c, rdx c, rdi c, rsi c, rbp c, r8 c, r9 c, r10 c, r11 c, r12 c, r13 c, r14 c, r15 c] (c, s);
          c = c\<lparr>rdi := rsp c\<rparr>;
          (c, s) = irq_push (read64 (memory s) (rsp c + 16 * 8)) (c, s);
          (c, s) = irq_push (rbp c) (c, s);
          c = c\<lparr>rbp := rsp c\<rparr>;
          c = c\<lparr>rsi := of_nat i\<rparr>
      in (c\<lparr>rsp := rsp c AND NOT 15\<rparr>, s))"

text \<open>The structure at an address, read and assigned.\<close>

definition irq_frame_at :: "mem \<Rightarrow> ptr \<Rightarrow> IrqFrame" where
  "irq_frame_at m p = \<lparr>r15 = read64 m p, r14 = read64 m (p + 8), r13 = read64 m (p + 16), r12 = read64 m (p + 24),
     r11 = read64 m (p + 32), r10 = read64 m (p + 40), r9 = read64 m (p + 48), r8 = read64 m (p + 56), rbp = read64 m (p + 64),
     rsi = read64 m (p + 72), rdi = read64 m (p + 80), rdx = read64 m (p + 88), rcx = read64 m (p + 96), rbx = read64 m (p + 104),
     rax = read64 m (p + 112), frame_error = read64 m (p + 120), rip = read64 m (p + 128), cs = read64 m (p + 136),
     frame_rflags = read64 m (p + 144), rsp = read64 m (p + 152), ss = read64 m (p + 160)\<rparr>"

definition frame_words :: "IrqFrame \<Rightarrow> u64 list" where
  "frame_words f = [ss f, rsp f, frame_rflags f, cs f, rip f, frame_error f, rax f, rbx f, rcx f, rdx f, rdi f, rsi f, rbp f,
     r8 f, r9 f, r10 f, r11 f, r12 f, r13 f, r14 f, r15 f]"

definition write_frame :: "mem \<Rightarrow> ptr \<Rightarrow> IrqFrame \<Rightarrow> mem" where
  "write_frame m p f = push_words m (p + 168) (frame_words f)"

text \<open>
  The call of the C++ function, which may change the scratch registers and writes the frame in place.
\<close>

definition call_irq_handler :: "device \<Rightarrow> (IrqFrame \<Rightarrow> IrqFrame) \<Rightarrow> 'a irq_state \<Rightarrow> 'a irq_state exec" where
  "call_irq_handler D clobber = (\<lambda>(c, s).
     ebind (arch_interrupt_handler D (irq_frame_at (memory s) (rdi c)) (ucast (rsi c)) s) (\<lambda>(f, s).
     ret (c\<lparr>rax := rax (clobber c), rcx := rcx (clobber c), rdx := rdx (clobber c), rsi := rsi (clobber c), rdi := rdi (clobber c),
            r8 := r8 (clobber c), r9 := r9 (clobber c), r10 := r10 (clobber c), r11 := r11 (clobber c)\<rparr>,
          s\<lparr>memory := write_frame (memory s) (rdi c) f\<rparr>)))"

definition cpu_iretq :: "'a irq_state \<Rightarrow> 'a irq_state" where
  "cpu_iretq x =
     (let (c, s) = irq_pop (\<lambda>v c. c\<lparr>rip := v\<rparr>) x;
          (c, s) = irq_pop (\<lambda>v c. c\<lparr>cs := v\<rparr>) (c, s);
          s = s\<lparr>rflags := read64 (memory s) (rsp c)\<rparr>;
          c = c\<lparr>rsp := rsp c + 8\<rparr>;
          c = c\<lparr>ss := read64 (memory s) (rsp c + 8)\<rparr>
      in (c\<lparr>rsp := read64 (memory s) (rsp c)\<rparr>, s))"

definition stub_leave :: "'a irq_state \<Rightarrow> 'a irq_state" where
  "stub_leave = (\<lambda>(c, s).
     (let c = c\<lparr>rsp := rbp c\<rparr>;
          c = c\<lparr>rsp := rsp c + 16\<rparr>;
          (c, s) = fold irq_pop [\<lambda>v c. c\<lparr>r15 := v\<rparr>, \<lambda>v c. c\<lparr>r14 := v\<rparr>, \<lambda>v c. c\<lparr>r13 := v\<rparr>, \<lambda>v c. c\<lparr>r12 := v\<rparr>, \<lambda>v c. c\<lparr>r11 := v\<rparr>,
            \<lambda>v c. c\<lparr>r10 := v\<rparr>, \<lambda>v c. c\<lparr>r9 := v\<rparr>, \<lambda>v c. c\<lparr>r8 := v\<rparr>, \<lambda>v c. c\<lparr>rbp := v\<rparr>, \<lambda>v c. c\<lparr>rsi := v\<rparr>, \<lambda>v c. c\<lparr>rdi := v\<rparr>,
            \<lambda>v c. c\<lparr>rdx := v\<rparr>, \<lambda>v c. c\<lparr>rcx := v\<rparr>, \<lambda>v c. c\<lparr>rbx := v\<rparr>, \<lambda>v c. c\<lparr>rax := v\<rparr>] (c, s);
          (c, s) = (if read64 (memory s) (rsp c + 16) AND 3 \<noteq> 0 then swapgs (c, s) else (c, s));
          c = c\<lparr>rsp := rsp c + 8\<rparr>
      in cpu_iretq (c, s)))"

text \<open>An interrupt with vector \<open>i\<close>, from the interrupted instruction to the instruction that runs next.\<close>

definition interrupt :: "device \<Rightarrow> (IrqFrame \<Rightarrow> IrqFrame) \<Rightarrow> nat \<Rightarrow> u64 \<Rightarrow> 'a irq_state \<Rightarrow> 'a irq_state exec" where
  "interrupt D clobber i err x = ebind (call_irq_handler D clobber (stub_enter i (cpu_interrupt i err x))) (\<lambda>x. ret (stub_leave x))"

section \<open>The way in\<close>

lemma fold_irq_push:
  "fold irq_push ws (c, s) = (c\<lparr>rsp := rsp c - 8 * of_nat (length ws)\<rparr>, s\<lparr>memory := push_words (memory s) (rsp c) ws\<rparr>)"
  by (induction ws arbitrary: c s) (simp_all add: irq_push_def algebra_simps)

text \<open>The stack that an interrupt uses, the interrupted context as a frame, and the flags in the handler.\<close>

definition irq_stack :: "IrqFrame \<Rightarrow> 'a sched_scheme \<Rightarrow> u64" where
  "irq_stack c s = (if cs c AND 3 \<noteq> 0 then tss_rsp0 s else rsp c) AND NOT 15"

definition context_of :: "nat \<Rightarrow> u64 \<Rightarrow> IrqFrame \<Rightarrow> 'a machine_scheme \<Rightarrow> IrqFrame" where
  "context_of i err c s = c\<lparr>frame_error := (if has_error_code i then err else 0), frame_rflags := rflags s\<rparr>"

definition irq_flags :: "nat \<Rightarrow> 'a tables_scheme \<Rightarrow> u64" where
  "irq_flags i s = (let fl = rflags s AND NOT 0x34100 in if gate_type (idt_table s ! i) = 0xE then cli fl else fl)"

definition user_gs :: "u64 \<Rightarrow> (u32 \<Rightarrow> u64) \<Rightarrow> u32 \<Rightarrow> u64" where
  "user_gs sel m = (if sel AND 3 \<noteq> 0 then m(MSRGSBASE := m MSRKGSBASE, MSRKGSBASE := m MSRGSBASE) else m)"

text \<open>The state in which the handler runs.\<close>

definition interrupted :: "nat \<Rightarrow> u64 \<Rightarrow> IrqFrame \<Rightarrow> 'a devices_scheme \<Rightarrow> 'a devices_scheme" where
  "interrupted i err c s =
     s\<lparr>rflags := irq_flags i s AND NOT 0x400, msr := user_gs (cs c) (msr s),
       memory := push_words (memory s) (irq_stack c s) (frame_words (context_of i err c s) @ [rip c, rbp c])\<rparr>"

lemma length_frame_words [simp]: "length (frame_words f) = 21"
  by (simp add: frame_words_def)

lemma cpu_interrupt_eq:
  "stub_error i (cpu_interrupt i err (c, s))
   = (c\<lparr>rsp := irq_stack c s - 48, cs := 8, rip := gate_address (idt_table s ! i)\<rparr>,
      s\<lparr>rflags := irq_flags i s, memory := push_words (memory s) (irq_stack c s) (take 6 (frame_words (context_of i err c s)))\<rparr>)"
  by (simp add: cpu_interrupt_def stub_error_def irq_push_def irq_stack_def context_of_def irq_flags_def frame_words_def Let_def KERNEL_CODE_def)

lemma pushed_word: "length ws \<le> 128 \<Longrightarrow> i < length ws \<Longrightarrow> a = 8 * of_nat (Suc i) \<Longrightarrow> read64 (push_words m sp ws) (sp - a) = ws ! i"
  by (simp add: push_words_read del: of_nat_Suc)

lemma stub_enter_eq:
  fixes c :: IrqFrame and s :: "'a devices_scheme" and i :: nat and err :: u64
  defines "k \<equiv> irq_stack c s" and "f \<equiv> context_of i err c s"
  shows "\<exists>c1. stub_enter i (cpu_interrupt i err (c, s)) = (c1, interrupted i err c s)
    \<and> rdi c1 = k - 168 \<and> rbp c1 = k - 184 \<and> rsi c1 = of_nat i \<and> frame_error c1 = frame_error c \<and> frame_rflags c1 = frame_rflags c"
proof -
  have six: "take 6 (frame_words f) = [ss f, rsp f, frame_rflags f, cs f, rip f, frame_error f]"
    "frame_words f = take 6 (frame_words f) @ [rax c, rbx c, rcx c, rdx c, rdi c, rsi c, rbp c, r8 c, r9 c, r10 c, r11 c, r12 c, r13 c, r14 c, r15 c]"
    by (simp_all add: frame_words_def f_def context_of_def)
  have p21: "push_words (push_words (memory s) k (take 6 (frame_words f))) (k - 48)
      [rax c, rbx c, rcx c, rdx c, rdi c, rsi c, rbp c, r8 c, r9 c, r10 c, r11 c, r12 c, r13 c, r14 c, r15 c] = push_words (memory s) k (frame_words f)"
    by (subst (2) six(2), subst push_words_append) simp
  have cs6: "read64 (push_words (memory s) k (take 6 (frame_words f))) (k - 32) = cs c"
    using pushed_word [of "take 6 (frame_words f)" 3 32 "memory s" k] by (simp add: frame_words_def f_def context_of_def)
  have rip21: "read64 (push_words (memory s) k (frame_words f)) (k - 40) = rip c"
    using pushed_word [of "frame_words f" 4 40 "memory s" k] by (simp add: frame_words_def f_def context_of_def)
  have "\<exists>c1. stub_enter i (cpu_interrupt i err (c, s)) = (c1, s\<lparr>rflags := irq_flags i s AND NOT 0x400, msr := user_gs (cs c) (msr s),
       memory := push_words (push_words (memory s) k (frame_words f)) (k - 168) [rip c, rbp c]\<rparr>)
    \<and> rdi c1 = k - 168 \<and> rbp c1 = k - 184 \<and> rsi c1 = of_nat i \<and> frame_error c1 = frame_error c \<and> frame_rflags c1 = frame_rflags c"
    unfolding stub_enter_def cpu_interrupt_eq k_def [symmetric] f_def [symmetric]
    using cs6 rip21 p21
    by (simp add: Let_def fold_irq_push irq_push_def swapgs_def user_gs_def)
  then show ?thesis by (simp add: interrupted_def push_words_append k_def [symmetric] f_def [symmetric])
qed

section \<open>The way out\<close>

lemma frame_slots:
  assumes "\<And>i. i < 21 \<Longrightarrow> read64 m (k - 8 * of_nat (Suc i)) = frame_words f ! i"
  shows "irq_frame_at m (k - 168) = f"
  using assms [of 0] assms [of 1] assms [of 2] assms [of 3] assms [of 4] assms [of 5] assms [of 6] assms [of 7] assms [of 8]
    assms [of 9] assms [of 10] assms [of 11] assms [of 12] assms [of 13] assms [of 14] assms [of 15] assms [of 16]
    assms [of 17] assms [of 18] assms [of 19] assms [of 20]
  by (simp add: frame_words_def irq_frame_at_def)

lemma interrupted_frame: "irq_frame_at (memory (interrupted i err c s)) (irq_stack c s - 168) = context_of i err c s"
  by (rule frame_slots) (simp add: interrupted_def push_words_read nth_append del: of_nat_Suc)

lemma interrupted_memory: "same_on (- span (irq_stack c s - 184) 184) (memory s) (memory (interrupted i err c s))"
  using push_words_same [of "frame_words (context_of i err c s) @ [rip c, rbp c]" "irq_stack c s" "memory s"]
  by (simp add: interrupted_def)

lemma write_frame_frame: "irq_frame_at (write_frame m (k - 168) f) (k - 168) = f"
  by (rule frame_slots) (simp add: write_frame_def push_words_read del: of_nat_Suc)

lemma write_frame_memory: "same_on (- span p 168) m (write_frame m p f)"
  using push_words_same [of "frame_words f" "p + 168" m] by (simp add: write_frame_def)

text \<open>The registers that a frame gives back; its error and flags members go elsewhere.\<close>

definition resumed :: "IrqFrame \<Rightarrow> IrqFrame \<Rightarrow> IrqFrame" where
  "resumed c f = f\<lparr>frame_error := frame_error c, frame_rflags := frame_rflags c\<rparr>"

lemma stub_leave_eq:
  assumes "rbp c = k - 184" and "irq_frame_at (memory s) (k - 168) = f"
  shows "stub_leave (c, s) = (resumed c f, s\<lparr>rflags := frame_rflags f, msr := user_gs (cs f) (msr s)\<rparr>)"
proof -
  have r: "read64 (memory s) (k - 168) = r15 f" "read64 (memory s) (k - 160) = r14 f" "read64 (memory s) (k - 152) = r13 f"
    "read64 (memory s) (k - 144) = r12 f" "read64 (memory s) (k - 136) = r11 f" "read64 (memory s) (k - 128) = r10 f"
    "read64 (memory s) (k - 120) = r9 f" "read64 (memory s) (k - 112) = r8 f" "read64 (memory s) (k - 104) = rbp f"
    "read64 (memory s) (k - 96) = rsi f" "read64 (memory s) (k - 88) = rdi f" "read64 (memory s) (k - 80) = rdx f"
    "read64 (memory s) (k - 72) = rcx f" "read64 (memory s) (k - 64) = rbx f" "read64 (memory s) (k - 56) = rax f"
    "read64 (memory s) (k - 40) = rip f" "read64 (memory s) (k - 32) = cs f" "read64 (memory s) (k - 24) = frame_rflags f"
    "read64 (memory s) (k - 16) = rsp f" "read64 (memory s) (k - 8) = ss f"
    unfolding assms(2) [symmetric] irq_frame_at_def by simp_all
  show ?thesis
    using r assms(1)
    by (cases f) (simp add: stub_leave_def cpu_iretq_def irq_pop_def swapgs_def user_gs_def resumed_def)
qed

lemma interrupt_eq:
  "interrupt D clobber i err (c, s) =
    ebind (arch_interrupt_handler D (context_of i err c s) (of_nat i) (interrupted i err c s)) (\<lambda>(f, s').
      ret (resumed c f, s'\<lparr>memory := write_frame (memory s') (irq_stack c s - 168) f, rflags := frame_rflags f,
        msr := user_gs (cs f) (msr s')\<rparr>))"
proof -
  obtain c1 where c1: "stub_enter i (cpu_interrupt i err (c, s)) = (c1, interrupted i err c s)" "rdi c1 = irq_stack c s - 168"
    "rbp c1 = irq_stack c s - 184" "rsi c1 = of_nat i" "frame_error c1 = frame_error c" "frame_rflags c1 = frame_rflags c"
    using stub_enter_eq [of i err c s] by auto
  have u: "(ucast (of_nat i :: u64) :: u32) = of_nat i" by (rule bit_word_eqI) (simp add: bit_simps)
  have leave: "stub_leave (c1\<lparr>rax := a, rcx := b, rdx := d, rsi := e, rdi := g, r8 := h, r9 := j, r10 := l, r11 := m\<rparr>,
      s'\<lparr>memory := write_frame (memory s') (irq_stack c s - 168) f\<rparr>)
    = (resumed c f, s'\<lparr>memory := write_frame (memory s') (irq_stack c s - 168) f, rflags := frame_rflags f, msr := user_gs (cs f) (msr s')\<rparr>)"
    for a b d e g h j l m f and s' :: "'a devices_scheme"
    by (subst stub_leave_eq [where k = "irq_stack c s"]) (simp_all add: c1 write_frame_frame resumed_def)
  show ?thesis
    unfolding interrupt_def c1(1) call_irq_handler_def case_prod_conv c1(2,4) u interrupted_frame ebind_assoc
    by (intro arg_cong [where f = "ebind _"] ext) (simp add: case_prod_beta leave)
qed

section \<open>The timer interrupt\<close>

lemma sched_inv_machine:
  assumes "hook s' = hook s" "ready_threads s' = ready_threads s" "waiting_queue s' = waiting_queue s" "thread_at s' = thread_at s"
    "process_at s' = process_at s" "curr_thread s' = curr_thread s" "idle_thread s' = idle_thread s" "tss_rsp0 s' = tss_rsp0 s"
    "syscall_kernel_rsp s' = syscall_kernel_rsp s" "cr3 s' = cr3 s" "disable_counter s' = disable_counter s"
    "task_switch_counter s' = task_switch_counter s" "task_switch_postponed s' = task_switch_postponed s"
  shows "sched_inv s' R W = sched_inv s R W"
  using assms by (simp add: sched_inv_def sched_wf_def queues_def runs_def cpu_fits_def unlocked_def thread_ok_def space_of_def)

lemma tick_refines:
  assumes "sched_inv s R W" and "enabled (Tick frame) s R W"
  shows "\<exists>s' R' W'. pit_irq_handler frame s = ret (registers (thread_at s' (curr_thread s')), s') \<and> sched_inv s' R' W'
    \<and> abs_step (idle_thread s) (Tick frame) (curr_thread s, R, W) (curr_thread s', R', W')
    \<and> (\<forall>t. registers (thread_at s' t) = (if t = curr_thread s then frame else registers (thread_at s t)))"
proof -
  obtain s' where "pit_irq_handler frame s = ret (registers (thread_at s' (curr_thread s')), s')"
    "\<forall>t. registers (thread_at s' t) = (if t = curr_thread s then frame else registers (thread_at s t))"
    using tick_inv [OF assms(1), of frame] assms(2) by (auto simp: enabled_def)
  then show ?thesis using step_refines [OF assms] by auto
qed

text \<open>
  Claim C5. A timer interrupt is a context switch. In a state that satisfies the scheduler invariant, an interrupt with vector 32, followed
  from the interrupted instruction through the stub, the dispatcher, the scheduler and \<open>iretq\<close> to the next
  instruction, returns. The registers, the stack and the flags with which the processor goes on are those saved for the thread that
  is now current; the interrupted context, all of it, is saved in the block of the thread that was running; no other saved context
  changes. The scheduler has made one abstract tick, the controller got exactly one end of interrupt, the clock advanced by
  one, and memory has changed only in the 184 bytes of stack that the interrupt used.
\<close>

theorem timer_interrupt_switches_context:
  fixes s :: "'a devices_scheme"
  assumes "sched_inv s R W" and "R = [] \<and> curr_thread s = idle_thread s \<longrightarrow> (\<forall>x\<in>set W. \<not> due (thread_at s x))"
  shows "\<exists>s' R' W'. interrupt D clobber 32 err (c, s) = ret (resumed c (registers (thread_at s' (curr_thread s'))), s')
    \<and> rflags s' = frame_rflags (registers (thread_at s' (curr_thread s')))
    \<and> (\<forall>t. registers (thread_at s' t) = (if t = curr_thread s then context_of 32 err c s else registers (thread_at s t)))
    \<and> sched_inv s' R' W'
    \<and> abs_step (idle_thread s) (Tick (context_of 32 err c s)) (curr_thread s, R, W) (curr_thread s', R', W')
    \<and> io_log s' = io_log s @ [Out 0x20 0x20] \<and> tick s' = tick s + 1
    \<and> same_on (- span (irq_stack c s - 184) 184) (memory s) (memory s')"
proof -
  let ?f = "context_of 32 err c s" and ?s1 = "increase_time (increase_tick (interrupted 32 err c s))"
  have fields: "curr_thread ?s1 = curr_thread s" "idle_thread ?s1 = idle_thread s" "thread_at ?s1 = thread_at s" "io_log ?s1 = io_log s"
    "tick ?s1 = tick s + 1" "memory ?s1 = memory (interrupted 32 err c s)"
    by (simp_all add: increase_time_def increase_tick_def interrupted_def Let_def)
  have "sched_inv ?s1 R W" using assms(1)
    by (subst sched_inv_machine [where s = s]) (simp_all add: increase_time_def increase_tick_def interrupted_def Let_def)
  moreover have "enabled (Tick ?f) ?s1 R W" using assms(2) by (simp add: enabled_def fields)
  ultimately obtain s2 R' W' where run: "pit_irq_handler ?f ?s1 = ret (registers (thread_at s2 (curr_thread s2)), s2)"
    and inv: "sched_inv s2 R' W'" and abs: "abs_step (idle_thread s) (Tick ?f) (curr_thread s, R, W) (curr_thread s2, R', W')"
    and regs: "\<forall>t. registers (thread_at s2 t) = (if t = curr_thread s then ?f else registers (thread_at s t))"
    using tick_refines [of ?s1 R W ?f] unfolding fields by blast
  note kept = pit_irq_handler_mem [OF run]
  let ?g = "registers (thread_at s2 (curr_thread s2))"
  define s3 where "s3 = (eoi 0 s2)\<lparr>memory := write_frame (memory (eoi 0 s2)) (irq_stack c s - 168) ?g, rflags := frame_rflags ?g,
    msr := user_gs (cs ?g) (msr (eoi 0 s2))\<rparr>"
  have e: "eoi 0 s2 = s2\<lparr>io_log := io_log s2 @ [Out 0x20 0x20]\<rparr>" by (simp add: eoi_def outb_def MASTER_CMD_def)
  have "arch_interrupt_handler D ?f (of_nat 32) (interrupted 32 err c s) = ret (?g, eoi 0 s2)"
    by (simp add: arch_interrupt_handler_def hardware_interrupt_dispatch_def isr_timer_def Let_def run)
  then have "interrupt D clobber 32 err (c, s) = ret (resumed c ?g, s3)" by (simp add: interrupt_eq s3_def)
  moreover have "sched_inv s3 R' W'" using inv by (subst sched_inv_machine [where s = s2]) (simp_all add: s3_def e)
  moreover have "same_on (- span (irq_stack c s - 184) 184) (memory s) (memory s3)"
  proof (rule same_on_trans [OF interrupted_memory [of c s 32 err]])
    have "span (irq_stack c s - 184 + 16) 168 \<subseteq> span (irq_stack c s - 184) 184" by (rule span_sub) simp_all
    then have "- span (irq_stack c s - 184) 184 \<subseteq> - span (irq_stack c s - 168) 168" by auto
    then show "same_on (- span (irq_stack c s - 184) 184) (memory (interrupted 32 err c s)) (memory s3)"
      using same_on_mono [OF write_frame_memory] kept by (simp add: s3_def e fields)
  qed
  moreover have "io_log s3 = io_log s @ [Out 0x20 0x20]" "tick s3 = tick s + 1" "rflags s3 = frame_rflags ?g" "thread_at s3 = thread_at s2"
    "curr_thread s3 = curr_thread s2"
    using kept by (simp_all add: s3_def e fields)
  ultimately show ?thesis using regs abs by auto
qed

lemma test_devices_inv: "sched_inv test_devices [0x300, 0x400] [0x500]"
proof -
  have "sched_inv test_devices R W = sched_inv (test_sched 0x200 [0x300, 0x400] [0x500]) R W" for R W
    by (simp add: sched_inv_def sched_wf_def queues_def runs_def cpu_fits_def unlocked_def thread_ok_def space_of_def
        test_devices_def tables.defs syscalls.defs sched.defs)
  then show ?thesis using test_sched_inv(1) by simp
qed

theorem timer_interrupt_switches_context_witness:
  "\<exists>s'. interrupt (\<lambda>_ _. 0) id 32 0 (zero_frame\<lparr>rsp := 0x7000, rax := 5\<rparr>, test_devices)
       = ret (resumed (zero_frame\<lparr>rsp := 0x7000, rax := 5\<rparr>) (registers (thread_at s' (curr_thread s'))), s')
     \<and> rax (registers (thread_at s' 0x200)) = 5 \<and> curr_thread s' \<in> {0x200, 0x300}"
proof -
  have d: "curr_thread test_devices = 0x200" "idle_thread test_devices = 0x100"
    by (simp_all add: test_devices_def tables.defs syscalls.defs sched.defs)
  obtain s' R' W' where s': "interrupt (\<lambda>_ _. 0) id 32 0 (zero_frame\<lparr>rsp := 0x7000, rax := 5\<rparr>, test_devices)
       = ret (resumed (zero_frame\<lparr>rsp := 0x7000, rax := 5\<rparr>) (registers (thread_at s' (curr_thread s'))), s')"
    "registers (thread_at s' 0x200) = context_of 32 0 (zero_frame\<lparr>rsp := 0x7000, rax := 5\<rparr>) test_devices"
    "abs_step 0x100 (Tick (context_of 32 0 (zero_frame\<lparr>rsp := 0x7000, rax := 5\<rparr>) test_devices)) (0x200, [0x300, 0x400], [0x500])
       (curr_thread s', R', W')"
    using timer_interrupt_switches_context [OF test_devices_inv, of "\<lambda>_ _. 0" id 0 "zero_frame\<lparr>rsp := 0x7000, rax := 5\<rparr>"]
    unfolding d by auto
  from s'(3) have "curr_thread s' \<in> {0x200, 0x300}" by (cases rule: abs_step.cases) (auto simp: next_of_def)
  with s'(1,2) show ?thesis by (auto simp: context_of_def)
qed

end
