(* ===== verification/Terminal.thy ===== *)
theory Terminal
  imports Interrupts Kernel_Heap
begin

text \<open>
  The terminal: the thread of \<^verbatim>\<open>src/src/kernel/util/terminal.cpp\<close> with its helpers in \<^verbatim>\<open>terminal_support.cpp\<close>. It takes
  keys from the buffer that the keyboard interrupt fills and echoes them, so that one row of the screen is a line
  editor. What happens while the thread waits in \<open>hlt\<close> is a parameter, and so is the width of the screen, which
  the terminal emulator reports.
\<close>

section \<open>The terminal\<close>

definition prompt :: "char list" where "prompt = ''TwoOs> ''"

definition keymap :: "char list" where
  "keymap = [CHR 0x00, CHR 0x00] @ ''1234567890-='' @ [CHR 0x00, CHR 0x00] @ ''qwertyuiop[]'' @ [CHR 0x00, CHR 0x00]
     @ ''asdfghjkl;'' @ [CHR 0x27, CHR 0x60] @ [CHR 0x00, CHR 0x5C] @ ''zxcvbnm,./'' @ [CHR 0x00] @ ''*'' @ [CHR 0x00] @ '' ''"

record Input =
  in_length :: u64
  in_limit :: u64

definition terminal_welcome :: "'a console_scheme \<Rightarrow> 'a console_scheme exec" where
  "terminal_welcome s = klog ([CHR 0x1B] @ ''[2J'' @ [CHR 0x1B] @ ''[H'' @ [CHR 0x0A, CHR 0x1B] @ ''[1;36m''
     @ ''  ##### #   #  ###  #   # ##### ####  #   # ##### #'' @ [CHR 0x0A]
     @ ''    #   #   # #   # #  #  #     #   # ##  # #     #'' @ [CHR 0x0A]
     @ ''    #   # # # #   # ###   ####  ####  # # # ####  #'' @ [CHR 0x0A]
     @ ''    #   ## ## #   # #  #  #     #  #  #  ## #     #'' @ [CHR 0x0A]
     @ ''    #   #   #  ###  #   # ##### #   # #   # ##### #####'' @ [CHR 0x0A]
     @ [CHR 0x1B] @ ''[0m'' @ [CHR 0x0A] @ ''  welcome to twokernel'' @ [CHR 0x0A, CHR 0x0A] @ ''%s'') [StrArg (Some prompt)] s"

text \<open>\<open>sizeof(prompt)\<close> counts the terminating zero.\<close>

definition Input_new :: "u64 \<Rightarrow> 'a console_scheme \<Rightarrow> Input exec" where
  "Input_new columns s =
     (case g_tty s of
        None \<Rightarrow> halt NullDeref
      | Some _ \<Rightarrow> ret \<lparr>in_length = 0, in_limit = (if columns > 8 then columns - 8 else 0)\<rparr>)"

partial_function (option) wait_key :: "('a devices_scheme \<Rightarrow> 'a devices_scheme) \<Rightarrow> 'a devices_scheme \<Rightarrow> 'a devices_scheme exec" where
  "wait_key hlt s =
     (if is_empty (kb_data (g_keyboard s)) then
        (let s = s\<lparr>rflags := sti (rflags s)\<rparr>;
             s = hlt s;
             s = s\<lparr>rflags := cli (rflags s)\<rparr>
         in wait_key hlt s)
      else ret s)"

definition echo :: "u8 \<Rightarrow> Input \<times> 'a console_scheme \<Rightarrow> (Input \<times> 'a console_scheme) exec" where
  "echo key = (\<lambda>(this, s).
     if key = ScanCode_Enter \<or> key = ScanCode_KeypadEnter then
       ebind (klog (CHR 0x0A # ''%s'') [StrArg (Some prompt)] s) (\<lambda>s. ret (this\<lparr>in_length := 0\<rparr>, s))
     else if key = ScanCode_Backspace then
       (if in_length this \<noteq> 0 then
          ebind (klog [CHR 0x08, CHR '' '', CHR 0x08] [] s) (\<lambda>s. ret (this\<lparr>in_length := in_length this - 1\<rparr>, s))
        else ret (this, s))
     else if unat key < length keymap \<and> keymap ! unat key \<noteq> CHR 0x00 \<and> in_length this < in_limit this then
       (case g_tty s of
          None \<Rightarrow> halt NullDeref
        | Some _ \<Rightarrow> ebind (write_terminal [keymap ! unat key] s) (\<lambda>s. ret (this\<lparr>in_length := in_length this + 1\<rparr>, s)))
     else ret (this, s))"

definition read_and_echo ::
  "('a devices_scheme \<Rightarrow> 'a devices_scheme) \<Rightarrow> Input \<times> 'a devices_scheme \<Rightarrow> (Input \<times> 'a devices_scheme) exec" where
  "read_and_echo hlt = (\<lambda>(this, s).
     (let s = s\<lparr>rflags := cli (rflags s)\<rparr> in
      ebind (wait_key hlt s) (\<lambda>s.
      (let key = get_read (kb_data (g_keyboard s)) in
       ebind (buf_read (kb_data (g_keyboard s))) (\<lambda>b.
       (let s = s\<lparr>g_keyboard := (g_keyboard s)\<lparr>kb_data := b\<rparr>\<rparr>;
            s = s\<lparr>rflags := sti (rflags s)\<rparr>
        in echo key (this, s)))))))"

text \<open>The thread runs for ever.\<close>

partial_function (option) echo_forever ::
  "('a devices_scheme \<Rightarrow> 'a devices_scheme) \<Rightarrow> Input \<Rightarrow> 'a devices_scheme \<Rightarrow> 'a devices_scheme exec" where
  "echo_forever hlt this s = ebind (read_and_echo hlt (this, s)) (\<lambda>(this, s). echo_forever hlt this s)"

definition terminal_run :: "('a devices_scheme \<Rightarrow> 'a devices_scheme) \<Rightarrow> u64 \<Rightarrow> 'a devices_scheme \<Rightarrow> 'a devices_scheme exec" where
  "terminal_run hlt columns s =
     ebind (Input_new columns s) (\<lambda>input. ebind (terminal_welcome s) (\<lambda>s. echo_forever hlt input s))"

text \<open>
  The thread is made by \<open>new\<close>, that is \<open>kmalloc\<close>; the size of a thread block, the kernel process and the address of \<open>run\<close>
  are parameters.
\<close>

definition terminal_start :: "limine \<Rightarrow> u64 \<Rightarrow> ptr \<Rightarrow> ptr \<Rightarrow> 'a devices_scheme \<Rightarrow> 'a devices_scheme exec" where
  "terminal_start L sizeof_ThreadBlock g_kernel_process run = guarded (\<lambda>s.
     ebind (kmalloc L sizeof_ThreadBlock s) (\<lambda>(thread, s).
     ebind (ThreadBlock_new L thread ''terminal'' g_kernel_process run null s) (\<lambda>s.
     ebind (add_thread g_kernel_process thread s) (\<lambda>s.
     add_ready_threads thread s))))"

section \<open>A row of the screen\<close>

text \<open>
  A terminal row: a character goes to the column of the cursor, backspace moves the cursor left, carriage return to the
  start and line feed to a fresh row.
\<close>

type_synonym row = "char list \<times> nat"

fun term_step :: "row \<Rightarrow> char \<Rightarrow> row" where
  "term_step (r, col) ch =
     (if ch = CHR 0x0A then ([], col)
      else if ch = CHR 0x0D then (r, 0)
      else if ch = CHR 0x08 then (r, col - 1)
      else (if col < length r then r[col := ch] else r @ [ch], col + 1))"

definition screen_row :: "char list \<Rightarrow> row" where
  "screen_row out = foldl term_step ([], 0) out"

text \<open>The line that the keys edit.\<close>

definition line_edit :: "nat \<Rightarrow> char list \<Rightarrow> u8 \<Rightarrow> char list" where
  "line_edit limit line key =
     (if key = ScanCode_Enter \<or> key = ScanCode_KeypadEnter then []
      else if key = ScanCode_Backspace then butlast line
      else if unat key < length keymap \<and> keymap ! unat key \<noteq> CHR 0x00 \<and> length line < limit then line @ [keymap ! unat key]
      else line)"

text \<open>The row shows the prompt and the line, possibly followed by blanks, with the cursor after the line.\<close>

definition shows_line :: "char list \<Rightarrow> char list \<Rightarrow> bool" where
  "shows_line out line \<longleftrightarrow> (\<exists>k. screen_row out = (prompt @ line @ replicate k CHR '' '', length prompt + length line))"

lemma screen_row_append: "screen_row (out @ xs) = foldl term_step (screen_row out) xs"
  by (simp add: screen_row_def)

lemma shows_prompt: "shows_line (out @ [CHR 0x0D, CHR 0x0A] @ prompt) []"
  by (cases "screen_row out") (auto simp: shows_line_def screen_row_append prompt_def)

lemma shows_backspace:
  assumes "shows_line out line" and "line \<noteq> []"
  shows "shows_line (out @ [CHR 0x08, CHR '' '', CHR 0x08]) (butlast line)"
proof -
  obtain k where k: "screen_row out = (prompt @ line @ replicate k CHR '' '', length prompt + length line)"
    using assms(1) by (auto simp: shows_line_def)
  obtain l c where line: "line = l @ [c]" using assms(2) by (metis rev_exhaust)
  have "screen_row (out @ [CHR 0x08, CHR '' '', CHR 0x08]) = (prompt @ l @ replicate (Suc k) CHR '' '', length prompt + length l)"
    by (simp add: screen_row_append k line list_update_append)
  then show ?thesis unfolding shows_line_def line by (intro exI [of _ "Suc k"]) simp
qed

lemma shows_character:
  assumes "shows_line out line" and "ch \<notin> {CHR 0x0A, CHR 0x0D, CHR 0x08}"
  shows "shows_line (out @ [ch]) (line @ [ch])"
proof -
  obtain k where k: "screen_row out = (prompt @ line @ replicate k CHR '' '', length prompt + length line)"
    using assms(1) by (auto simp: shows_line_def)
  have "screen_row (out @ [ch]) = (prompt @ (line @ [ch]) @ replicate (k - 1) CHR '' '', length prompt + length (line @ [ch]))"
    using assms(2) by (cases k) (auto simp: screen_row_append k list_update_append)
  then show ?thesis by (auto simp: shows_line_def)
qed

lemma keymap_printable: "i < length keymap \<Longrightarrow> keymap ! i \<notin> {CHR 0x0A, CHR 0x0D, CHR 0x08}"
proof -
  assume "i < length keymap"
  then have "keymap ! i \<in> set keymap" by (rule nth_mem)
  moreover have "\<forall>x \<in> set keymap. x \<notin> {CHR 0x0A, CHR 0x0D, CHR 0x08}" by (simp add: keymap_def)
  ultimately show ?thesis by (rule bspec [rotated])
qed

text \<open>The terminal thread between two keys.\<close>

definition editing :: "nat \<Rightarrow> char list \<Rightarrow> Input \<Rightarrow> 'a devices_scheme \<Rightarrow> bool" where
  "editing limit line this s \<longleftrightarrow> (\<exists>tty. g_tty s = Some tty \<and> ft_ctx tty \<noteq> null) \<and> unat (in_limit this) = limit
     \<and> unat (in_length this) = length line \<and> length line \<le> limit \<and> shows_line (flanterm_out s) line"

lemma echo_edits:
  assumes "editing limit line this s"
  shows "\<exists>this' out. echo key (this, s) = ret (this', s\<lparr>flanterm_out := out\<rparr>)
    \<and> editing limit (line_edit limit line key) this' (s\<lparr>flanterm_out := out\<rparr>)"
proof -
  obtain tty where tty: "g_tty s = Some tty" "ft_ctx tty \<noteq> null" using assms by (auto simp: editing_def)
  note e = assms [unfolded editing_def]
  consider (enter) "key = ScanCode_Enter \<or> key = ScanCode_KeypadEnter"
    | (erase) "\<not> (key = ScanCode_Enter \<or> key = ScanCode_KeypadEnter)" "key = ScanCode_Backspace" "line \<noteq> []"
    | (typed) "\<not> (key = ScanCode_Enter \<or> key = ScanCode_KeypadEnter)" "key \<noteq> ScanCode_Backspace" "unat key < length keymap"
        "keymap ! unat key \<noteq> CHR 0x00" "length line < limit"
    | (none) "\<not> (key = ScanCode_Enter \<or> key = ScanCode_KeypadEnter)" "key = ScanCode_Backspace \<longrightarrow> line = []"
        "\<not> (key \<noteq> ScanCode_Backspace \<and> unat key < length keymap \<and> keymap ! unat key \<noteq> CHR 0x00 \<and> length line < limit)"
    by blast
  then show ?thesis
  proof cases
    case enter
    then show ?thesis
      using e shows_prompt [of "flanterm_out s"]
      by (intro exI [of _ "this\<lparr>in_length := 0\<rparr>"] exI [of _ "flanterm_out s @ [CHR 0x0D, CHR 0x0A] @ prompt"])
        (simp add: echo_def klog_def write_terminal_def tty line_edit_def editing_def prompt_def)
  next
    case erase
    then have n: "in_length this \<noteq> 0" using e by (metis length_0_conv unat_0)
    then have "unat (in_length this - 1) = length (butlast line)" using e by (simp add: unat_minus_one)
    then show ?thesis
      using e erase n shows_backspace [of "flanterm_out s" line]
      by (intro exI [of _ "this\<lparr>in_length := in_length this - 1\<rparr>"] exI [of _ "flanterm_out s @ [CHR 0x08, CHR '' '', CHR 0x08]"])
        (auto simp: echo_def klog_def write_terminal_def tty line_edit_def editing_def)
  next
    case typed
    have less: "in_length this < in_limit this" using e typed by (simp add: word_less_nat_alt)
    then have "unat (in_length this + 1) = length line + 1"
      using e unat_add_nowrap [of "in_length this" 1] u64_less_2p64 [of "in_limit this"] by (simp add: word_less_nat_alt)
    then show ?thesis
      using e typed less shows_character [of "flanterm_out s" line "keymap ! unat key"] keymap_printable [OF typed(3)]
      by (intro exI [of _ "this\<lparr>in_length := in_length this + 1\<rparr>"] exI [of _ "flanterm_out s @ [keymap ! unat key]"])
        (simp add: echo_def write_terminal_def tty line_edit_def editing_def)
  next
    case none
    have "(in_length this < in_limit this) = (length line < limit)" "line = [] \<longrightarrow> in_length this = 0"
      using e by (auto simp: word_less_nat_alt unat_eq_0)
    then have "echo key (this, s) = ret (this, s)" "line_edit limit line key = line" using none by (auto simp: echo_def line_edit_def)
    then show ?thesis using assms by (intro exI [of _ this] exI [of _ "flanterm_out s"]) simp
  qed
qed

lemma read_and_echo_edits:
  assumes "editing limit line this s" and "ring_inv (kb_data (g_keyboard s))" and "ring_contents (kb_data (g_keyboard s)) = key # keys"
  shows "\<exists>this' s'. read_and_echo hlt (this, s) = ret (this', s') \<and> editing limit (line_edit limit line key) this' s'
    \<and> ring_inv (kb_data (g_keyboard s')) \<and> ring_contents (kb_data (g_keyboard s')) = keys \<and> interrupts_on (rflags s')"
proof -
  obtain b where b: "get_read (kb_data (g_keyboard s)) = key" "buf_read (kb_data (g_keyboard s)) = ret b" "ring_inv b" "ring_contents b = keys"
    using buf_read_nonempty [OF assms(2,3)] by blast
  have full: "\<not> is_empty (kb_data (g_keyboard s))"
    using is_empty_iff [OF assms(2)] assms(3) by (auto simp: ring_contents_Nil [symmetric])
  let ?s = "s\<lparr>g_keyboard := (g_keyboard s)\<lparr>kb_data := b\<rparr>, rflags := sti (cli (rflags s))\<rparr>"
  have "read_and_echo hlt (this, s) = echo key (this, ?s)"
    using full b by (simp add: read_and_echo_def wait_key.simps Let_def)
  moreover have "editing limit line this ?s" using assms(1) by (simp add: editing_def)
  from echo_edits [OF this, of key] obtain this' out where "echo key (this, ?s) = ret (this', ?s\<lparr>flanterm_out := out\<rparr>)"
    "editing limit (line_edit limit line key) this' (?s\<lparr>flanterm_out := out\<rparr>)" by blast
  ultimately show ?thesis using b(3,4) by auto
qed

section \<open>Properties\<close>

text \<open>
  Claim C12. The terminal is a line editor. While keys are waiting, each round of the terminal thread takes one, in order, and
  the row of the screen shows the prompt and the edited line with the cursor behind it: enter starts a new row, backspace removes the
  last character but never one of the prompt, a key with a character adds it as long as the line fits, and every other key does
  nothing. The count of the thread is the length of the line, which never exceeds the limit, and interrupts
  are on again after every round.
\<close>

theorem terminal_shows_the_line:
  assumes "editing limit line this s" and "ring_inv (kb_data (g_keyboard s))"
    and "ring_contents (kb_data (g_keyboard s)) = keys @ rest" and "keys \<noteq> []"
  shows "\<exists>this' s'. for_each (\<lambda>_. read_and_echo hlt) keys (this, s) = ret (this', s')
    \<and> shows_line (flanterm_out s') (foldl (line_edit limit) line keys)
    \<and> unat (in_length this') = length (foldl (line_edit limit) line keys) \<and> length (foldl (line_edit limit) line keys) \<le> limit
    \<and> ring_contents (kb_data (g_keyboard s')) = rest \<and> interrupts_on (rflags s')"
  using assms
proof (induction keys arbitrary: line this s)
  case (Cons key keys)
  obtain this1 s1 where 1: "read_and_echo hlt (this, s) = ret (this1, s1)" "editing limit (line_edit limit line key) this1 s1"
    "ring_inv (kb_data (g_keyboard s1))" "ring_contents (kb_data (g_keyboard s1)) = keys @ rest" "interrupts_on (rflags s1)"
    using read_and_echo_edits [OF Cons.prems(1,2), of key "keys @ rest" hlt] Cons.prems(3) by auto
  show ?case
  proof (cases "keys = []")
    case True
    then show ?thesis using 1 by (auto simp: editing_def)
  next
    case False
    then show ?thesis using Cons.IH [OF 1(2,3,4)] 1(1) by simp
  qed
qed simp

definition test_terminal :: devices where
  "test_terminal = test_devices\<lparr>flanterm_out := prompt,
     g_keyboard := (g_keyboard test_devices)\<lparr>kb_data := \<lparr>rb_cap = [0x10, 0x11, 0x0E, 0x1F, 0], rb_read = 0, rb_write = 4, rb_size = 4\<rparr>\<rparr>\<rparr>"

theorem terminal_shows_the_line_witness:
  "\<exists>this' s'. for_each (\<lambda>_. read_and_echo id) [0x10 :: u8, 0x11, 0x0E, 0x1F] (\<lparr>in_length = 0, in_limit = 72\<rparr>, test_terminal) = ret (this', s')
     \<and> shows_line (flanterm_out s') ''qs''"
proof -
  have g: "g_tty test_terminal = Some \<lparr>m_fb = 0x1000, ft_ctx = 0x2000\<rparr>"
    by (simp add: test_terminal_def test_devices_def tables.defs syscalls.defs sched.defs procs.defs pit.defs test_sched_def test_pit_def
        console.defs test_console_def io.defs)
  have "shows_line prompt []" by (simp add: shows_line_def screen_row_def prompt_def)
  then have "editing 72 [] \<lparr>in_length = 0, in_limit = 72\<rparr> test_terminal"
    unfolding editing_def by (simp add: g) (simp add: test_terminal_def)
  moreover have "ring_inv (kb_data (g_keyboard test_terminal))" "ring_contents (kb_data (g_keyboard test_terminal)) = [0x10, 0x11, 0x0E, 0x1F] @ []"
    by (simp_all add: test_terminal_def ring_inv_def ring_contents_def upt_rec)
  moreover have "foldl (line_edit 72) [] [0x10, 0x11, 0x0E, 0x1F] = ''qs''"
    by (simp add: line_edit_def keymap_def ScanCode_Enter_def ScanCode_KeypadEnter_def ScanCode_Backspace_def)
  ultimately show ?thesis
    using terminal_shows_the_line [of 72 "[]" "\<lparr>in_length = 0, in_limit = 72\<rparr>" test_terminal "[0x10, 0x11, 0x0E, 0x1F]" "[]" id] by auto
qed

end
