(* ===== verification/Spec2Isabelle.thy ===== *)
theory Spec2Isabelle
  imports Ring_Buffer Single_Deque Kernel_Heap Elf_Loader User_Program Interrupt_Entry Terminal
begin

text \<open>
  A verification development for TwoKernel, a monolithic x86-64 kernel in C++ with a small user program in C. All paths
  below are relative to \<^verbatim>\<open>src/src/\<close>.

  \<^bold>\<open>The program.\<close> \<^verbatim>\<open>kmain\<close> takes the memory map from the Limine boot loader, builds the physical allocator and the page
  tables, opens a terminal on the frame buffer, loads the segment and interrupt tables, programs the two interrupt
  controllers, the interval timer and the keyboard, installs the system call entry and starts the terminal thread. From
  then on the kernel runs on interrupts: the timer drives the scheduler, the keyboard fills a ring buffer that the terminal
  thread empties. User programs are ELF images mapped by the loader; they enter the kernel through \<open>syscall\<close>.

  \<^bold>\<open>Style of the model.\<close> Kernel code is a function from a state to an outcome \<open>'a exec\<close>: \<open>ret v\<close>, \<open>halt why\<close> (a panic, a null
  dereference, a halted processor) or \<open>diverges\<close> (a loop that never ends). The state is a chain of extensible records that
  follows the layers of the code, \<open>machine\<close>, \<open>pmm\<close>, \<open>vmm\<close>, \<open>io\<close>, \<open>console\<close>, \<open>pit\<close>, \<open>procs\<close>, \<open>sched\<close>, \<open>syscalls\<close>, \<open>tables\<close>,
  \<open>devices\<close>, so that an operation of one layer applies to every layer above. Integers keep their width (\<open>u8\<close> to \<open>u64\<close>,
  arithmetic wraps). Free-list nodes, page tables, heap headers, ELF images, stacks and saved frames live in one byte-addressed
  memory, where aliasing is real; thread and process blocks are maps from pointers to records, their hooks a map from
  pointers to pointers. Devices are a parameter: a function from the port and the log of all past exchanges to the byte read.

  \<^bold>\<open>Theories, from the bottom.\<close>
  \<^item> \<open>Kernel_Prelude\<close>: integer types, outcomes, \<^verbatim>\<open>include/util/align.hpp\<close>, shared lemmas on words and outcomes.
  \<^item> \<open>Fifo_Interface\<close> and \<open>Ring_Buffer\<close>: the contract of a bounded queue and \<^verbatim>\<open>include/std/ring_buffer.hpp\<close>, which implements
    it; every run of operations behaves as on a list, and the keyboard buffer holds 254 keys.
  \<^item> \<open>Single_Deque\<close>: \<^verbatim>\<open>include/std/single_deque.hpp\<close> over a heap of hooks; all operations refine lists, and deques that
    share a hook field do not interfere while their elements are disjoint. \<open>linked_queue\<close> is the contract of a client that
    rotates a queue.
  \<^item> \<open>Byte_Memory\<close>: memory and \<^verbatim>\<open>libc/string.cpp\<close>; copies, fills, moves and comparisons meet their specification.
  \<^item> \<open>Spin_Lock\<close>: \<^verbatim>\<open>include/util/spinlocks.hpp\<close> and \<^verbatim>\<open>irq_gaurd.hpp\<close>; mutual exclusion over interleavings of any number
    of processors (a step relation), and the interrupt flag is restored.
  \<^item> \<open>Boot_Info\<close>, \<open>Page_Interface\<close>, \<open>Phys_Allocator\<close>: the boot loader's answers, the contract \<open>page_allocator\<close> between the
    allocator and its clients, and \<^verbatim>\<open>kernel/memory/pmm.cpp\<close>, which implements it: no page is lost or handed out twice, and
    allocation is first fit.
  \<^item> \<open>Kernel_Heap\<close>: \<^verbatim>\<open>kernel/memory/heap.cpp\<close>, a client of that contract.
  \<^item> \<open>Page_Tables\<close>, \<open>Page_Walk\<close>, \<open>Virtual_Memory\<close>: \<^verbatim>\<open>kernel/memory/vmm.cpp\<close>. \<open>Page_Walk\<close> gives four levels of tables a
    meaning, a partial function on addresses; \<open>Virtual_Memory\<close> shows what mapping, unmapping and address spaces do to it.
  \<^item> \<open>Port_IO\<close>, \<open>Kernel_Log\<close>, \<open>Pit_Timer\<close>, \<open>Keyboard\<close>: \<^verbatim>\<open>io.hpp\<close>, \<^verbatim>\<open>kernel_logger.cpp\<close> with the terminal of \<^verbatim>\<open>fbtty.cpp\<close>,
    \<^verbatim>\<open>ctype.cpp\<close>, \<^verbatim>\<open>pit.cpp\<close>, \<^verbatim>\<open>event.hpp\<close> and \<^verbatim>\<open>ps2.cpp\<close>: printed numbers read back, messages reach the terminal,
    milliseconds are counted exactly and seconds within a bound, keys arrive in order, and set-up of the keyboard ends exactly when the controller runs dry.
  \<^item> \<open>Threads\<close>, \<open>Scheduler\<close>, \<open>Sched_Invariant\<close>, \<open>Scheduling\<close>, \<open>Sched_Faults\<close>: \<^verbatim>\<open>thread.cpp\<close>, \<^verbatim>\<open>process.cpp\<close> and
    \<^verbatim>\<open>scheduler.cpp\<close>. The operations refine an abstract scheduler on lists, threads are neither lost nor duplicated, slices
    are round robin (locale \<open>round_robin\<close>), sleepers wake on time; \<open>Sched_Faults\<close> holds the cases in which the code leaves
    its own invariant.
  \<^item> \<open>Elf_Image\<close>, \<open>Elf_Loader\<close>: \<^verbatim>\<open>elf.hpp\<close> and \<^verbatim>\<open>elf_loader.cpp\<close>: validation never reads outside the image, what is
    accepted is compared with the specification in the tests, and a loaded program has its bytes, zeroes and rights in place.
  \<^item> \<open>Syscalls\<close>, \<open>User_Program\<close>: \<^verbatim>\<open>syscall.s\<close> instruction by instruction, the dispatcher and handlers, and on the other side
    \<^verbatim>\<open>sysv_syscalls.h\<close> and \<^verbatim>\<open>user/\<close>: a call is a round trip for every register it should keep, the user program passes
    its own checks, and its exit does not end it.
  \<^item> \<open>Cpu_Tables\<close>, \<open>Interrupts\<close>, \<open>Interrupt_Entry\<close>: \<^verbatim>\<open>gdt.cpp\<close>, \<^verbatim>\<open>idt.cpp\<close>, \<^verbatim>\<open>cpu.cpp\<close>, \<^verbatim>\<open>irq.cpp\<close>, \<^verbatim>\<open>exceptions.cpp\<close>,
    \<^verbatim>\<open>dev/\<close> and \<^verbatim>\<open>isr.s\<close>: after boot all gates, descriptors, model specific registers and controller masks fit together,
    and a timer interrupt saves one context in memory and resumes the one the scheduler chose.
  \<^item> \<open>Terminal\<close>: \<^verbatim>\<open>kernel/util/terminal*.cpp\<close>: the screen row always shows the prompt and the edited line.

  \<^bold>\<open>Loops.\<close> No loop has fuel. Counting loops are functions with a termination measure; loops that may run for ever are
  partial functions whose value is \<open>diverges\<close> when they do, and the theorems state that they return. A list walk returns
  because the representation invariant gives a finite chain, a wait because the parameter that stands for the outside world
  is assumed to deliver.

  \<^bold>\<open>Hypotheses on the outside.\<close> The boot loader gives disjoint, page-aligned, non-wrapping usable regions and a direct map; the
  interrupt controllers answer a read of a mask register with the mask last written; the compiler's calls keep the
  callee-saved registers. Addresses that the linker chooses (tables, stubs, entry points) are the record \<open>layout\<close>. Every
  theorem with hypotheses is followed by an instance at concrete data.

  \<^bold>\<open>Not modelled.\<close> The frame buffer emulator (flanterm) beyond the characters sent to it, and the Limine protocol beyond the
  answers the kernel reads, are libraries outside the sources; \<^verbatim>\<open>fb_init\<close>, \<^verbatim>\<open>base_revision_check\<close>, \<^verbatim>\<open>run_global_ctors\<close> and
  \<^verbatim>\<open>hcf\<close> are start-up code around them. Interrupts are delivered at the points where the theorems place them (a waiting
  loop, a timer tick between instructions of a thread), not between arbitrary C++ statements; only the locks are
  studied under interleaving. Caches, the TLB and timing are left out. \<^verbatim>\<open>cpuid\<close> has no caller; \<^verbatim>\<open>allocate_user_heap\<close> and
  \<^verbatim>\<open>calculate_base_and_bound\<close> are declared and never defined; the in-kernel test framework and its tests are not part
  of the running kernel.
\<close>

end
